(* ===== verification/Prelude.thy ===== *)
theory Prelude
  imports Main "HOL-Library.Word"
begin

text \<open>
  Shared ground of the development: the theorem collections the component theories extend,
  the result-and-state monad in which every service function is written, 64-bit signed
  arithmetic, the fragment of Rust's string library that the program uses, and the
  identifier type \<open>uuid\<close>.

  A string is a list of Unicode scalar values.  The model covers the values
  U+0000..U+00FF, one \<open>char\<close> each; in this range \<open>\d\<close> of the \<open>regex\<close> crate is exactly
  the ten ASCII digits and \<open>str::trim\<close> removes exactly the characters of \<open>is_space\<close>.
\<close>

named_theorems monad_simps "evaluation of the service monad"
named_theorems keeps_rules "rules that show that a program keeps an invariant"
named_theorems db_simps "what a statement does to each table"

section \<open>The service monad\<close>

text \<open>
  An \<open>async fn f(state, ..) -> Result<T, E>\<close> is a function from the state to the result and
  the state it leaves behind.  The result is a value of the sum type: \<open>Inl\<close> is \<open>Err\<close>,
  \<open>Inr\<close> is \<open>Ok\<close>.  \<open>bnd\<close> is the \<open>?\<close> operator: an error ends the function, and the
  effects made before it stay.
\<close>

type_synonym ('s, 'e, 'a) prog = "'s \<Rightarrow> ('e + 'a) \<times> 's"

definition ret :: "'a \<Rightarrow> ('s, 'e, 'a) prog" where
  "ret x = (\<lambda>s. (Inr x, s))"

definition throw :: "'e \<Rightarrow> ('s, 'e, 'a) prog" where
  "throw e = (\<lambda>s. (Inl e, s))"

definition bnd :: "('s, 'e, 'a) prog \<Rightarrow> ('a \<Rightarrow> ('s, 'e, 'b) prog) \<Rightarrow> ('s, 'e, 'b) prog" where
  "bnd m f = (\<lambda>s. case m s of (Inl e, s') \<Rightarrow> (Inl e, s') | (Inr x, s') \<Rightarrow> f x s')"

definition thn :: "('s, 'e, 'a) prog \<Rightarrow> ('s, 'e, 'b) prog \<Rightarrow> ('s, 'e, 'b) prog" where
  "thn m k = bnd m (\<lambda>_. k)"

text \<open>\<open>lift r\<close> is a pure \<open>Result\<close> followed by \<open>?\<close>; \<open>discard m\<close> is \<open>let _ = m.await;\<close>.\<close>

definition lift :: "'e + 'a \<Rightarrow> ('s, 'e, 'a) prog" where
  "lift r = (\<lambda>s. (r, s))"

definition discard :: "('s, 'e, 'a) prog \<Rightarrow> ('s, 'e, unit) prog" where
  "discard m = (\<lambda>s. (Inr (), snd (m s)))"

definition guard :: "bool \<Rightarrow> 'e \<Rightarrow> ('s, 'e, unit) prog" where
  "guard b e = (if b then ret () else throw e)"

definition ok_or :: "'a option \<Rightarrow> 'e \<Rightarrow> 'e + 'a" where
  "ok_or v e = (case v of None \<Rightarrow> Inl e | Some x \<Rightarrow> Inr x)"

definition map_err :: "('e \<Rightarrow> 'f) \<Rightarrow> 'e + 'a \<Rightarrow> 'f + 'a" where
  "map_err f r = (case r of Inl e \<Rightarrow> Inl (f e) | Inr x \<Rightarrow> Inr x)"

lemma ret_run [monad_simps]: "ret x s = (Inr x, s)"
  by (simp add: ret_def)

lemma throw_run [monad_simps]: "throw e s = (Inl e, s)"
  by (simp add: throw_def)

lemma bnd_run [monad_simps]:
  "bnd m f s = (case m s of (Inl e, s') \<Rightarrow> (Inl e, s') | (Inr x, s') \<Rightarrow> f x s')"
  by (simp add: bnd_def)

lemma thn_run [monad_simps]:
  "thn m k s = (case m s of (Inl e, s') \<Rightarrow> (Inl e, s') | (Inr x, s') \<Rightarrow> k s')"
  by (simp add: thn_def bnd_def)

lemma lift_run [monad_simps]: "lift r s = (r, s)"
  by (simp add: lift_def)

lemma discard_run [monad_simps]: "discard m s = (Inr (), snd (m s))"
  by (simp add: discard_def)

lemma guard_run [monad_simps]: "guard b e s = (if b then Inr () else Inl e, s)"
  by (simp add: guard_def ret_def throw_def)

lemma ok_or_simps [simp]: "ok_or None e = Inl e" "ok_or (Some x) e = Inr x"
  by (simp_all add: ok_or_def)

lemma ok_or_eq_Inr [simp]: "ok_or v e = Inr x \<longleftrightarrow> v = Some x"
  by (cases v) auto

lemma map_err_simps [simp]: "map_err f (Inl e) = Inl (f e)" "map_err f (Inr x) = Inr x"
  by (simp_all add: map_err_def)

lemma map_err_eq_Inr [simp]: "map_err f r = Inr x \<longleftrightarrow> r = Inr x"
  by (cases r) auto

text \<open>Inversion: how a sequence can have succeeded, and how it can have failed.\<close>

lemma bnd_Inr_iff:
  "bnd m f s = (Inr y, s2) \<longleftrightarrow> (\<exists>x s1. m s = (Inr x, s1) \<and> f x s1 = (Inr y, s2))"
  by (auto simp: bnd_def split: prod.splits sum.splits)

lemma bnd_InrE:
  assumes "bnd m f s = (Inr y, s2)"
  obtains x s1 where "m s = (Inr x, s1)" "f x s1 = (Inr y, s2)"
  using assms unfolding bnd_Inr_iff by blast

lemma thn_Inr_iff:
  "thn m k s = (Inr y, s2) \<longleftrightarrow> (\<exists>x s1. m s = (Inr x, s1) \<and> k s1 = (Inr y, s2))"
  by (auto simp: thn_def bnd_Inr_iff)

lemma guard_Inr_iff: "guard b e s = (Inr y, s2) \<longleftrightarrow> b \<and> s2 = s"
  by (auto simp: guard_run)

lemma lift_Inr_iff: "lift r s = (Inr y, s2) \<longleftrightarrow> r = Inr y \<and> s2 = s"
  by (auto simp: lift_run)

lemma ret_Inr_iff: "ret x s = (Inr y, s2) \<longleftrightarrow> y = x \<and> s2 = s"
  by (auto simp: ret_run)

lemma throw_Inr_iff: "throw e s = (Inr y, s2) \<longleftrightarrow> False"
  by (auto simp: throw_run)

lemmas prog_Inr_iff = bnd_Inr_iff thn_Inr_iff guard_Inr_iff lift_Inr_iff ret_Inr_iff throw_Inr_iff

subsection \<open>Invariants of programs\<close>

text \<open>\<open>keeps I m\<close>: whatever \<open>m\<close> returns, it leaves a state of \<open>I\<close> behind.\<close>

definition keeps :: "('s \<Rightarrow> bool) \<Rightarrow> ('s, 'e, 'a) prog \<Rightarrow> bool" where
  "keeps I m \<longleftrightarrow> (\<forall>s. I s \<longrightarrow> I (snd (m s)))"

lemma keepsI: "(\<And>s. I s \<Longrightarrow> I (snd (m s))) \<Longrightarrow> keeps I m"
  by (simp add: keeps_def)

lemma keepsD: "keeps I m \<Longrightarrow> I s \<Longrightarrow> I (snd (m s))"
  by (simp add: keeps_def)

lemma keeps_ret [keeps_rules]: "keeps I (ret x)"
  by (simp add: keeps_def ret_def)

lemma keeps_throw [keeps_rules]: "keeps I (throw e)"
  by (simp add: keeps_def throw_def)

lemma keeps_lift [keeps_rules]: "keeps I (lift r)"
  by (simp add: keeps_def lift_def)

lemma keeps_guard [keeps_rules]: "keeps I (guard b e)"
  by (simp add: keeps_def guard_run)

lemma keeps_bnd [keeps_rules]:
  assumes "keeps I m" and "\<And>x. keeps I (f x)"
  shows "keeps I (bnd m f)"
proof (rule keepsI)
  fix s assume "I s"
  with assms(1) have 1: "I (snd (m s))" by (rule keepsD)
  show "I (snd (bnd m f s))"
    using 1 assms(2) by (auto simp: bnd_def keeps_def split: prod.splits sum.splits)
qed

lemma keeps_thn [keeps_rules]: "keeps I m \<Longrightarrow> keeps I k \<Longrightarrow> keeps I (thn m k)"
  by (simp add: thn_def keeps_bnd)

lemma keeps_discard [keeps_rules]: "keeps I m \<Longrightarrow> keeps I (discard m)"
  by (simp add: keeps_def discard_def)

lemma keeps_if [keeps_rules]:
  "(b \<Longrightarrow> keeps I m) \<Longrightarrow> (\<not> b \<Longrightarrow> keeps I m') \<Longrightarrow> keeps I (if b then m else m')"
  by simp

lemma keeps_case_option [keeps_rules]:
  "(v = None \<Longrightarrow> keeps I m) \<Longrightarrow> (\<And>x. v = Some x \<Longrightarrow> keeps I (f x)) \<Longrightarrow>
     keeps I (case v of None \<Rightarrow> m | Some x \<Rightarrow> f x)"
  by (cases v) auto

lemma keeps_case_prod [keeps_rules]:
  "(\<And>a b. p = (a, b) \<Longrightarrow> keeps I (f a b)) \<Longrightarrow> keeps I (case p of (a, b) \<Rightarrow> f a b)"
  by (cases p) auto

lemma keeps_let [keeps_rules]: "(\<And>x. keeps I (f x)) \<Longrightarrow> keeps I (let x = v in f x)"
  by simp

section \<open>64-bit signed integers\<close>

text \<open>
  An \<open>i64\<close> is an \<open>int\<close> in the range below.  \<open>+\<close> of the release build wraps around
  (two's complement); \<open>checked_add\<close> and \<open>checked_mul\<close> answer \<open>None\<close> on overflow.
\<close>

definition i64_min :: int where "i64_min = - (2 ^ 63)"
definition i64_max :: int where "i64_max = 2 ^ 63 - 1"

definition in_i64 :: "int \<Rightarrow> bool" where
  "in_i64 a \<longleftrightarrow> i64_min \<le> a \<and> a \<le> i64_max"

definition i64_wrap :: "int \<Rightarrow> int" where
  "i64_wrap a = (a + 2 ^ 63) mod 2 ^ 64 - 2 ^ 63"

definition i64_add :: "int \<Rightarrow> int \<Rightarrow> int" where "i64_add a b = i64_wrap (a + b)"
definition i64_sub :: "int \<Rightarrow> int \<Rightarrow> int" where "i64_sub a b = i64_wrap (a - b)"
definition i64_mul :: "int \<Rightarrow> int \<Rightarrow> int" where "i64_mul a b = i64_wrap (a * b)"

definition i64_checked_add :: "int \<Rightarrow> int \<Rightarrow> int option" where
  "i64_checked_add a b = (if in_i64 (a + b) then Some (a + b) else None)"

definition i64_checked_sub :: "int \<Rightarrow> int \<Rightarrow> int option" where
  "i64_checked_sub a b = (if in_i64 (a - b) then Some (a - b) else None)"

definition i64_checked_mul :: "int \<Rightarrow> int \<Rightarrow> int option" where
  "i64_checked_mul a b = (if in_i64 (a * b) then Some (a * b) else None)"

lemma i64_wrap_is_sint: "i64_wrap a = sint (word_of_int a :: 64 word)"
  by (simp add: i64_wrap_def int_word_sint)

lemma i64_wrap_id: "in_i64 a \<Longrightarrow> i64_wrap a = a"
  by (simp add: i64_wrap_def in_i64_def i64_min_def i64_max_def)

lemma in_i64_wrap: "in_i64 (i64_wrap a)"
proof -
  have "0 \<le> (a + 2 ^ 63) mod 2 ^ 64" and "(a + 2 ^ 63) mod 2 ^ 64 < (2 ^ 64 :: int)"
    by simp_all
  then show ?thesis by (simp add: i64_wrap_def in_i64_def i64_min_def i64_max_def)
qed

text \<open>A sum of two non-negative \<open>i64\<close>s that overflows comes out negative.\<close>

lemma i64_add_nonneg_wraps:
  assumes "0 \<le> a" "a \<le> i64_max" "0 \<le> b" "b \<le> i64_max"
  shows "i64_add a b = (if a + b \<le> i64_max then a + b else a + b - 2 ^ 64)"
proof (cases "a + b \<le> i64_max")
  case True
  with assms show ?thesis
    by (simp add: i64_add_def i64_wrap_id in_i64_def i64_min_def)
next
  case False
  then have "(a + b + 2 ^ 63) mod 2 ^ 64 = (a + b + 2 ^ 63 - 2 ^ 64) mod (2 ^ 64 :: int)"
    by (metis minus_mod_self2)
  also have "\<dots> = a + b + 2 ^ 63 - 2 ^ 64"
    by (rule mod_pos_pos_trivial) (use assms False in \<open>simp_all add: i64_max_def\<close>)
  finally show ?thesis using False by (simp add: i64_add_def i64_wrap_def)
qed

corollary i64_add_overflow_negative:
  "0 \<le> a \<Longrightarrow> a \<le> i64_max \<Longrightarrow> 0 \<le> b \<Longrightarrow> b \<le> i64_max \<Longrightarrow> 0 \<le> i64_add a b \<Longrightarrow> i64_add a b = a + b"
  by (simp add: i64_add_nonneg_wraps i64_max_def split: if_splits)

lemma i64_sub_nonneg:
  "0 \<le> b \<Longrightarrow> b \<le> a \<Longrightarrow> a \<le> i64_max \<Longrightarrow> i64_sub a b = a - b"
  by (simp add: i64_sub_def i64_wrap_id in_i64_def i64_min_def)

section \<open>Strings\<close>

type_synonym str = string

definition is_digit :: "char \<Rightarrow> bool" where
  "is_digit c \<longleftrightarrow> 48 \<le> (of_char c :: nat) \<and> (of_char c :: nat) \<le> 57"

definition is_space :: "char \<Rightarrow> bool" where
  "is_space c \<longleftrightarrow> (let n = (of_char c :: nat) in
     (9 \<le> n \<and> n \<le> 13) \<or> n = 32 \<or> n = 133 \<or> n = 160)"

text \<open>Bitwise forms, for the evaluation of the parsers.\<close>

lemma is_digit_code [code]:
  "is_digit (Char b0 b1 b2 b3 b4 b5 b6 b7) \<longleftrightarrow> \<not> b7 \<and> \<not> b6 \<and> b5 \<and> b4 \<and> \<not> (b3 \<and> (b2 \<or> b1))"
  by (cases b0; cases b1; cases b2; cases b3; cases b4; cases b5; cases b6; cases b7; simp add: is_digit_def)

lemma is_space_code [code]:
  "is_space (Char b0 b1 b2 b3 b4 b5 b6 b7) \<longleftrightarrow>
     (if b7 then \<not> b6 \<and> (if b5 then \<not> b4 \<and> \<not> b3 \<and> \<not> b2 \<and> \<not> b1 \<and> \<not> b0
                           else \<not> b4 \<and> \<not> b3 \<and> b2 \<and> \<not> b1 \<and> b0)
      else \<not> b6 \<and> \<not> b4 \<and> (if b5 then \<not> b3 \<and> \<not> b2 \<and> \<not> b1 \<and> \<not> b0
                            else b3 \<and> (b2 \<longrightarrow> \<not> b1) \<and> (b2 \<or> b1 \<or> b0)))"
  by (cases b0; cases b1; cases b2; cases b3; cases b4; cases b5; cases b6; cases b7; simp add: is_space_def)

definition trim :: "str \<Rightarrow> str" where
  "trim s = rev (dropWhile is_space (rev (dropWhile is_space s)))"

definition starts_with :: "str \<Rightarrow> str \<Rightarrow> bool" where
  "starts_with s p \<longleftrightarrow> take (length p) s = p"

definition split_once :: "char \<Rightarrow> str \<Rightarrow> (str \<times> str) option" where
  "split_once c s = (case dropWhile (\<lambda>x. x \<noteq> c) s of
     [] \<Rightarrow> None | _ # rest \<Rightarrow> Some (takeWhile (\<lambda>x. x \<noteq> c) s, rest))"

definition digit_val :: "char \<Rightarrow> int" where
  "digit_val c = int (of_char c :: nat) - 48"

definition digits_val :: "str \<Rightarrow> int" where
  "digits_val ds = foldl (\<lambda>a c. 10 * a + digit_val c) 0 ds"

text \<open>\<open>str::parse::<i64>()\<close>: an optional sign, at least one digit, in range.\<close>

definition i64_of_digits :: "int \<Rightarrow> str \<Rightarrow> int option" where
  "i64_of_digits sg ds =
     (if ds \<noteq> [] \<and> list_all is_digit ds \<and> in_i64 (sg * digits_val ds)
      then Some (sg * digits_val ds) else None)"

fun i64_from_str :: "str \<Rightarrow> int option" where
  "i64_from_str [] = None"
| "i64_from_str (c # cs) =
     (if c = CHR ''+'' then i64_of_digits 1 cs
      else if c = CHR ''-'' then i64_of_digits (-1) cs
      else i64_of_digits 1 (c # cs))"

definition digit_char :: "nat \<Rightarrow> char" where
  "digit_char d = char_of (48 + d)"

fun show_nat :: "nat \<Rightarrow> str" where
  "show_nat n = (if n < 10 then [digit_char n] else show_nat (n div 10) @ [digit_char (n mod 10)])"

declare show_nat.simps [simp del]

text \<open>\<open>i64::to_string\<close>.\<close>

definition show_int :: "int \<Rightarrow> str" where
  "show_int i = (if i < 0 then CHR ''-'' # show_nat (nat (- i)) else show_nat (nat i))"

lemma digit_char_facts:
  assumes "d < 10"
  shows "is_digit (digit_char d)" and "digit_val (digit_char d) = int d"
    and "\<not> is_space (digit_char d)" and "digit_char d \<noteq> CHR ''.''"
proof -
  have *: "(of_char (digit_char d) :: nat) = 48 + d"
    using assms by (simp add: digit_char_def)
  then show "is_digit (digit_char d)" "digit_val (digit_char d) = int d" "\<not> is_space (digit_char d)"
    using assms by (simp_all add: is_digit_def digit_val_def is_space_def Let_def)
  from * assms show "digit_char d \<noteq> CHR ''.''"
    by auto
qed


lemma digits_val_simps [simp]:
  "digits_val [] = 0" "digits_val (ds @ [c]) = 10 * digits_val ds + digit_val c"
  by (simp_all add: digits_val_def)

lemma digit_val_bounds: "is_digit c \<Longrightarrow> 0 \<le> digit_val c \<and> digit_val c \<le> 9"
  by (simp add: is_digit_def digit_val_def)

lemma digits_val_bounds:
  "list_all is_digit ds \<Longrightarrow> 0 \<le> digits_val ds \<and> digits_val ds < 10 ^ length ds"
proof (induction ds rule: rev_induct)
  case Nil
  then show ?case by simp
next
  case (snoc c ds)
  then show ?case using digit_val_bounds [of c] by auto
qed

lemma digits_val_bound_le:
  assumes "list_all is_digit ds" "length ds \<le> n"
  shows "digits_val ds < 10 ^ n"
proof -
  have "digits_val ds < 10 ^ length ds" using assms(1) digits_val_bounds by blast
  also have "\<dots> \<le> 10 ^ n" using assms(2) by (simp add: power_increasing)
  finally show ?thesis .
qed

lemma show_nat_nonempty [simp]: "show_nat n \<noteq> []"
  by (subst show_nat.simps) simp

lemma show_nat_digits: "list_all is_digit (show_nat n)"
proof (induction n rule: show_nat.induct)
  case (1 n)
  then show ?case
    by (subst show_nat.simps) (simp add: digit_char_facts)
qed

lemma digits_val_show_nat [simp]: "digits_val (show_nat n) = int n"
proof (induction n rule: show_nat.induct)
  case (1 n)
  show ?case
  proof (cases "n < 10")
    case True
    then show ?thesis
      using digits_val_simps(2) [of "[]" "digit_char n"]
      by (simp add: show_nat.simps [of n] digit_char_facts)
  next
    case False
    have "10 * int (n div 10) + int (n mod 10) = int n" by presburger
    with False 1 show ?thesis
      by (simp add: show_nat.simps [of n] digit_char_facts)
  qed
qed

lemma length_show_nat: "n < 10 ^ k \<Longrightarrow> 0 < k \<Longrightarrow> length (show_nat n) \<le> k"
proof (induction n arbitrary: k rule: show_nat.induct)
  case (1 n)
  show ?case
  proof (cases "n < 10")
    case True
    with 1 show ?thesis by (simp add: show_nat.simps [of n])
  next
    case False
    with "1.prems" obtain k' where k: "k = Suc k'" and "0 < k'"
      by (cases k; cases "k - 1") auto
    with "1.prems" have "n div 10 < 10 ^ k'" by auto
    with "1.IH" False \<open>0 < k'\<close> have "length (show_nat (n div 10)) \<le> k'" by blast
    with False k show ?thesis by (simp add: show_nat.simps [of n])
  qed
qed

lemma is_digit_not:
  "is_digit c \<Longrightarrow> \<not> is_space c" "is_digit c \<Longrightarrow> c \<noteq> CHR ''.''"
  "is_digit c \<Longrightarrow> c \<noteq> CHR ''+''" "is_digit c \<Longrightarrow> c \<noteq> CHR ''-''"
  by (auto simp: is_digit_def is_space_def Let_def)

lemma trim_id:
  assumes "\<forall>c \<in> set s. \<not> is_space c"
  shows "trim s = s"
proof -
  have *: "dropWhile is_space t = t" if "\<forall>c \<in> set t. \<not> is_space c" for t
    using that by (cases t) auto
  show ?thesis using assms by (simp add: trim_def *)
qed

lemma trim_idem [simp]: "trim (trim s) = trim s"
proof -
  let ?t = "dropWhile is_space s"
  let ?u = "dropWhile is_space (rev ?t)"
  have u: "dropWhile is_space ?u = ?u"
    by (rule dropWhile_idem)
  have "dropWhile is_space (rev ?u) = rev ?u"
  proof (cases "?u = []")
    case False
    obtain w where "rev ?t = w @ ?u"
      using takeWhile_dropWhile_id [of is_space "rev ?t"] by metis
    then have t: "?t = rev ?u @ rev w"
      by (metis rev_append rev_rev_ident)
    have "rev ?u \<noteq> []" using False by simp
    then have "hd (rev ?u) = hd ?t" by (subst t) simp
    moreover have "\<not> is_space (hd ?t)"
      by (rule hd_dropWhile) (use False in force)
    ultimately show ?thesis using \<open>rev ?u \<noteq> []\<close> by (cases "rev ?u") auto
  next
    case True
    then show ?thesis by (simp only: rev.simps dropWhile.simps)
  qed
  with u show ?thesis by (simp add: trim_def)
qed

lemma i64_from_str_digits:
  "list_all is_digit ds \<Longrightarrow> i64_from_str ds = i64_of_digits 1 ds"
  by (cases ds) (auto simp: is_digit_not i64_of_digits_def)

lemma i64_from_str_digits_value:
  assumes "list_all is_digit ds" "ds \<noteq> []" "length ds \<le> 18"
  shows "i64_from_str ds = Some (digits_val ds)"
proof -
  have "digits_val ds < 10 ^ 18" "0 \<le> digits_val ds"
    using assms digits_val_bound_le digits_val_bounds by blast+
  with assms show ?thesis
    by (simp add: i64_from_str_digits i64_of_digits_def in_i64_def i64_min_def i64_max_def)
qed

lemma show_int_nonneg: "0 \<le> i \<Longrightarrow> show_int i = show_nat (nat i)"
  by (simp add: show_int_def)

lemma i64_show_roundtrip:
  assumes "in_i64 i"
  shows "i64_from_str (show_int i) = Some i"
proof (cases "i < 0")
  case True
  with assms show ?thesis
    by (simp add: show_int_def i64_of_digits_def show_nat_digits)
next
  case False
  with assms show ?thesis
    by (simp add: show_int_def i64_from_str_digits i64_of_digits_def show_nat_digits)
qed

lemma show_int_inj [simp]: "in_i64 i \<Longrightarrow> in_i64 j \<Longrightarrow> show_int i = show_int j \<longleftrightarrow> i = j"
  by (metis i64_show_roundtrip option.inject)

text \<open>For evaluation: the digits of a number without unary arithmetic.\<close>

function digits_int :: "int \<Rightarrow> str" where
  "digits_int i = (if i < 10 then [digit_char (nat i)] else digits_int (i div 10) @ [digit_char (nat (i mod 10))])"
  by auto
termination by (relation "measure nat") auto

declare digits_int.simps [simp del]

lemma digits_int_show: "0 \<le> i \<Longrightarrow> digits_int i = show_nat (nat i)"
proof (induction i rule: digits_int.induct)
  case (1 i)
  then show ?case
    by (auto simp: digits_int.simps [of i] show_nat.simps [of "nat i"] nat_div_distrib nat_mod_distrib)
qed

lemma show_int_code [code]:
  "show_int i = (if i < 0 then CHR ''-'' # digits_int (- i) else digits_int i)"
  by (simp add: show_int_def digits_int_show)

section \<open>Identifiers\<close>

text \<open>\<open>Uuid([u8; 16])\<close>: compared bytewise, that is, as 128-bit big-endian numbers.\<close>

datatype uuid = Uuid "128 word"

instantiation uuid :: linorder
begin

fun less_eq_uuid :: "uuid \<Rightarrow> uuid \<Rightarrow> bool" where
  "less_eq_uuid (Uuid a) (Uuid b) = (a \<le> b)"

fun less_uuid :: "uuid \<Rightarrow> uuid \<Rightarrow> bool" where
  "less_uuid (Uuid a) (Uuid b) = (a < b)"

instance
proof
  fix x y z :: uuid
  show "(x < y) = (x \<le> y \<and> \<not> y \<le> x)" by (cases x; cases y) auto
  show "x \<le> x" by (cases x) auto
  show "x \<le> y \<Longrightarrow> y \<le> z \<Longrightarrow> x \<le> z" by (cases x; cases y; cases z) auto
  show "x \<le> y \<Longrightarrow> y \<le> x \<Longrightarrow> x = y" by (cases x; cases y) auto
  show "x \<le> y \<or> y \<le> x" by (cases x; cases y) auto
qed

end

section \<open>Lists as tables\<close>

text \<open>\<open>UPDATE\<close> of the rows that match, and \<open>SELECT .. LIMIT 1\<close> by a key.\<close>

definition update_where :: "('a \<Rightarrow> bool) \<Rightarrow> ('a \<Rightarrow> 'a) \<Rightarrow> 'a list \<Rightarrow> 'a list" where
  "update_where p f xs = map (\<lambda>x. if p x then f x else x) xs"

lemma update_where_simps [simp]:
  "update_where p f [] = []"
  "update_where p f (x # xs) = (if p x then f x else x) # update_where p f xs"
  by (simp_all add: update_where_def)

lemma length_update_where [simp]: "length (update_where p f xs) = length xs"
  by (simp add: update_where_def)

lemma map_update_where: "(\<And>x. p x \<Longrightarrow> g (f x) = g x) \<Longrightarrow> map g (update_where p f xs) = map g xs"
  by (induction xs) auto

lemma update_where_none: "(\<And>x. x \<in> set xs \<Longrightarrow> \<not> p x) \<Longrightarrow> update_where p f xs = xs"
  by (induction xs) auto

lemma set_update_where: "y \<in> set (update_where p f xs) \<Longrightarrow> \<exists>x \<in> set xs. y = (if p x then f x else x)"
  by (auto simp: update_where_def)

lemma find_Some_in: "find p xs = Some x \<Longrightarrow> x \<in> set xs \<and> p x"
  by (induction xs) (auto split: if_splits)

lemma find_update_where:
  "(\<And>x. p x \<Longrightarrow> q (f x) = q x) \<Longrightarrow>
     find q (update_where p f xs) = map_option (\<lambda>x. if p x then f x else x) (find q xs)"
  by (induction xs) auto

lemma find_None_all: "find p xs = None \<longleftrightarrow> (\<forall>x \<in> set xs. \<not> p x)"
  by (induction xs) auto

lemma find_by_key:
  assumes "distinct (map k xs)" "x \<in> set xs"
  shows "find (\<lambda>y. k y = k x) xs = Some x"
  using assms by (induction xs) (auto split: if_splits)

lemma filter_by_key:
  assumes "distinct (map k xs)" "x \<in> set xs"
  shows "filter (\<lambda>y. k y = k x) xs = [x]"
  using assms
proof (induction xs)
  case (Cons a xs)
  show ?case
  proof (cases "a = x")
    case True
    then have "\<forall>y \<in> set xs. k y \<noteq> k x"
      using Cons.prems by (metis distinct.simps(2) image_eqI list.set_map list.simps(9))
    with True show ?thesis by simp
  next
    case False
    then have "x \<in> set xs" "k a \<noteq> k x" using Cons.prems by force+
    with Cons show ?thesis by simp
  qed
qed simp

text \<open>Replacing the value in one row of a table with distinct keys shifts its sum by the change.\<close>

lemma sum_update_key:
  fixes v :: "'a \<Rightarrow> int"
  assumes "distinct (map k xs)" "x \<in> set xs"
  shows "sum_list (map v (update_where (\<lambda>y. k y = k x) f xs)) = sum_list (map v xs) - v x + v (f x)"
  using assms
proof (induction xs)
  case (Cons a xs)
  show ?case
  proof (cases "a = x")
    case True
    then have "\<forall>y \<in> set xs. k y \<noteq> k x"
      using Cons.prems by (metis distinct.simps(2) image_eqI list.set_map list.simps(9))
    then have "update_where (\<lambda>y. k y = k x) f xs = xs" by (simp add: update_where_none)
    with True show ?thesis by simp
  next
    case False
    then have "x \<in> set xs" "k a \<noteq> k x" using Cons.prems by force+
    with Cons show ?thesis by simp
  qed
qed simp

end
