(* ===== verification/Errors.thy ===== *)
theory Errors
  imports Prelude
begin

text \<open>
  The error type of every service (\<open>src/core/error.rs\<close>), its HTTP status and machine-readable
  code, the JSON error envelope built from it, and the success envelope
  (\<open>src/core/envelope.rs\<close>).  A \<open>HashMap\<close> of field messages is an association list.
\<close>

section \<open>Errors\<close>

text \<open>
  The failures of a PostgreSQL statement that the schema or the connection can cause
  (values of \<open>sqlx::Error\<close>).
\<close>

datatype db_error =
    ConnectionError
  | RowNotFound
  | CheckViolation str
  | UniqueViolation str
  | ForeignKeyViolation str
  | NumericValueOutOfRange
  | StringDataRightTruncation str

datatype app_error =
    BadRequest str
  | Validation (v_message: str) (v_fields: "(str \<times> str) list")
  | Unauthorized str
  | Forbidden str
  | NotFound str
  | Conflict str
  | Gone str
  | PayloadTooLarge str
  | Unprocessable str
  | RateLimited str
  | ServiceUnavailable str
  | Internal str
  | Database db_error
  | Redis str

fun status_code :: "app_error \<Rightarrow> nat" where
  "status_code (BadRequest _) = 400"
| "status_code (Validation _ _) = 400"
| "status_code (Unauthorized _) = 401"
| "status_code (Forbidden _) = 403"
| "status_code (NotFound _) = 404"
| "status_code (Conflict _) = 409"
| "status_code (Gone _) = 410"
| "status_code (PayloadTooLarge _) = 413"
| "status_code (Unprocessable _) = 422"
| "status_code (RateLimited _) = 429"
| "status_code (ServiceUnavailable _) = 503"
| "status_code (Internal _) = 500"
| "status_code (Database _) = 500"
| "status_code (Redis _) = 503"

fun error_code :: "app_error \<Rightarrow> str" where
  "error_code (BadRequest _) = ''BAD_REQUEST''"
| "error_code (Validation _ _) = ''VALIDATION_FAILED''"
| "error_code (Unauthorized _) = ''UNAUTHORIZED''"
| "error_code (Forbidden _) = ''FORBIDDEN''"
| "error_code (NotFound _) = ''NOT_FOUND''"
| "error_code (Conflict _) = ''CONFLICT''"
| "error_code (Gone _) = ''EXPIRED''"
| "error_code (PayloadTooLarge _) = ''PAYLOAD_TOO_LARGE''"
| "error_code (Unprocessable _) = ''UNPROCESSABLE_ENTITY''"
| "error_code (RateLimited _) = ''RATE_LIMITED''"
| "error_code (ServiceUnavailable _) = ''SERVICE_UNAVAILABLE''"
| "error_code (Internal _) = ''INTERNAL_SERVER_ERROR''"
| "error_code (Database _) = ''DATABASE_ERROR''"
| "error_code (Redis _) = ''CACHE_UNAVAILABLE''"

text \<open>
  \<open>Display\<close>, derived by \<open>thiserror\<close> from the \<open>#[error(..)]\<close> attributes.  The text of a
  \<open>sqlx::Error\<close> is code of that crate: the parameter \<open>db_display\<close>.
\<close>

fun to_string :: "(db_error \<Rightarrow> str) \<Rightarrow> app_error \<Rightarrow> str" where
  "to_string _ (BadRequest m) = ''Bad request: '' @ m"
| "to_string _ (Validation _ _) = ''Validation failed''"
| "to_string _ (Unauthorized m) = ''Unauthorized: '' @ m"
| "to_string _ (Forbidden m) = ''Forbidden: '' @ m"
| "to_string _ (NotFound m) = ''Resource not found: '' @ m"
| "to_string _ (Conflict m) = ''Conflict: '' @ m"
| "to_string _ (Gone m) = ''Resource expired/gone: '' @ m"
| "to_string _ (PayloadTooLarge _) = ''Payload too large''"
| "to_string _ (Unprocessable m) = ''Unprocessable entity: '' @ m"
| "to_string _ (RateLimited _) = ''Too many requests''"
| "to_string _ (ServiceUnavailable m) = ''Service unavailable: '' @ m"
| "to_string _ (Internal m) = ''Internal server error: '' @ m"
| "to_string db_display (Database e) = ''Database error: '' @ db_display e"
| "to_string _ (Redis m) = ''Redis error: '' @ m"

record error_details =
  ed_code :: str
  ed_message :: str
  ed_request_id :: str
  ed_fields :: "((str \<times> str) list) option"

fun response_message :: "(db_error \<Rightarrow> str) \<Rightarrow> app_error \<Rightarrow> str" where
  "response_message _ (Database _) =
     ''An unexpected database error occurred. Please try again later.''"
| "response_message _ (Internal _) = ''An internal error occurred. Please try again later.''"
| "response_message _ (Validation m _) = m"
| "response_message d e = to_string d e"

fun response_fields :: "app_error \<Rightarrow> ((str \<times> str) list) option" where
  "response_fields (Validation _ fs) = Some fs"
| "response_fields _ = None"

text \<open>\<open>into_response\<close>: the status and the body; \<open>rid\<close> is the fresh request id.\<close>

definition into_response :: "(db_error \<Rightarrow> str) \<Rightarrow> str \<Rightarrow> app_error \<Rightarrow> nat \<times> error_details" where
  "into_response db_display rid e =
     (status_code e,
      \<lparr>ed_code = error_code e, ed_message = response_message db_display e,
       ed_request_id = rid, ed_fields = response_fields e\<rparr>)"

section \<open>Success envelope\<close>

record 'a api_response =
  ar_data :: 'a
  ar_request_id :: str

definition api_response_new :: "str \<Rightarrow> 'a \<Rightarrow> 'a api_response" where
  "api_response_new rid d = \<lparr>ar_data = d, ar_request_id = rid\<rparr>"

definition with_request_id :: "'a \<Rightarrow> str \<Rightarrow> 'a api_response" where
  "with_request_id d rid = \<lparr>ar_data = d, ar_request_id = rid\<rparr>"

section \<open>Properties\<close>

abbreviation error_answer :: "nat \<Rightarrow> str \<Rightarrow> str \<Rightarrow> str \<Rightarrow> ((str \<times> str) list) option \<Rightarrow> nat \<times> error_details" where
  "error_answer st code t q fs \<equiv> (st, \<lparr>ed_code = code, ed_message = t, ed_request_id = q, ed_fields = fs\<rparr>)"

text \<open>C24: The HTTP answer to every kind of error, spelled out, and what a client may conclude from it.  An answer
has one of the fourteen codes exactly when the error is of the kind of that code, and then its status, its
message and the messages of its fields are those of the table.  So the code tells the kinds apart, only a
validation error carries messages of fields, and neither the text of a database error nor that of an internal
error is ever shown, nor are the explanations of a rate limit and of a payload that is too large.\<close>

theorem error_answers:
  "(into_response f rid e = error_answer st ''BAD_REQUEST'' t q fs) =
     (st = 400 \<and> q = rid \<and> fs = None \<and> (\<exists>m. e = BadRequest m \<and> t = ''Bad request: '' @ m)) \<and>
   (into_response f rid e = error_answer st ''VALIDATION_FAILED'' t q fs) =
     (st = 400 \<and> q = rid \<and> (\<exists>vs. e = Validation t vs \<and> fs = Some vs)) \<and>
   (into_response f rid e = error_answer st ''UNAUTHORIZED'' t q fs) =
     (st = 401 \<and> q = rid \<and> fs = None \<and> (\<exists>m. e = Unauthorized m \<and> t = ''Unauthorized: '' @ m)) \<and>
   (into_response f rid e = error_answer st ''FORBIDDEN'' t q fs) =
     (st = 403 \<and> q = rid \<and> fs = None \<and> (\<exists>m. e = Forbidden m \<and> t = ''Forbidden: '' @ m)) \<and>
   (into_response f rid e = error_answer st ''NOT_FOUND'' t q fs) =
     (st = 404 \<and> q = rid \<and> fs = None \<and> (\<exists>m. e = NotFound m \<and> t = ''Resource not found: '' @ m)) \<and>
   (into_response f rid e = error_answer st ''CONFLICT'' t q fs) =
     (st = 409 \<and> q = rid \<and> fs = None \<and> (\<exists>m. e = Conflict m \<and> t = ''Conflict: '' @ m)) \<and>
   (into_response f rid e = error_answer st ''EXPIRED'' t q fs) =
     (st = 410 \<and> q = rid \<and> fs = None \<and> (\<exists>m. e = Gone m \<and> t = ''Resource expired/gone: '' @ m)) \<and>
   (into_response f rid e = error_answer st ''PAYLOAD_TOO_LARGE'' t q fs) =
     (st = 413 \<and> q = rid \<and> fs = None \<and> (\<exists>m. e = PayloadTooLarge m \<and> t = ''Payload too large'')) \<and>
   (into_response f rid e = error_answer st ''UNPROCESSABLE_ENTITY'' t q fs) =
     (st = 422 \<and> q = rid \<and> fs = None \<and> (\<exists>m. e = Unprocessable m \<and> t = ''Unprocessable entity: '' @ m)) \<and>
   (into_response f rid e = error_answer st ''RATE_LIMITED'' t q fs) =
     (st = 429 \<and> q = rid \<and> fs = None \<and> (\<exists>m. e = RateLimited m \<and> t = ''Too many requests'')) \<and>
   (into_response f rid e = error_answer st ''SERVICE_UNAVAILABLE'' t q fs) =
     (st = 503 \<and> q = rid \<and> fs = None \<and> (\<exists>m. e = ServiceUnavailable m \<and> t = ''Service unavailable: '' @ m)) \<and>
   (into_response f rid e = error_answer st ''CACHE_UNAVAILABLE'' t q fs) =
     (st = 503 \<and> q = rid \<and> fs = None \<and> (\<exists>m. e = Redis m \<and> t = ''Redis error: '' @ m)) \<and>
   (into_response f rid e = error_answer st ''INTERNAL_SERVER_ERROR'' t q fs) =
     (st = 500 \<and> q = rid \<and> fs = None \<and> (\<exists>m. e = Internal m \<and> t = ''An internal error occurred. Please try again later.'')) \<and>
   (into_response f rid e = error_answer st ''DATABASE_ERROR'' t q fs) =
     (st = 500 \<and> q = rid \<and> fs = None \<and> (\<exists>m. e = Database m \<and> t = ''An unexpected database error occurred. Please try again later.''))"
  by (cases e; simp add: into_response_def; blast)+

end
