(* ===== verification/Unicode.thy ===== *)
theory Unicode
  imports Prelude
begin

text \<open>
  Texts of any characters.  Where the model reads \<open>str\<close> a character is a code point below 256; the amounts of
  \<open>core/money.rs\<close> are modelled over all of Unicode, since the pattern of an amount and the parser of its digits do
  not agree outside ASCII.  A \<open>text\<close> is a list of Unicode scalar values, \<open>codes\<close> embeds \<open>str\<close> in it, and
  \<open>decimal nd\<close> is the class \<open>\d\<close> of the \<open>regex\<close> crate: the ten ASCII digits and, from 256 on (Latin-1 has no
  others), what its Unicode table says, which is the parameter \<open>nd\<close>.
\<close>

type_synonym "text" = "nat list"

definition codes :: "str \<Rightarrow> text" where
  "codes s = map of_char s"

definition chars :: "text \<Rightarrow> str" where
  "chars t = map char_of t"

definition ascii :: "text \<Rightarrow> bool" where
  "ascii t \<longleftrightarrow> list_all (\<lambda>c. c < 128) t"

definition decimal :: "(nat \<Rightarrow> bool) \<Rightarrow> nat \<Rightarrow> bool" where
  "decimal nd c \<longleftrightarrow> 48 \<le> c \<and> c \<le> 57 \<or> 256 \<le> c \<and> nd c"

text \<open>\<open>char::is_whitespace\<close>: the property \<open>White_Space\<close>.\<close>

definition white :: "nat \<Rightarrow> bool" where
  "white c \<longleftrightarrow> 9 \<le> c \<and> c \<le> 13 \<or> c \<in> {32, 0x85, 0xA0, 0x1680} \<or> 0x2000 \<le> c \<and> c \<le> 0x200A \<or>
     c \<in> {0x2028, 0x2029, 0x202F, 0x205F, 0x3000}"

definition trim_text :: "text \<Rightarrow> text" where
  "trim_text t = rev (dropWhile white (rev (dropWhile white t)))"

text \<open>\<open>str::len\<close> counts the bytes of UTF-8.\<close>

definition utf8_len :: "text \<Rightarrow> nat" where
  "utf8_len t = sum_list (map (\<lambda>c. if c < 0x80 then 1 else if c < 0x800 then 2 else if c < 0x10000 then 3 else 4) t)"

definition split_text :: "nat \<Rightarrow> text \<Rightarrow> (text \<times> text) option" where
  "split_text c t = (case dropWhile (\<lambda>x. x \<noteq> c) t of
     [] \<Rightarrow> None | _ # rest \<Rightarrow> Some (takeWhile (\<lambda>x. x \<noteq> c) t, rest))"

text \<open>\<open>str::parse::<i64>()\<close> knows the ASCII digits only.\<close>

definition i64_from_text :: "text \<Rightarrow> int option" where
  "i64_from_text t = (if ascii t then i64_from_str (chars t) else None)"

section \<open>Texts that are strings\<close>

lemma codes_simps [simp]: "codes [] = []" "codes (c # s) = of_char c # codes s" "codes (s @ u) = codes s @ codes u"
  "length (codes s) = length s"
  by (simp_all add: codes_def)

lemma length_chars [simp]: "length (chars t) = length t"
  by (simp add: chars_def)

lemma chars_codes [simp]: "chars (codes s) = s"
  by (simp add: chars_def codes_def comp_def)

lemma codes_inject [simp]: "codes s = codes u \<longleftrightarrow> s = u"
  by (metis chars_codes)

lemma of_char_bound: "(of_char c :: nat) < 256"
  by (cases c) (simp add: of_char_Char horner_sum_foldr split: bool.split)

lemma codes_chars: "ascii t \<Longrightarrow> codes (chars t) = t"
  by (auto simp: ascii_def list_all_iff codes_def chars_def of_char_of intro!: map_idI)

lemma ascii_simps [simp]: "ascii []" "ascii (c # t) \<longleftrightarrow> c < 128 \<and> ascii t" "ascii (t @ u) \<longleftrightarrow> ascii t \<and> ascii u"
  by (simp_all add: ascii_def)

lemma decimal_char: "decimal nd (of_char c) = is_digit c"
proof -
  have "decimal nd n \<longleftrightarrow> 48 \<le> n \<and> n \<le> 57" if "n < 256" for n
    using that by (auto simp: decimal_def)
  from this [OF of_char_bound] show ?thesis by (simp add: is_digit_def)
qed

lemma white_char: "white (of_char c) = is_space c"
proof -
  have "white n \<longleftrightarrow> (9 \<le> n \<and> n \<le> 13) \<or> n = 32 \<or> n = 133 \<or> n = 160" if "n < 256" for n
    using that by (auto simp: white_def)
  from this [OF of_char_bound] show ?thesis by (simp add: is_space_def Let_def)
qed

lemma trim_codes: "trim_text (codes s) = codes (trim s)"
  by (simp add: trim_text_def trim_def codes_def rev_map dropWhile_map comp_def white_char)

lemma split_codes: "split_text (of_char c) (codes s) = map_option (map_prod codes codes) (split_once c s)"
proof -
  have "dropWhile (\<lambda>x. x \<noteq> of_char c) (codes s) = codes (dropWhile (\<lambda>x. x \<noteq> c) s)"
    "takeWhile (\<lambda>x. x \<noteq> of_char c) (codes s) = codes (takeWhile (\<lambda>x. x \<noteq> c) s)"
    by (simp_all add: codes_def dropWhile_map takeWhile_map comp_def)
  then show ?thesis unfolding split_text_def split_once_def
    by (cases "dropWhile (\<lambda>x. x \<noteq> c) s") (simp_all del: dropWhile_eq_Nil_conv)
qed

lemma digit_codes: "list_all is_digit ds \<Longrightarrow> ascii (codes ds)"
  by (induction ds) (auto simp: is_digit_def)

lemma i64_from_codes: "i64_from_text (codes s) = i64_from_str s"
proof (cases "ascii (codes s)")
  case False
  have *: "i64_of_digits sg u = None" if "\<not> ascii (codes u)" for sg u
    using that digit_codes by (auto simp: i64_of_digits_def)
  from False have "i64_from_str s = None"
  proof (cases s)
    case (Cons c u)
    have "\<not> ascii (codes u)" if "c = CHR ''+'' \<or> c = CHR ''-''" using that False Cons by auto
    with * [of u] * [of s] False show ?thesis by (auto simp: Cons)
  qed simp
  with False show ?thesis by (simp add: i64_from_text_def)
qed (simp add: i64_from_text_def)

lemma utf8_ascii: "ascii t \<Longrightarrow> utf8_len t = length t"
  by (induction t) (auto simp: utf8_len_def)

lemma utf8_length: "length t \<le> utf8_len t"
  by (induction t) (auto simp: utf8_len_def)

lemma utf8_not_ascii: "\<not> ascii t \<Longrightarrow> length t < utf8_len t"
proof (induction t)
  case (Cons c t)
  then show ?case using utf8_length [of t] by (cases "c < 128") (auto simp: utf8_len_def)
qed simp

lemma decimal_ascii: "list_all (decimal nd) t \<Longrightarrow> ascii t \<Longrightarrow> list_all is_digit (chars t)"
  by (induction t) (auto simp: chars_def decimal_def is_digit_def of_char_of)

lemma decimal_codes: "list_all is_digit s \<Longrightarrow> list_all (decimal nd) (codes s)"
  by (induction s) (auto simp: decimal_char)

end
