(* ===== verification/Money.thy ===== *)
theory Money
  imports Errors Unicode
begin

text \<open>
  Money (\<open>src/core/money.rs\<close>): the newtype \<open>Paisa(i64)\<close>, its parser, its textual and JSON
  forms, and the pattern of a transaction PIN.  The parser is modelled over all texts of Unicode, where its
  pattern admits digits that its number parser does not know; the rest of the model calls it on \<open>str\<close>
  (code points below 256), for which it is evaluated directly.  The last sections prove the parser equal to a
  direct reading of the grammar, and show that printing and parsing are inverse.
\<close>

section \<open>Definitions\<close>

text \<open>\<open>^\d{1,14}(\.\d{1,2})?$\<close>, where \<open>\d\<close> is any decimal digit of Unicode; 46 is the point.\<close>

definition MONEY_REGEX :: "(nat \<Rightarrow> bool) \<Rightarrow> text \<Rightarrow> bool" where
  "MONEY_REGEX nd t =
     (let ds = takeWhile (decimal nd) t; rest = dropWhile (decimal nd) t in
      1 \<le> length ds \<and> length ds \<le> 14 \<and>
      (case rest of [] \<Rightarrow> True
       | c # fs \<Rightarrow> c = 46 \<and> list_all (decimal nd) fs \<and> 1 \<le> length fs \<and> length fs \<le> 2))"

text \<open>\<open>^\d{4,6}$\<close>, on the characters of \<open>str\<close>, whose only decimal digits are those of ASCII.\<close>

definition PIN_REGEX :: "str \<Rightarrow> bool" where
  "PIN_REGEX s \<longleftrightarrow> list_all is_digit s \<and> 4 \<le> length s \<and> length s \<le> 6"

definition MAX_PAISA_AMOUNT :: int where "MAX_PAISA_AMOUNT = 10000000000"

datatype paisa = Paisa (as_paisa: int)

instantiation paisa :: linorder
begin

fun less_eq_paisa :: "paisa \<Rightarrow> paisa \<Rightarrow> bool" where
  "less_eq_paisa (Paisa a) (Paisa b) = (a \<le> b)"

fun less_paisa :: "paisa \<Rightarrow> paisa \<Rightarrow> bool" where
  "less_paisa (Paisa a) (Paisa b) = (a < b)"

instance
proof
  fix x y z :: paisa
  show "(x < y) = (x \<le> y \<and> \<not> y \<le> x)" by (cases x; cases y) auto
  show "x \<le> x" by (cases x) auto
  show "x \<le> y \<Longrightarrow> y \<le> z \<Longrightarrow> x \<le> z" by (cases x; cases y; cases z) auto
  show "x \<le> y \<Longrightarrow> y \<le> x \<Longrightarrow> x = y" by (cases x; cases y) auto
  show "x \<le> y \<or> y \<le> x" by (cases x; cases y) auto
qed

end

datatype money_parse_error =
  InvalidFormat | TooManyDecimalPlaces | NonPositive | Overflow | ExceedsMaxCap

fun money_error_text :: "money_parse_error \<Rightarrow> str" where
  "money_error_text InvalidFormat =
     ''invalid money format: must be decimal string matching ^'' @ [CHR 92] @
     ''d{1,14}('' @ [CHR 92] @ ''.'' @ [CHR 92] @ ''d{1,2})?$''"
| "money_error_text TooManyDecimalPlaces = ''money value cannot have more than 2 decimal places''"
| "money_error_text NonPositive = ''money value must be strictly positive''"
| "money_error_text Overflow = ''money value overflows maximum supported limit''"
| "money_error_text ExceedsMaxCap = ''money value exceeds maximum allowable cap''"

text \<open>The poisha part: one byte is padded with a zero, two are taken as they are.\<close>

definition parse_poisha :: "text \<Rightarrow> money_parse_error + int" where
  "parse_poisha p =
     (if utf8_len p = 1 then ok_or (i64_from_text (p @ [48])) InvalidFormat
      else if utf8_len p = 2 then ok_or (i64_from_text p) InvalidFormat
      else Inl TooManyDecimalPlaces)"

definition parse_paisa_val :: "text \<Rightarrow> money_parse_error + int" where
  "parse_paisa_val trimmed =
     (case split_text 46 trimmed of
        Some (taka_part, poisha_part) \<Rightarrow>
          (case ok_or (i64_from_text taka_part) Overflow of
             Inl e \<Rightarrow> Inl e
           | Inr taka \<Rightarrow>
               (case parse_poisha poisha_part of
                  Inl e \<Rightarrow> Inl e
                | Inr poisha \<Rightarrow>
                    ok_or (Option.bind (i64_checked_mul taka 100)
                             (\<lambda>v. i64_checked_add v poisha)) Overflow))
      | None \<Rightarrow> ok_or (i64_from_text trimmed) Overflow)"

definition parse_from_text :: "(nat \<Rightarrow> bool) \<Rightarrow> text \<Rightarrow> money_parse_error + paisa" where
  "parse_from_text nd s =
     (let trimmed = trim_text s in
      if \<not> MONEY_REGEX nd trimmed then Inl InvalidFormat
      else case parse_paisa_val trimmed of
        Inl e \<Rightarrow> Inl e
      | Inr paisa_val \<Rightarrow>
          if paisa_val > MAX_PAISA_AMOUNT then Inl ExceedsMaxCap else Inr (Paisa paisa_val))"

text \<open>On \<open>str\<close> the table of the digits beyond Latin-1 plays no part (\<open>parse_from_str_text\<close> below).\<close>

definition parse_from_str :: "str \<Rightarrow> money_parse_error + paisa" where
  "parse_from_str s = parse_from_text (\<lambda>_. False) (codes s)"

definition parse_positive_from_str :: "str \<Rightarrow> money_parse_error + paisa" where
  "parse_positive_from_str s =
     (case parse_from_str s of
        Inl e \<Rightarrow> Inl e
      | Inr money \<Rightarrow> if as_paisa money \<le> 0 then Inl NonPositive else Inr money)"

definition paisa_checked_add :: "paisa \<Rightarrow> paisa \<Rightarrow> paisa option" where
  "paisa_checked_add a b = map_option Paisa (i64_checked_add (as_paisa a) (as_paisa b))"

definition paisa_checked_sub :: "paisa \<Rightarrow> paisa \<Rightarrow> paisa option" where
  "paisa_checked_sub a b = map_option Paisa (i64_checked_sub (as_paisa a) (as_paisa b))"

text \<open>\<open>Display\<close>, and the string that \<open>Serialize\<close> writes and \<open>visit_str\<close> reads.\<close>

definition paisa_display :: "paisa \<Rightarrow> str" where
  "paisa_display p = show_int (as_paisa p)"

definition paisa_serialize :: "paisa \<Rightarrow> str" where
  "paisa_serialize p = show_int (as_paisa p)"

definition paisa_visit_str :: "str \<Rightarrow> str + paisa" where
  "paisa_visit_str s = map_err money_error_text (parse_from_str s)"

section \<open>The parser on strings\<close>

text \<open>What the parser computes on \<open>str\<close>, over characters; the code equation evaluates it so.\<close>

definition str_money :: "str \<Rightarrow> bool" where
  "str_money s =
     (let ds = takeWhile is_digit s; rest = dropWhile is_digit s in
      1 \<le> length ds \<and> length ds \<le> 14 \<and>
      (case rest of [] \<Rightarrow> True
       | c # fs \<Rightarrow> c = CHR ''.'' \<and> list_all is_digit fs \<and> 1 \<le> length fs \<and> length fs \<le> 2))"

definition str_poisha :: "str \<Rightarrow> money_parse_error + int" where
  "str_poisha p =
     (if length p = 1 then ok_or (i64_from_str (p @ ''0'')) InvalidFormat
      else if length p = 2 then ok_or (i64_from_str p) InvalidFormat
      else Inl TooManyDecimalPlaces)"

definition str_paisa_val :: "str \<Rightarrow> money_parse_error + int" where
  "str_paisa_val trimmed =
     (case split_once (CHR ''.'') trimmed of
        Some (taka_part, poisha_part) \<Rightarrow>
          (case ok_or (i64_from_str taka_part) Overflow of
             Inl e \<Rightarrow> Inl e
           | Inr taka \<Rightarrow>
               (case str_poisha poisha_part of
                  Inl e \<Rightarrow> Inl e
                | Inr poisha \<Rightarrow>
                    ok_or (Option.bind (i64_checked_mul taka 100)
                             (\<lambda>v. i64_checked_add v poisha)) Overflow))
      | None \<Rightarrow> ok_or (i64_from_str trimmed) Overflow)"

lemma dot_code: "of_char (CHR ''.'') = (46 :: nat)" "of_char c = (46 :: nat) \<longleftrightarrow> c = CHR ''.''"
proof -
  show dot: "of_char (CHR ''.'') = (46 :: nat)" by simp
  show "of_char c = (46 :: nat) \<longleftrightarrow> c = CHR ''.''"
    using of_char_eq_iff [of c "CHR ''.''", where 'a = nat] unfolding dot .
qed

lemma MONEY_REGEX_codes: "MONEY_REGEX nd (codes s) = str_money s"
proof -
  have d: "takeWhile (decimal nd) (codes s) = codes (takeWhile is_digit s)"
    "dropWhile (decimal nd) (codes s) = codes (dropWhile is_digit s)"
    by (simp_all add: codes_def dropWhile_map takeWhile_map comp_def decimal_char)
  have "list_all (decimal nd) (codes fs) = list_all is_digit fs" for fs
    by (simp add: codes_def list_all_iff decimal_char)
  then show ?thesis unfolding MONEY_REGEX_def str_money_def d Let_def
    by (cases "dropWhile is_digit s") (simp_all add: dot_code del: dropWhile_eq_Nil_conv)
qed

lemma poisha_codes:
  assumes "list_all is_digit p"
  shows "parse_poisha (codes p) = str_poisha p"
proof -
  have "codes p @ [48] = codes (p @ ''0'')" by simp
  then show ?thesis
    unfolding parse_poisha_def str_poisha_def by (simp add: utf8_ascii digit_codes [OF assms] i64_from_codes del: codes_simps(3))
qed

section \<open>The grammar read directly\<close>

text \<open>
  \<open>money_grammar ds fs\<close>: the digits before the point and, if there is one, those after it.
  Without a point the number counts paisa; with one it counts taka, that is, hundreds of paisa.
\<close>

definition money_grammar :: "str \<Rightarrow> str option \<Rightarrow> bool" where
  "money_grammar ds fs \<longleftrightarrow> list_all is_digit ds \<and> 1 \<le> length ds \<and> length ds \<le> 14 \<and>
     (case fs of None \<Rightarrow> True | Some f \<Rightarrow> list_all is_digit f \<and> 1 \<le> length f \<and> length f \<le> 2)"

definition money_text :: "str \<Rightarrow> str option \<Rightarrow> str" where
  "money_text ds fs = (case fs of None \<Rightarrow> ds | Some f \<Rightarrow> ds @ CHR ''.'' # f)"

definition money_value :: "str \<Rightarrow> str option \<Rightarrow> int" where
  "money_value ds fs = (case fs of None \<Rightarrow> digits_val ds
     | Some f \<Rightarrow> 100 * digits_val ds + (if length f = 1 then 10 else 1) * digits_val f)"

section \<open>Proofs\<close>

lemma digits_no_dot: "list_all is_digit ds \<Longrightarrow> \<forall>c \<in> set ds. c \<noteq> CHR ''.''"
  by (auto simp: list_all_iff is_digit_not)

lemma is_digit_dot [simp]: "\<not> is_digit (CHR ''.'')" "is_digit (CHR ''0'')"
  by (simp_all add: is_digit_def)

lemma str_money_iff: "str_money s \<longleftrightarrow> (\<exists>ds fs. money_grammar ds fs \<and> s = money_text ds fs)"
proof
  assume m: "str_money s"
  let ?ds = "takeWhile is_digit s" and ?rest = "dropWhile is_digit s"
  have s: "s = ?ds @ ?rest" by simp
  have ds: "list_all is_digit ?ds" by (auto simp: list_all_iff dest: set_takeWhileD)
  show "\<exists>ds fs. money_grammar ds fs \<and> s = money_text ds fs"
  proof (cases ?rest)
    case Nil
    with m s ds have "money_grammar ?ds None \<and> s = money_text ?ds None"
      by (simp add: str_money_def money_grammar_def money_text_def Let_def)
    then show ?thesis by blast
  next
    case (Cons c fs)
    with m s ds have "money_grammar ?ds (Some fs) \<and> s = money_text ?ds (Some fs)"
      by (simp add: str_money_def money_grammar_def money_text_def Let_def)
    then show ?thesis by blast
  qed
next
  assume "\<exists>ds fs. money_grammar ds fs \<and> s = money_text ds fs"
  then obtain ds fs where g: "money_grammar ds fs" and s: "s = money_text ds fs" by blast
  then have "takeWhile is_digit s = ds \<and> dropWhile is_digit s = (case fs of None \<Rightarrow> [] | Some f \<Rightarrow> CHR ''.'' # f)"
    by (auto simp: money_grammar_def money_text_def list_all_iff takeWhile_append dropWhile_append
             split: option.splits)
  with g show "str_money s"
    by (auto simp: str_money_def money_grammar_def Let_def split: option.splits)
qed

lemma split_once_money:
  assumes "money_grammar ds fs"
  shows "split_once (CHR ''.'') (money_text ds fs) = map_option (\<lambda>f. (ds, f)) fs"
proof -
  have "\<forall>c \<in> set ds. c \<noteq> CHR ''.''"
    using assms digits_no_dot [of ds] by (simp add: money_grammar_def)
  then have "takeWhile (\<lambda>x. x \<noteq> CHR ''.'') (ds @ r) = ds @ takeWhile (\<lambda>x. x \<noteq> CHR ''.'') r"
    "dropWhile (\<lambda>x. x \<noteq> CHR ''.'') (ds @ r) = dropWhile (\<lambda>x. x \<noteq> CHR ''.'') r" for r
    by (auto simp: takeWhile_append dropWhile_append)
  note * = this
  show ?thesis
    using * [of "[]"] by (cases fs) (simp_all add: split_once_def money_text_def * del: dropWhile_eq_Nil_conv)
qed

lemma str_poisha_value:
  assumes "list_all is_digit f" "1 \<le> length f" "length f \<le> 2"
  shows "str_poisha f = Inr ((if length f = 1 then 10 else 1) * digits_val f)"
    and "0 \<le> digits_val f" and "(if length f = 1 then 10 else 1) * digits_val f < 100"
proof -
  have ne: "f \<noteq> []" using assms(2) by auto
  have 1: "i64_from_str f = Some (digits_val f)"
    using assms ne by (simp add: i64_from_str_digits_value)
  have 2: "i64_from_str (f @ ''0'') = Some (10 * digits_val f)"
    using assms i64_from_str_digits_value [of "f @ ''0''"] by (simp add: digit_val_def)
  show "str_poisha f = Inr ((if length f = 1 then 10 else 1) * digits_val f)"
    using assms(2,3) 1 2 by (auto simp: str_poisha_def)
  show "0 \<le> digits_val f" using assms(1) digits_val_bounds by blast
  show "(if length f = 1 then 10 else 1) * digits_val f < 100"
    using digits_val_bounds [OF assms(1)] assms(2,3)
    by (cases "length f = 1") (auto simp: le_Suc_eq numeral_2_eq_2)
qed

lemma str_paisa_val_value:
  assumes "money_grammar ds fs"
  shows "str_paisa_val (money_text ds fs) = Inr (money_value ds fs)"
proof -
  from assms have ds: "list_all is_digit ds" "ds \<noteq> []" "length ds \<le> 14"
    by (auto simp: money_grammar_def)
  then have i: "i64_from_str ds = Some (digits_val ds)"
    by (simp add: i64_from_str_digits_value)
  have b: "0 \<le> digits_val ds" "digits_val ds < 10 ^ 14"
    using digits_val_bounds digits_val_bound_le ds by blast+
  show ?thesis
  proof (cases fs)
    case None
    with assms i show ?thesis
      using split_once_money [OF assms]
      by (simp add: str_paisa_val_def money_value_def money_text_def)
  next
    case (Some f)
    then have f: "list_all is_digit f" "1 \<le> length f" "length f \<le> 2"
      using assms by (auto simp: money_grammar_def)
    note p = str_poisha_value [OF f]
    let ?p = "(if length f = 1 then 10 else 1) * digits_val f"
    have "0 \<le> ?p" using p(2) by simp
    then have "in_i64 (digits_val ds * 100)" "in_i64 (digits_val ds * 100 + ?p)"
      using b p(3) by (simp_all only: in_i64_def i64_min_def i64_max_def) simp_all
    then show ?thesis
      using split_once_money [OF assms] Some i p(1)
      by (simp add: str_paisa_val_def money_value_def i64_checked_mul_def i64_checked_add_def
               mult.commute)
  qed
qed

lemma paisa_val_codes:
  assumes "str_money s"
  shows "parse_paisa_val (codes s) = str_paisa_val s"
proof -
  from assms obtain ds fs where g: "money_grammar ds fs" "s = money_text ds fs" by (auto simp: str_money_iff)
  have "split_text 46 (codes s) = map_option (map_prod codes codes) (split_once (CHR ''.'') s)"
    using split_codes [of "CHR ''.''" s] by (simp add: dot_code)
  then show ?thesis
    using g split_once_money [OF g(1)] poisha_codes
    by (cases fs) (auto simp: parse_paisa_val_def str_paisa_val_def i64_from_codes money_grammar_def cong: sum.case_cong)
qed

lemma parse_from_text_codes:
  "parse_from_text nd (codes s) =
     (let trimmed = trim s in
      if \<not> str_money trimmed then Inl InvalidFormat
      else case str_paisa_val trimmed of
        Inl e \<Rightarrow> Inl e
      | Inr paisa_val \<Rightarrow>
          if paisa_val > MAX_PAISA_AMOUNT then Inl ExceedsMaxCap else Inr (Paisa paisa_val))"
  unfolding parse_from_text_def Let_def trim_codes MONEY_REGEX_codes by (simp add: paisa_val_codes)

lemmas parse_from_str_code [code] = parse_from_text_codes [of "\<lambda>_. False", folded parse_from_str_def]

lemma parse_from_str_text: "parse_from_text nd (codes s) = parse_from_str s"
  by (simp add: parse_from_text_codes parse_from_str_code)

lemma parse_from_str_grammar:
  assumes "money_grammar ds fs" "trim s = money_text ds fs"
  shows "parse_from_str s =
     (if money_value ds fs > MAX_PAISA_AMOUNT then Inl ExceedsMaxCap
      else Inr (Paisa (money_value ds fs)))"
  using assms str_paisa_val_value [OF assms(1)] str_money_iff
  by (auto simp: parse_from_str_code Let_def)

text \<open>The parser computes the value that the grammar assigns; the cap is its only other guard.\<close>

lemma parse_from_str_Inr_iff:
  "parse_from_str s = Inr p \<longleftrightarrow>
     (\<exists>ds fs. money_grammar ds fs \<and> trim s = money_text ds fs \<and>
        money_value ds fs \<le> MAX_PAISA_AMOUNT \<and> p = Paisa (money_value ds fs))"
proof
  assume p: "parse_from_str s = Inr p"
  then have "str_money (trim s)" by (simp add: parse_from_str_code Let_def split: if_splits)
  then obtain ds fs where g: "money_grammar ds fs" "trim s = money_text ds fs"
    by (auto simp: str_money_iff)
  with p parse_from_str_grammar [OF g] show "\<exists>ds fs. money_grammar ds fs \<and>
      trim s = money_text ds fs \<and> money_value ds fs \<le> MAX_PAISA_AMOUNT \<and>
      p = Paisa (money_value ds fs)"
    by (intro exI [of _ ds] exI [of _ fs]) (simp split: if_splits)
qed (auto simp: parse_from_str_grammar)

lemma parse_from_str_Inl_iff:
  "parse_from_str s = Inl e \<longleftrightarrow>
     (e = InvalidFormat \<and> \<not> (\<exists>ds fs. money_grammar ds fs \<and> trim s = money_text ds fs)) \<or>
     (e = ExceedsMaxCap \<and> (\<exists>ds fs. money_grammar ds fs \<and> trim s = money_text ds fs \<and>
        money_value ds fs > MAX_PAISA_AMOUNT))"
proof (cases "str_money (trim s)")
  case True
  then obtain ds fs where g: "money_grammar ds fs" "trim s = money_text ds fs"
    by (auto simp: str_money_iff)
  have "money_value ds' fs' = money_value ds fs"
    if "money_grammar ds' fs'" "trim s = money_text ds' fs'" for ds' fs'
    using str_paisa_val_value [OF that(1)] str_paisa_val_value [OF g(1)] that g by simp
  then have "(\<exists>ds fs. money_grammar ds fs \<and> trim s = money_text ds fs \<and>
      money_value ds fs > MAX_PAISA_AMOUNT) \<longleftrightarrow> money_value ds fs > MAX_PAISA_AMOUNT"
    using g by metis
  moreover have "\<exists>ds fs. money_grammar ds fs \<and> trim s = money_text ds fs" using g by blast
  ultimately show ?thesis using parse_from_str_grammar [OF g] by (simp add: eq_commute [of ExceedsMaxCap])
next
  case False
  then have "\<not> (\<exists>ds fs. money_grammar ds fs \<and> trim s = money_text ds fs)"
    and "parse_from_str s = Inl InvalidFormat"
    using str_money_iff [of "trim s"] by (simp_all add: parse_from_str_code Let_def)
  then show ?thesis by auto
qed

lemma money_value_nonneg: "money_grammar ds fs \<Longrightarrow> 0 \<le> money_value ds fs"
  using digits_val_bounds by (auto simp: money_grammar_def money_value_def split: option.splits)

lemma parse_from_str_bounds:
  assumes "parse_from_str s = Inr p"
  shows "0 \<le> as_paisa p \<and> as_paisa p \<le> MAX_PAISA_AMOUNT"
proof -
  have "str_money (trim s)" using assms by (simp add: parse_from_str_code Let_def split: if_splits)
  then obtain ds fs where g: "money_grammar ds fs" "trim s = money_text ds fs"
    by (auto simp: str_money_iff)
  then show ?thesis
    using assms parse_from_str_grammar [OF g] money_value_nonneg [OF g(1)] by (auto split: if_splits)
qed

lemma parse_positive_bounds:
  assumes "parse_positive_from_str s = Inr p"
  shows "0 < as_paisa p" and "as_paisa p \<le> MAX_PAISA_AMOUNT"
proof -
  from assms have 1: "parse_from_str s = Inr p" and 2: "0 < as_paisa p"
    by (auto simp: parse_positive_from_str_def split: sum.splits if_splits)
  from 2 show "0 < as_paisa p" .
  from parse_from_str_bounds [OF 1] show "as_paisa p \<le> MAX_PAISA_AMOUNT" by simp
qed

lemma parse_show_roundtrip:
  assumes "0 \<le> v" "v \<le> MAX_PAISA_AMOUNT"
  shows "parse_from_str (show_int v) = Inr (Paisa v)"
proof -
  have "length (show_nat (nat v)) \<le> 14"
    by (rule length_show_nat) (use assms in \<open>simp_all add: MAX_PAISA_AMOUNT_def\<close>)
  moreover have "1 \<le> length (show_nat (nat v))"
    by (simp add: Suc_leI)
  ultimately have g: "money_grammar (show_nat (nat v)) None"
    by (simp add: money_grammar_def show_nat_digits)
  have "trim (show_int v) = show_nat (nat v)"
    using assms(1) show_nat_digits [of "nat v"]
    by (simp add: show_int_nonneg trim_id list_all_iff is_digit_not)
  with parse_from_str_grammar [OF g, of "show_int v"] assms show ?thesis
    by (simp add: money_text_def money_value_def)
qed

section \<open>What the parser promises\<close>

text \<open>
  What the pattern admits: digits of any script before the point and after it.
\<close>

definition amount_form :: "(nat \<Rightarrow> bool) \<Rightarrow> text \<Rightarrow> text option \<Rightarrow> bool" where
  "amount_form nd ds fs \<longleftrightarrow> list_all (decimal nd) ds \<and> 1 \<le> length ds \<and> length ds \<le> 14 \<and>
     (case fs of None \<Rightarrow> True | Some f \<Rightarrow> list_all (decimal nd) f \<and> 1 \<le> length f \<and> length f \<le> 2)"

definition form_text :: "text \<Rightarrow> text option \<Rightarrow> text" where
  "form_text ds fs = (case fs of None \<Rightarrow> ds | Some f \<Rightarrow> ds @ 46 # f)"

lemma decimal_dot [simp]: "\<not> decimal nd 46"
  by (simp add: decimal_def)

lemma form_parts:
  assumes "amount_form nd ds fs"
  shows "takeWhile (decimal nd) (form_text ds fs) = ds" "split_text 46 (form_text ds fs) = map_option (Pair ds) fs"
    "dropWhile (decimal nd) (form_text ds fs) = (case fs of None \<Rightarrow> [] | Some f \<Rightarrow> 46 # f)"
proof -
  have "\<forall>c \<in> set ds. decimal nd c" "\<forall>c \<in> set ds. c \<noteq> 46"
    using assms decimal_dot by (auto simp: amount_form_def list_all_iff)
  then have "takeWhile (decimal nd) (ds @ r) = ds @ takeWhile (decimal nd) r"
    "dropWhile (decimal nd) (ds @ r) = dropWhile (decimal nd) r"
    "takeWhile (\<lambda>x. x \<noteq> 46) (ds @ r) = ds @ takeWhile (\<lambda>x. x \<noteq> 46) r"
    "dropWhile (\<lambda>x. x \<noteq> 46) (ds @ r) = dropWhile (\<lambda>x. x \<noteq> 46) r" for r
    by (auto simp: takeWhile_append dropWhile_append)
  note this [of "[]"] this
  then show "takeWhile (decimal nd) (form_text ds fs) = ds" "split_text 46 (form_text ds fs) = map_option (Pair ds) fs"
    "dropWhile (decimal nd) (form_text ds fs) = (case fs of None \<Rightarrow> [] | Some f \<Rightarrow> 46 # f)"
    by (cases fs; simp add: form_text_def split_text_def del: dropWhile_eq_Nil_conv)+
qed

lemma MONEY_REGEX_iff: "MONEY_REGEX nd t \<longleftrightarrow> (\<exists>ds fs. amount_form nd ds fs \<and> t = form_text ds fs)"
proof
  assume m: "MONEY_REGEX nd t"
  let ?ds = "takeWhile (decimal nd) t" and ?rest = "dropWhile (decimal nd) t"
  have s: "t = ?ds @ ?rest" by simp
  have ds: "list_all (decimal nd) ?ds" by (auto simp: list_all_iff dest: set_takeWhileD)
  show "\<exists>ds fs. amount_form nd ds fs \<and> t = form_text ds fs"
  proof (cases ?rest)
    case Nil
    with m s ds have "amount_form nd ?ds None \<and> t = form_text ?ds None"
      by (simp add: MONEY_REGEX_def amount_form_def form_text_def Let_def)
    then show ?thesis by blast
  next
    case (Cons c fs)
    with m s ds have "amount_form nd ?ds (Some fs) \<and> t = form_text ?ds (Some fs)"
      by (simp add: MONEY_REGEX_def amount_form_def form_text_def Let_def)
    then show ?thesis by blast
  qed
next
  assume "\<exists>ds fs. amount_form nd ds fs \<and> t = form_text ds fs"
  then obtain ds fs where f: "amount_form nd ds fs" and t: "t = form_text ds fs" by blast
  show "MONEY_REGEX nd t"
    unfolding MONEY_REGEX_def t form_parts [OF f] Let_def using f
    by (auto simp: amount_form_def split: option.splits)
qed

text \<open>The forms of ASCII digits are those of the grammar.\<close>

lemma ascii_form:
  "amount_form nd ds fs \<and> ascii (form_text ds fs) \<Longrightarrow>
     money_grammar (chars ds) (map_option chars fs) \<and> form_text ds fs = codes (money_text (chars ds) (map_option chars fs))"
  by (cases fs)
    (auto simp: amount_form_def money_grammar_def form_text_def money_text_def decimal_ascii codes_chars length_chars)

lemma grammar_form:
  assumes "money_grammar ds fs"
  shows "amount_form nd (codes ds) (map_option codes fs)" "codes (money_text ds fs) = form_text (codes ds) (map_option codes fs)"
    "ascii (codes ds)"
  using assms by (auto simp: money_grammar_def amount_form_def form_text_def money_text_def decimal_codes digit_codes
      split: option.splits)

lemma ascii_form_text: "ascii (form_text ds fs) \<longleftrightarrow> ascii ds \<and> (fs = None \<or> ascii (the fs))"
  by (cases fs) (simp_all add: form_text_def)

text \<open>The fractions that are not ASCII: a single digit of two bytes passes for two digits.\<close>

lemma poisha_not_ascii:
  assumes "\<not> ascii f" "length f \<le> 2"
  shows "parse_poisha f = Inl (if utf8_len f = 2 then InvalidFormat else TooManyDecimalPlaces)"
proof -
  have "f \<noteq> []" using assms(1) by auto
  then have "1 < utf8_len f" using utf8_not_ascii [OF assms(1)] by (cases f) auto
  then show ?thesis using assms(1) by (simp add: parse_poisha_def i64_from_text_def)
qed

lemma parse_grammar:
  assumes "money_grammar ds fs" "trim_text s = codes (money_text ds fs)"
  shows "parse_from_text nd s =
     (if money_value ds fs > MAX_PAISA_AMOUNT then Inl ExceedsMaxCap else Inr (Paisa (money_value ds fs)))"
proof -
  have m: "str_money (money_text ds fs)" using assms(1) by (auto simp: str_money_iff)
  then have "parse_paisa_val (trim_text s) = Inr (money_value ds fs)"
    by (simp add: assms(2) paisa_val_codes str_paisa_val_value [OF assms(1)])
  then show ?thesis using m by (simp add: parse_from_text_def Let_def assms(2) MONEY_REGEX_codes)
qed

lemma parse_not_ascii:
  assumes "amount_form nd ds fs" "trim_text s = form_text ds fs" "\<not> ascii (form_text ds fs)"
  shows "parse_from_text nd s = Inl (if \<not> ascii ds then Overflow
      else if utf8_len (the fs) = 2 then InvalidFormat else TooManyDecimalPlaces)"
proof -
  have "\<exists>v. i64_from_text ds = Some v" if "ascii ds"
  proof -
    have "list_all is_digit (chars ds)" "chars ds \<noteq> []" "length (chars ds) \<le> 14"
      using assms(1) decimal_ascii [OF _ that] by (auto simp: amount_form_def chars_def)
    with that show ?thesis by (simp add: i64_from_text_def i64_from_str_digits_value)
  qed
  moreover have "parse_paisa_val (trim_text s) = (case fs of
      Some f \<Rightarrow> (case ok_or (i64_from_text ds) Overflow of Inl e \<Rightarrow> Inl e
        | Inr taka \<Rightarrow> (case parse_poisha f of Inl e \<Rightarrow> Inl e
           | Inr poisha \<Rightarrow> ok_or (Option.bind (i64_checked_mul taka 100) (\<lambda>v. i64_checked_add v poisha)) Overflow))
    | None \<Rightarrow> ok_or (i64_from_text ds) Overflow)"
    unfolding parse_paisa_val_def assms(2) form_parts(2) [OF assms(1)]
    by (cases fs) (simp_all add: form_text_def)
  moreover have "parse_poisha f = Inl (if utf8_len f = 2 then InvalidFormat else TooManyDecimalPlaces)"
    if "fs = Some f" "ascii ds" for f
    using that assms(1,3) by (intro poisha_not_ascii) (auto simp: amount_form_def form_text_def)
  moreover have "i64_from_text ds = None" if "\<not> ascii ds" using that by (simp add: i64_from_text_def)
  ultimately have "parse_paisa_val (trim_text s) = Inl (if \<not> ascii ds then Overflow
      else if utf8_len (the fs) = 2 then InvalidFormat else TooManyDecimalPlaces)"
    using assms(3) by (cases "ascii ds"; cases fs) (auto simp: form_text_def)
  moreover have "MONEY_REGEX nd (trim_text s)" using assms(1,2) by (auto simp: MONEY_REGEX_iff)
  ultimately show ?thesis by (simp add: parse_from_text_def Let_def)
qed

lemma form_unique:
  assumes "amount_form nd ds fs" "amount_form nd ds' fs'" "form_text ds fs = form_text ds' fs'"
  shows "ds' = ds" "fs' = fs"
  using form_parts(1,2) [OF assms(1)] form_parts(1,2) [OF assms(2)] assms(3)
  by (auto simp: map_option_case split: option.splits)

lemma form_ex:
  assumes "amount_form nd ds fs" "t = form_text ds fs"
  shows "(\<exists>ds' fs'. amount_form nd ds' fs' \<and> t = form_text ds' fs' \<and> Q ds' fs') = Q ds fs"
  using assms(1) form_unique [OF assms(1)] unfolding assms(2) by blast

lemma grammar_ex:
  assumes "amount_form nd ds fs" "t = form_text ds fs"
  shows "(\<exists>ds' fs'. money_grammar ds' fs' \<and> t = codes (money_text ds' fs') \<and> Q ds' fs') =
    (ascii t \<and> Q (chars ds) (map_option chars fs))"
proof
  assume "\<exists>ds' fs'. money_grammar ds' fs' \<and> t = codes (money_text ds' fs') \<and> Q ds' fs'"
  then obtain ds' fs' where g: "money_grammar ds' fs'" "t = codes (money_text ds' fs')" "Q ds' fs'" by blast
  note f = grammar_form(1) [OF g(1), where nd = nd] grammar_form(2) [OF g(1)]
  have "ds = codes ds'" "fs = map_option codes fs'"
    using form_unique [OF f(1) assms(1)] f(2) g(2) assms(2) by simp_all
  moreover have "ascii t" using g(1,2) by (auto simp: money_grammar_def money_text_def digit_codes split: option.splits)
  ultimately show "ascii t \<and> Q (chars ds) (map_option chars fs)" using g(3) by (simp add: option.map_comp comp_def option.map_ident)
next
  assume "ascii t \<and> Q (chars ds) (map_option chars fs)"
  with ascii_form [of nd ds fs] assms
  show "\<exists>ds' fs'. money_grammar ds' fs' \<and> t = codes (money_text ds' fs') \<and> Q ds' fs'" by auto
qed

lemma fraction_ex:
  assumes "amount_form nd ds fs" "t = form_text ds fs"
  shows "(\<exists>ds' c. amount_form nd ds' (Some [c]) \<and> t = form_text ds' (Some [c]) \<and> ascii ds' \<and> utf8_len [c] = 2) =
      (ascii ds \<and> (\<exists>c. fs = Some [c] \<and> utf8_len [c] = 2))"
    "(\<exists>ds' f. amount_form nd ds' (Some f) \<and> t = form_text ds' (Some f) \<and> ascii ds' \<and> 2 < utf8_len f) =
      (ascii ds \<and> (\<exists>f. fs = Some f \<and> 2 < utf8_len f))"
  using assms(1) form_unique [OF assms(1)] unfolding assms(2) by blast+

lemma fraction_length:
  assumes "amount_form nd ds (Some f)" "\<not> ascii f"
  shows "(\<exists>c. f = [c] \<and> utf8_len [c] = 2) = (utf8_len f = 2)" "2 < utf8_len f \<or> utf8_len f = 2"
proof -
  from assms(1) obtain c d where "f = [c] \<or> f = [c, d]"
    by (auto simp: amount_form_def le_Suc_eq numeral_2_eq_2 length_Suc_conv)
  with utf8_not_ascii [OF assms(2)] show "(\<exists>c. f = [c] \<and> utf8_len [c] = 2) = (utf8_len f = 2)" "2 < utf8_len f \<or> utf8_len f = 2"
    by auto
qed

text \<open>C22: The parser of amounts, on every text of Unicode.  It accepts a text if and only if, trimmed, it is up
to 14 ASCII digits with an optional point and one or two more, and its value is within the cap; the value is then
the one the grammar assigns.  Every other text is refused, with the error told here: over the cap; malformed, that
is, not of the form of the pattern at all; or of its form, but with digits that are not ASCII, which is an overflow
before the point, and after it too many decimal places, or malformed for a single digit of two bytes.  What the rest
of the model calls on strings is this parser.\<close>

theorem parse_from_str_exact:
  "(parse_from_text nd s = Inr p) =
     (\<exists>ds fs. money_grammar ds fs \<and> trim_text s = codes (money_text ds fs) \<and>
        money_value ds fs \<le> MAX_PAISA_AMOUNT \<and> p = Paisa (money_value ds fs)) \<and>
   (parse_from_text nd s = Inl ExceedsMaxCap) =
     (\<exists>ds fs. money_grammar ds fs \<and> trim_text s = codes (money_text ds fs) \<and>
        money_value ds fs > MAX_PAISA_AMOUNT) \<and>
   (parse_from_text nd s = Inl InvalidFormat) =
     ((\<nexists>ds fs. amount_form nd ds fs \<and> trim_text s = form_text ds fs) \<or>
      (\<exists>ds c. amount_form nd ds (Some [c]) \<and> trim_text s = form_text ds (Some [c]) \<and> ascii ds \<and> utf8_len [c] = 2)) \<and>
   (parse_from_text nd s = Inl Overflow) =
     (\<exists>ds fs. amount_form nd ds fs \<and> trim_text s = form_text ds fs \<and> \<not> ascii ds) \<and>
   (parse_from_text nd s = Inl TooManyDecimalPlaces) =
     (\<exists>ds f. amount_form nd ds (Some f) \<and> trim_text s = form_text ds (Some f) \<and> ascii ds \<and> 2 < utf8_len f) \<and>
   parse_from_text nd s \<noteq> Inl NonPositive \<and>
   parse_from_text nd (codes u) = parse_from_str u"
proof (cases "\<exists>ds fs. amount_form nd ds fs \<and> trim_text s = form_text ds fs")
  case False
  then have "\<nexists>ds fs. money_grammar ds fs \<and> trim_text s = codes (money_text ds fs)"
    using grammar_form by metis
  moreover have "parse_from_text nd s = Inl InvalidFormat"
    using False MONEY_REGEX_iff [of nd "trim_text s"] by (simp add: parse_from_text_def Let_def)
  ultimately show ?thesis using False by (auto simp: parse_from_str_text)
next
  case True
  then obtain ds fs where f: "amount_form nd ds fs" and t: "trim_text s = form_text ds fs" by blast
  note ex = form_ex [OF f t] grammar_ex [OF f t] fraction_ex [OF f t]
  have form: "(\<exists>ds fs. amount_form nd ds fs \<and> trim_text s = form_text ds fs) = True" using f t by blast
  show ?thesis
  proof (cases "ascii (form_text ds fs)")
    case asc: True
    then have g: "money_grammar (chars ds) (map_option chars fs)"
      "trim_text s = codes (money_text (chars ds) (map_option chars fs))" using ascii_form [of nd ds fs] f t by auto
    have "ascii ds" "\<And>f. fs = Some f \<Longrightarrow> utf8_len f \<le> 2" "\<And>c. fs = Some [c] \<Longrightarrow> utf8_len [c] = 1"
      using asc f by (auto simp: form_text_def amount_form_def utf8_ascii split: option.splits)
    then show ?thesis unfolding ex form parse_grammar [OF g] parse_from_str_text using asc by (auto simp: t)
  next
    case non: False
    then show ?thesis unfolding ex form parse_not_ascii [OF f t non] parse_from_str_text
      using f fraction_length [of nd ds "the fs"] by (cases fs) (auto simp: t ascii_form_text)
  qed
qed

text \<open>Twelve, in Bangla digits, with spaces of another script around it.\<close>

definition bangla_digit :: "nat \<Rightarrow> bool" where
  "bangla_digit c \<longleftrightarrow> 0x9E6 \<le> c \<and> c \<le> 0x9EF"

theorem parse_from_str_exact_witness:
  "parse_from_text bangla_digit [0x3000, 0x9E7, 0x9E8, 0x3000] = Inl Overflow \<and>
   parse_from_text bangla_digit (codes '' 12.5'') = Inr (Paisa 1250)"
proof
  have "trim_text [0x3000, 0x9E7, 0x9E8, 0x3000] = form_text [0x9E7, 0x9E8] None"
    "amount_form bangla_digit [0x9E7, 0x9E8] None" "\<not> ascii [0x9E7, 0x9E8]"
    by (simp_all add: trim_text_def white_def form_text_def amount_form_def decimal_def bangla_digit_def)
  with parse_from_str_exact [of bangla_digit "[0x3000, 0x9E7, 0x9E8, 0x3000]"]
  show "parse_from_text bangla_digit [0x3000, 0x9E7, 0x9E8, 0x3000] = Inl Overflow" by blast
  have "parse_from_str '' 12.5'' = Inr (Paisa 1250)" by code_simp
  with parse_from_str_exact [of bangla_digit "[]" _ "'' 12.5''"]
  show "parse_from_text bangla_digit (codes '' 12.5'') = Inr (Paisa 1250)" by simp
qed

text \<open>C23: Which amounts survive a round trip.  The text that \<open>Display\<close> prints for an amount is read back by the parser
as the same amount, and the text that it serialises to is read back by the deserialiser, exactly when the amount
lies between zero and the cap; and these are exactly the amounts that the parser can produce.\<close>

theorem amount_roundtrip:
  "(parse_from_str (paisa_display p) = Inr p) = (0 \<le> as_paisa p \<and> as_paisa p \<le> MAX_PAISA_AMOUNT) \<and>
   (paisa_visit_str (paisa_serialize p) = Inr p) = (0 \<le> as_paisa p \<and> as_paisa p \<le> MAX_PAISA_AMOUNT) \<and>
   (\<exists>s. parse_from_str s = Inr p) = (0 \<le> as_paisa p \<and> as_paisa p \<le> MAX_PAISA_AMOUNT)"
proof -
  have in_range: "parse_from_str (show_int (as_paisa p)) = Inr p" if "0 \<le> as_paisa p" "as_paisa p \<le> MAX_PAISA_AMOUNT"
    using parse_show_roundtrip [OF that] by simp
  have "(paisa_visit_str t = Inr p) = (parse_from_str t = Inr p)" for t
    by (cases "parse_from_str t") (simp_all add: paisa_visit_str_def)
  then show ?thesis unfolding paisa_display_def paisa_serialize_def
    using in_range parse_from_str_bounds by (metis (no_types))
qed

text \<open>Two accepted amounts never overflow: their checked sum exists and is their sum, and their
checked difference exists and is their difference.\<close>

theorem amounts_in_range:
  assumes "parse_positive_from_str s = Inr p" "parse_positive_from_str s' = Inr q"
  shows "0 < as_paisa p \<and> as_paisa p \<le> MAX_PAISA_AMOUNT \<and>
    paisa_checked_add p q = Some (Paisa (as_paisa p + as_paisa q)) \<and>
    paisa_checked_sub p q = Some (Paisa (as_paisa p - as_paisa q))"
  using parse_positive_bounds [OF assms(1)] parse_positive_bounds [OF assms(2)]
  by (simp add: paisa_checked_add_def paisa_checked_sub_def i64_checked_add_def i64_checked_sub_def
      in_i64_def i64_min_def i64_max_def MAX_PAISA_AMOUNT_def)

theorem amounts_in_range_witness:
  "paisa_checked_sub (Paisa 5) (Paisa 1250) = Some (Paisa (- 1245))"
proof -
  have "parse_positive_from_str ''5'' = Inr (Paisa 5)" "parse_positive_from_str '' 12.5'' = Inr (Paisa 1250)"
    by code_simp+
  from amounts_in_range [OF this] show ?thesis by simp
qed

end
