(* ===== verification/Database.thy ===== *)
theory Database
  imports Money
begin

text \<open>
  The PostgreSQL schema (\<open>migrations/0001_init.sql\<close>): one record per table row, one list of
  rows per table in insertion order, and one function per kind of statement that the services
  send.  A statement checks the constraints of its table (\<open>CHECK\<close>, \<open>UNIQUE\<close>,
  \<open>REFERENCES\<close>, column widths) before it changes anything.

  A connection runs statements one after the other.  Each of them, the \<open>BEGIN\<close> and the
  \<open>COMMIT\<close> has a \<^emph>\<open>fate\<close>: it proceeds, it is refused (the connection failed before
  the server acted) or its acknowledgement is lost (the server acted, the client sees an
  error).  A world carries the fates of its next statements, so that every theorem that holds
  for all worlds holds for every pattern of failures.  A transaction works on its own copy of the
  database, which replaces the shared one at \<open>COMMIT\<close> and is dropped on every early return.

  Time is a number of microseconds; the serial ids of append-only tables count from 1.
\<close>

section \<open>Rows and tables\<close>

datatype json = JInt int | JStr str | JObj "(str \<times> json) list"

record user_row =
  u_id :: uuid
  u_account_number :: str
  u_name :: str
  u_phone :: str
  u_password_hash :: str
  u_pin_hash :: str
  u_pin_updated_at :: int
  u_status :: str
  u_created_at :: int
  u_updated_at :: int

record balance_row =
  b_user_id :: uuid
  b_amount_paisa :: int
  b_version :: int
  b_updated_at :: int

record transfer_row =
  t_id :: uuid
  t_reference :: str
  t_sender_id :: uuid
  t_recipient_id :: uuid
  t_amount_paisa :: int
  t_note :: str
  t_status :: str
  t_idempotency_key :: uuid
  t_created_at :: int

record ledger_row =
  l_id :: int
  l_txn_id :: uuid
  l_reference :: str
  l_user_id :: uuid
  l_counterparty_id :: "uuid option"
  l_direction :: int
  l_amount_paisa :: int
  l_running_balance :: int
  l_kind :: str
  l_idempotency_key :: "uuid option"
  l_created_at :: int

record request_row =
  r_id :: uuid
  r_requester_id :: uuid
  r_debtor_id :: uuid
  r_amount_paisa :: int
  r_note :: str
  r_status :: str
  r_created_at :: int
  r_resolved_at :: "int option"

record link_row =
  k_id :: uuid
  k_creator_id :: uuid
  k_amount_paisa :: int
  k_note :: str
  k_token :: str
  k_status :: str
  k_claimer_id :: "uuid option"
  k_transfer_id :: "uuid option"
  k_expires_at :: int
  k_created_at :: int
  k_claimed_at :: "int option"
  k_cancelled_at :: "int option"

record event_row =
  e_id :: int
  e_entity_type :: str
  e_entity_id :: uuid
  e_event :: str
  e_actor_id :: "uuid option"
  e_reason :: str
  e_meta :: json
  e_created_at :: int

record history_row =
  h_id :: int
  h_user_id :: uuid
  h_status :: str
  h_kind :: str
  h_direction :: str
  h_amount_paisa :: int
  h_balance_after :: int
  h_counterparty_id :: "uuid option"
  h_reference :: str
  h_entity_id :: "uuid option"
  h_note :: str
  h_idempotency_key :: "uuid option"
  h_created_at :: int

record notification_row =
  n_id :: int
  n_user_id :: uuid
  n_kind :: str
  n_title :: str
  n_body :: str
  n_entity_type :: "str option"
  n_entity_id :: "uuid option"
  n_read_at :: "int option"
  n_created_at :: int

record database =
  users :: "user_row list"
  balances :: "balance_row list"
  transfers :: "transfer_row list"
  ledger :: "ledger_row list"
  requests :: "request_row list"
  links :: "link_row list"
  events :: "event_row list"
  history :: "history_row list"
  notifications :: "notification_row list"

definition empty_db :: database where
  "empty_db = \<lparr>users = [], balances = [], transfers = [], ledger = [], requests = [],
     links = [], events = [], history = [], notifications = []\<rparr>"

text \<open>Constraints are checked in order; the first that fails is the error.\<close>

fun constrained :: "(bool \<times> db_error) list \<Rightarrow> 'a \<Rightarrow> db_error + 'a" where
  "constrained [] x = Inr x"
| "constrained ((ok, e) # cs) x = (if ok then constrained cs x else Inl e)"

lemma constrained_Inr_iff: "constrained cs x = Inr y \<longleftrightarrow> y = x \<and> list_all fst cs"
  by (induction cs) (auto split: if_splits)

definition is_user :: "database \<Rightarrow> uuid \<Rightarrow> bool" where
  "is_user d u \<longleftrightarrow> u \<in> set (map u_id (users d))"

definition opt_user :: "database \<Rightarrow> uuid option \<Rightarrow> bool" where
  "opt_user d v = (case v of None \<Rightarrow> True | Some u \<Rightarrow> is_user d u)"

section \<open>Statements\<close>

definition insert_user :: "user_row \<Rightarrow> database \<Rightarrow> db_error + database" where
  "insert_user r d = constrained
     [(length (u_account_number r) \<le> 20, StringDataRightTruncation ''account_number''),
      (length (u_phone r) \<le> 20, StringDataRightTruncation ''phone''),
      (1 \<le> length (u_name r) \<and> length (u_name r) \<le> 100, CheckViolation ''users_name_check''),
      (u_status r \<in> set [''active'', ''suspended'', ''locked''], CheckViolation ''users_status_check''),
      (u_id r \<notin> set (map u_id (users d)), UniqueViolation ''users_pkey''),
      (u_account_number r \<notin> set (map u_account_number (users d)),
         UniqueViolation ''users_account_number_key''),
      (u_phone r \<notin> set (map u_phone (users d)), UniqueViolation ''users_phone_key'')]
     (d\<lparr>users := users d @ [r]\<rparr>)"

definition insert_balance :: "balance_row \<Rightarrow> database \<Rightarrow> db_error + database" where
  "insert_balance r d = constrained
     [(0 \<le> b_amount_paisa r, CheckViolation ''balances_amount_paisa_check''),
      (b_user_id r \<notin> set (map b_user_id (balances d)), UniqueViolation ''balances_pkey''),
      (is_user d (b_user_id r), ForeignKeyViolation ''balances_user_id_fkey'')]
     (d\<lparr>balances := balances d @ [r]\<rparr>)"

definition insert_transfer :: "transfer_row \<Rightarrow> database \<Rightarrow> db_error + database" where
  "insert_transfer r d = constrained
     [(0 < t_amount_paisa r, CheckViolation ''transfers_amount_paisa_check''),
      (length (t_note r) \<le> 200, CheckViolation ''transfers_note_check''),
      (t_status r \<in> set [''completed'', ''rejected'', ''flagged''],
         CheckViolation ''transfers_status_check''),
      (t_sender_id r \<noteq> t_recipient_id r, CheckViolation ''chk_transfers_distinct_participants''),
      (t_id r \<notin> set (map t_id (transfers d)), UniqueViolation ''transfers_pkey''),
      (t_reference r \<notin> set (map t_reference (transfers d)),
         UniqueViolation ''transfers_reference_key''),
      (t_idempotency_key r \<notin> set (map t_idempotency_key (transfers d)),
         UniqueViolation ''transfers_idempotency_key_key''),
      (is_user d (t_sender_id r), ForeignKeyViolation ''transfers_sender_id_fkey''),
      (is_user d (t_recipient_id r), ForeignKeyViolation ''transfers_recipient_id_fkey'')]
     (d\<lparr>transfers := transfers d @ [r]\<rparr>)"

text \<open>The \<open>id\<close> column of \<open>ledger\<close>, \<open>process_events\<close> and \<open>tx_history\<close> is \<open>BIGSERIAL\<close>.\<close>

definition next_serial :: "'a list \<Rightarrow> int" where
  "next_serial rows = int (length rows) + 1"

definition insert_ledger :: "ledger_row \<Rightarrow> database \<Rightarrow> db_error + database" where
  "insert_ledger r d = constrained
     [(l_direction r \<in> set [-1, 1], CheckViolation ''ledger_direction_check''),
      (0 < l_amount_paisa r, CheckViolation ''ledger_amount_paisa_check''),
      (0 \<le> l_running_balance r, CheckViolation ''ledger_running_balance_check''),
      (l_kind r \<in> set [''funding'', ''transfer_sent'', ''transfer_received'', ''request_paid'',
         ''link_paid''], CheckViolation ''ledger_kind_check''),
      ((l_txn_id r, l_direction r) \<notin> set (map (\<lambda>x. (l_txn_id x, l_direction x)) (ledger d)),
         UniqueViolation ''uq_ledger_txn_direction''),
      (l_idempotency_key r = None \<or>
         (l_idempotency_key r, l_direction r) \<notin>
           set (map (\<lambda>x. (l_idempotency_key x, l_direction x)) (ledger d)),
         UniqueViolation ''uq_ledger_idempotency_key''),
      (is_user d (l_user_id r), ForeignKeyViolation ''ledger_user_id_fkey''),
      (opt_user d (l_counterparty_id r), ForeignKeyViolation ''ledger_counterparty_id_fkey'')]
     (d\<lparr>ledger := ledger d @ [r\<lparr>l_id := next_serial (ledger d)\<rparr>]\<rparr>)"

definition insert_request :: "request_row \<Rightarrow> database \<Rightarrow> db_error + database" where
  "insert_request r d = constrained
     [(0 < r_amount_paisa r, CheckViolation ''money_requests_amount_paisa_check''),
      (length (r_note r) \<le> 200, CheckViolation ''money_requests_note_check''),
      (r_status r \<in> set [''pending'', ''accepted'', ''rejected'', ''cancelled''],
         CheckViolation ''money_requests_status_check''),
      (r_requester_id r \<noteq> r_debtor_id r, CheckViolation ''chk_requests_distinct_participants''),
      (r_id r \<notin> set (map r_id (requests d)), UniqueViolation ''money_requests_pkey''),
      (is_user d (r_requester_id r), ForeignKeyViolation ''money_requests_requester_id_fkey''),
      (is_user d (r_debtor_id r), ForeignKeyViolation ''money_requests_debtor_id_fkey'')]
     (d\<lparr>requests := requests d @ [r]\<rparr>)"

definition insert_link :: "link_row \<Rightarrow> database \<Rightarrow> db_error + database" where
  "insert_link r d = constrained
     [(0 < k_amount_paisa r, CheckViolation ''payment_links_amount_paisa_check''),
      (length (k_note r) \<le> 120, CheckViolation ''payment_links_note_check''),
      (k_status r \<in> set [''active'', ''claimed'', ''expired'', ''cancelled''],
         CheckViolation ''payment_links_status_check''),
      (k_id r \<notin> set (map k_id (links d)), UniqueViolation ''payment_links_pkey''),
      (k_token r \<notin> set (map k_token (links d)), UniqueViolation ''payment_links_token_key''),
      (is_user d (k_creator_id r), ForeignKeyViolation ''payment_links_creator_id_fkey'')]
     (d\<lparr>links := links d @ [r]\<rparr>)"

definition insert_history :: "history_row \<Rightarrow> database \<Rightarrow> db_error + database" where
  "insert_history r d = constrained
     [(h_status r \<in> set [''completed'', ''rejected'', ''flagged''],
         CheckViolation ''tx_history_status_check''),
      (h_kind r \<in> set [''transfer'', ''funding'', ''request'', ''link''],
         CheckViolation ''tx_history_kind_check''),
      (h_direction r \<in> set [''sent'', ''received''], CheckViolation ''tx_history_direction_check''),
      (0 < h_amount_paisa r, CheckViolation ''tx_history_amount_paisa_check''),
      (is_user d (h_user_id r), ForeignKeyViolation ''tx_history_user_id_fkey''),
      (opt_user d (h_counterparty_id r), ForeignKeyViolation ''tx_history_counterparty_id_fkey'')]
     (d\<lparr>history := history d @ [r\<lparr>h_id := next_serial (history d)\<rparr>]\<rparr>)"

definition insert_event :: "event_row \<Rightarrow> database \<Rightarrow> db_error + database" where
  "insert_event r d = constrained
     [(e_entity_type r \<in> set [''transfer'', ''request'', ''link'', ''auth'', ''system''],
         CheckViolation ''process_events_entity_type_check''),
      (e_event r \<in> set [''registered'', ''login_success'', ''login_failed'', ''logout'', ''created'',
         ''completed'', ''rejected'', ''flagged'', ''accepted'', ''cancelled'', ''expired'',
         ''claimed'', ''pin_failed'', ''pin_changed'', ''pin_reset''],
         CheckViolation ''process_events_event_check''),
      (opt_user d (e_actor_id r), ForeignKeyViolation ''process_events_actor_id_fkey'')]
     (d\<lparr>events := events d @ [r\<lparr>e_id := next_serial (events d)\<rparr>]\<rparr>)"

text \<open>
  \<open>UPDATE balances SET amount_paisa = $1, version = version + 1, updated_at = now()
  WHERE user_id = $2\<close>.
\<close>

definition update_balance :: "int \<Rightarrow> int \<Rightarrow> uuid \<Rightarrow> database \<Rightarrow> db_error + database" where
  "update_balance now amount u d =
     (let hit = (\<lambda>b. b_user_id b = u) in
      constrained
       [(list_all (\<lambda>b. b_version b < i64_max) (filter hit (balances d)), NumericValueOutOfRange),
        (filter hit (balances d) = [] \<or> 0 \<le> amount, CheckViolation ''balances_amount_paisa_check'')]
       (d\<lparr>balances := update_where hit
            (\<lambda>b. b\<lparr>b_amount_paisa := amount, b_version := b_version b + 1, b_updated_at := now\<rparr>)
            (balances d)\<rparr>))"

text \<open>\<open>UPDATE .. WHERE id = $n\<close> on the other tables: \<open>f\<close> sets the columns.\<close>

definition update_request :: "uuid \<Rightarrow> (request_row \<Rightarrow> request_row) \<Rightarrow> database \<Rightarrow> db_error + database" where
  "update_request i f d =
     constrained
       [(list_all (\<lambda>r. r_id r = i \<longrightarrow>
            r_status (f r) \<in> set [''pending'', ''accepted'', ''rejected'', ''cancelled'']) (requests d),
         CheckViolation ''money_requests_status_check'')]
       (d\<lparr>requests := update_where (\<lambda>r. r_id r = i) f (requests d)\<rparr>)"

definition update_link :: "uuid \<Rightarrow> (link_row \<Rightarrow> link_row) \<Rightarrow> database \<Rightarrow> db_error + database" where
  "update_link i f d =
     constrained
       [(list_all (\<lambda>k. k_id k = i \<longrightarrow>
            k_status (f k) \<in> set [''active'', ''claimed'', ''expired'', ''cancelled'']) (links d),
         CheckViolation ''payment_links_status_check''),
        (list_all (\<lambda>k. k_id k = i \<longrightarrow> opt_user d (k_claimer_id (f k))) (links d),
         ForeignKeyViolation ''payment_links_claimer_id_fkey''),
        (list_all (\<lambda>k. k_id k = i \<longrightarrow> (case k_transfer_id (f k) of None \<Rightarrow> True
            | Some t \<Rightarrow> t \<in> set (map t_id (transfers d)))) (links d),
         ForeignKeyViolation ''payment_links_transfer_id_fkey'')]
       (d\<lparr>links := update_where (\<lambda>k. k_id k = i) f (links d)\<rparr>)"

definition update_user_pin :: "str \<Rightarrow> int \<Rightarrow> uuid \<Rightarrow> database \<Rightarrow> db_error + database" where
  "update_user_pin pin_hash now i d =
     Inr (d\<lparr>users := update_where (\<lambda>u. u_id u = i)
            (\<lambda>u. u\<lparr>u_pin_hash := pin_hash, u_pin_updated_at := now\<rparr>) (users d)\<rparr>)"

definition update_notifications ::
  "(notification_row \<Rightarrow> bool) \<Rightarrow> int \<Rightarrow> database \<Rightarrow> db_error + database" where
  "update_notifications hit now d =
     Inr (d\<lparr>notifications := update_where hit (\<lambda>n. n\<lparr>n_read_at := Some now\<rparr>) (notifications d)\<rparr>)"

subsection \<open>What a successful statement has checked and done\<close>

lemma insert_user_Inr:
  assumes "insert_user r d = Inr d'"
  shows "d' = d\<lparr>users := users d @ [r]\<rparr>" "u_id r \<notin> set (map u_id (users d))"
    "u_phone r \<notin> set (map u_phone (users d))"
    "u_account_number r \<notin> set (map u_account_number (users d))"
  using assms unfolding insert_user_def constrained_Inr_iff by simp_all

lemma insert_balance_Inr:
  assumes "insert_balance r d = Inr d'"
  shows "d' = d\<lparr>balances := balances d @ [r]\<rparr>" "0 \<le> b_amount_paisa r"
    "b_user_id r \<notin> set (map b_user_id (balances d))" "is_user d (b_user_id r)"
  using assms unfolding insert_balance_def constrained_Inr_iff by simp_all

lemma insert_transfer_Inr:
  assumes "insert_transfer r d = Inr d'"
  shows "d' = d\<lparr>transfers := transfers d @ [r]\<rparr>" "0 < t_amount_paisa r"
    "t_sender_id r \<noteq> t_recipient_id r" "t_id r \<notin> set (map t_id (transfers d))"
    "t_reference r \<notin> set (map t_reference (transfers d))"
    "t_idempotency_key r \<notin> set (map t_idempotency_key (transfers d))"
    "is_user d (t_sender_id r)" "is_user d (t_recipient_id r)"
    "t_status r \<in> {''completed'', ''rejected'', ''flagged''}" "length (t_note r) \<le> 200"
  using assms unfolding insert_transfer_def constrained_Inr_iff by simp_all

lemma insert_ledger_Inr:
  assumes "insert_ledger r d = Inr d'"
  shows "d' = d\<lparr>ledger := ledger d @ [r\<lparr>l_id := next_serial (ledger d)\<rparr>]\<rparr>"
    "l_direction r = -1 \<or> l_direction r = 1" "0 < l_amount_paisa r" "0 \<le> l_running_balance r"
    "(l_txn_id r, l_direction r) \<notin> set (map (\<lambda>x. (l_txn_id x, l_direction x)) (ledger d))"
    "is_user d (l_user_id r)" "opt_user d (l_counterparty_id r)"
  using assms unfolding insert_ledger_def constrained_Inr_iff by simp_all

lemma insert_request_Inr:
  assumes "insert_request r d = Inr d'"
  shows "d' = d\<lparr>requests := requests d @ [r]\<rparr>" "0 < r_amount_paisa r"
    "r_requester_id r \<noteq> r_debtor_id r" "r_id r \<notin> set (map r_id (requests d))"
    "is_user d (r_requester_id r)" "is_user d (r_debtor_id r)" "length (r_note r) \<le> 200"
  using assms unfolding insert_request_def constrained_Inr_iff by simp_all

lemma insert_link_Inr:
  assumes "insert_link r d = Inr d'"
  shows "d' = d\<lparr>links := links d @ [r]\<rparr>" "0 < k_amount_paisa r"
    "k_id r \<notin> set (map k_id (links d))" "k_token r \<notin> set (map k_token (links d))"
    "is_user d (k_creator_id r)" "length (k_note r) \<le> 120"
  using assms unfolding insert_link_def constrained_Inr_iff by simp_all

lemma insert_history_Inr:
  assumes "insert_history r d = Inr d'"
  shows "d' = d\<lparr>history := history d @ [r\<lparr>h_id := next_serial (history d)\<rparr>]\<rparr>"
    "0 < h_amount_paisa r" "is_user d (h_user_id r)"
  using assms unfolding insert_history_def constrained_Inr_iff by simp_all

lemma insert_event_Inr:
  assumes "insert_event r d = Inr d'"
  shows "d' = d\<lparr>events := events d @ [r\<lparr>e_id := next_serial (events d)\<rparr>]\<rparr>"
  using assms unfolding insert_event_def constrained_Inr_iff by simp

lemma update_balance_Inr:
  assumes "update_balance now amount u d = Inr d'"
  shows "d' = d\<lparr>balances := update_where (\<lambda>b. b_user_id b = u)
           (\<lambda>b. b\<lparr>b_amount_paisa := amount, b_version := b_version b + 1, b_updated_at := now\<rparr>)
           (balances d)\<rparr>"
    "u \<in> set (map b_user_id (balances d)) \<Longrightarrow> 0 \<le> amount"
  using assms unfolding update_balance_def constrained_Inr_iff Let_def
  by (auto simp: filter_empty_conv)

lemma update_request_Inr:
  assumes "update_request i f d = Inr d'"
  shows "d' = d\<lparr>requests := update_where (\<lambda>r. r_id r = i) f (requests d)\<rparr>"
  using assms unfolding update_request_def constrained_Inr_iff by simp

lemma update_link_Inr:
  assumes "update_link i f d = Inr d'"
  shows "d' = d\<lparr>links := update_where (\<lambda>k. k_id k = i) f (links d)\<rparr>"
  using assms unfolding update_link_def constrained_Inr_iff by simp

section \<open>Connections and transactions\<close>

datatype fate = Proceeds | Refused | AckLost

definition next_fate :: "fate list \<Rightarrow> fate \<times> fate list" where
  "next_fate fs = (case fs of [] \<Rightarrow> (Proceeds, []) | f # rest \<Rightarrow> (f, rest))"

datatype mail_part = Text str | TakaAmount int

record email =
  em_to :: str
  em_subject :: str
  em_body :: "mail_part list"

record 'r world =
  db :: database
  fates :: "fate list"
  redis :: 'r
  outbox :: "email list"
  bus :: "(str \<times> json) list"

type_synonym 'a tx = "(database \<times> fate list, app_error, 'a) prog"
type_synonym ('r, 'a) service = "('r world, app_error, 'a) prog"

text \<open>One statement of a transaction.\<close>

definition exec :: "(database \<Rightarrow> db_error + 'a \<times> database) \<Rightarrow> 'a tx" where
  "exec q = (\<lambda>(d, fs). case next_fate fs of (f, fs') \<Rightarrow>
     if f = Proceeds
     then (case q d of
             Inl e \<Rightarrow> (Inl (Database e), (d, fs'))
           | Inr (x, d') \<Rightarrow> (Inr x, (d', fs')))
     else (Inl (Database ConnectionError), (d, fs')))"

definition no_rows :: "(database \<Rightarrow> db_error + database) \<Rightarrow> database \<Rightarrow> db_error + unit \<times> database" where
  "no_rows u d = (case u d of Inl e \<Rightarrow> Inl e | Inr d' \<Rightarrow> Inr ((), d'))"

definition execute :: "(database \<Rightarrow> db_error + database) \<Rightarrow> unit tx" where
  "execute u = exec (no_rows u)"

definition fetch :: "(database \<Rightarrow> 'a) \<Rightarrow> 'a tx" where
  "fetch q = exec (\<lambda>d. Inr (q d, d))"

text \<open>\<open>fetch_one\<close>: no row is an error.\<close>

definition fetch_one :: "(database \<Rightarrow> 'a option) \<Rightarrow> 'a tx" where
  "fetch_one q = exec (\<lambda>d. case q d of None \<Rightarrow> Inl RowNotFound | Some x \<Rightarrow> Inr (x, d))"

text \<open>A statement sent to the pool commits by itself.\<close>

definition pool :: "(database \<Rightarrow> db_error + 'a \<times> database) \<Rightarrow> ('r, 'a) service" where
  "pool q = (\<lambda>w. case next_fate (fates w) of (f, fs) \<Rightarrow>
     if f = Refused then (Inl (Database ConnectionError), w\<lparr>fates := fs\<rparr>)
     else (case q (db w) of
             Inl e \<Rightarrow> (Inl (Database e), w\<lparr>fates := fs\<rparr>)
           | Inr (x, d') \<Rightarrow> (if f = Proceeds then Inr x else Inl (Database ConnectionError),
                             w\<lparr>db := d', fates := fs\<rparr>)))"

definition pool_execute :: "(database \<Rightarrow> db_error + database) \<Rightarrow> ('r, unit) service" where
  "pool_execute u = pool (no_rows u)"

definition pool_fetch :: "(database \<Rightarrow> 'a) \<Rightarrow> ('r, 'a) service" where
  "pool_fetch q = pool (\<lambda>d. Inr (q d, d))"

definition pool_fetch_one :: "(database \<Rightarrow> 'a option) \<Rightarrow> ('r, 'a) service" where
  "pool_fetch_one q = pool (\<lambda>d. case q d of None \<Rightarrow> Inl RowNotFound | Some x \<Rightarrow> Inr (x, d))"

text \<open>\<open>state.db.begin() .. tx.commit()\<close>; an error of the body drops the transaction.\<close>

definition transaction :: "'a tx \<Rightarrow> ('r, 'a) service" where
  "transaction body = (\<lambda>w. case next_fate (fates w) of (f, fs) \<Rightarrow>
     if f \<noteq> Proceeds then (Inl (Database ConnectionError), w\<lparr>fates := fs\<rparr>)
     else (case body (db w, fs) of
       (Inl e, (_, fs')) \<Rightarrow> (Inl e, w\<lparr>fates := fs'\<rparr>)
     | (Inr x, (d', fs')) \<Rightarrow>
         (case next_fate fs' of (g, fs'') \<Rightarrow>
            if g = Proceeds then (Inr x, w\<lparr>db := d', fates := fs''\<rparr>)
            else if g = AckLost
            then (Inl (Database ConnectionError), w\<lparr>db := d', fates := fs''\<rparr>)
            else (Inl (Database ConnectionError), w\<lparr>fates := fs''\<rparr>))))"

text \<open>
  A transaction that some results leave early: \<open>return Ok(..)\<close> before the commit drops it.
\<close>

definition transaction_unless :: "('a \<Rightarrow> bool) \<Rightarrow> 'a tx \<Rightarrow> ('r, 'a) service" where
  "transaction_unless leaves body = (\<lambda>w. case next_fate (fates w) of (f, fs) \<Rightarrow>
     if f \<noteq> Proceeds then (Inl (Database ConnectionError), w\<lparr>fates := fs\<rparr>)
     else (case body (db w, fs) of
       (Inl e, (_, fs')) \<Rightarrow> (Inl e, w\<lparr>fates := fs'\<rparr>)
     | (Inr x, (d', fs')) \<Rightarrow>
         if leaves x then (Inr x, w\<lparr>fates := fs'\<rparr>)
         else (case next_fate fs' of (g, fs'') \<Rightarrow>
            if g = Proceeds then (Inr x, w\<lparr>db := d', fates := fs''\<rparr>)
            else if g = AckLost
            then (Inl (Database ConnectionError), w\<lparr>db := d', fates := fs''\<rparr>)
            else (Inl (Database ConnectionError), w\<lparr>fates := fs''\<rparr>))))"

section \<open>Reasoning about connections\<close>

subsection \<open>Successful runs\<close>

text \<open>
  \<open>runs m d x d'\<close>: for some pattern of failures, \<open>m\<close> started on \<open>d\<close> succeeds with \<open>x\<close>
  and leaves \<open>d'\<close>.  Its elimination rules follow a program backwards to its statements.
\<close>

definition runs :: "'a tx \<Rightarrow> database \<Rightarrow> 'a \<Rightarrow> database \<Rightarrow> bool" where
  "runs m d x d' \<longleftrightarrow> (\<exists>fs fs'. m (d, fs) = (Inr x, (d', fs')))"

lemma runs_bndE:
  assumes "runs (bnd m f) d y d2"
  obtains x d1 where "runs m d x d1" "runs (f x) d1 y d2"
  using assms unfolding runs_def bnd_Inr_iff by (metis surj_pair)

lemma runs_thnE:
  assumes "runs (thn m k) d y d2"
  obtains x d1 where "runs m d x d1" "runs k d1 y d2"
  using assms unfolding thn_def by (rule runs_bndE)

lemma runs_ret [simp]: "runs (ret x) d y d' \<longleftrightarrow> y = x \<and> d' = d"
  by (auto simp: runs_def ret_def)

lemma runs_throw [simp]: "\<not> runs (throw e) d y d'"
  by (auto simp: runs_def throw_def)

lemma runs_lift [simp]: "runs (lift r) d y d' \<longleftrightarrow> r = Inr y \<and> d' = d"
  by (auto simp: runs_def lift_def)

lemma runs_guard [simp]: "runs (guard b e) d y d' \<longleftrightarrow> b \<and> d' = d"
  by (auto simp: runs_def guard_run)

lemma exec_Inr:
  "exec q (d, fs) = (Inr x, (d', fs')) \<longleftrightarrow>
     fst (next_fate fs) = Proceeds \<and> fs' = snd (next_fate fs) \<and> q d = Inr (x, d')"
  by (auto simp: exec_def split: prod.splits sum.splits)

lemma next_fate_Nil [simp]: "next_fate [] = (Proceeds, [])"
  by (simp add: next_fate_def)

lemma runs_exec [simp]: "runs (exec q) d x d' \<longleftrightarrow> q d = Inr (x, d')"
  unfolding runs_def exec_Inr by (metis fst_conv next_fate_Nil)

lemma no_rows_Inr [simp]: "no_rows u d = Inr (x, d') \<longleftrightarrow> u d = Inr d'"
  by (auto simp: no_rows_def split: sum.splits)

lemma runs_execute [simp]: "runs (execute u) d x d' \<longleftrightarrow> u d = Inr d'"
  by (simp add: execute_def)

lemma runs_fetch [simp]: "runs (fetch q) d x d' \<longleftrightarrow> x = q d \<and> d' = d"
  by (auto simp: fetch_def)

lemma runs_fetch_one [simp]: "runs (fetch_one q) d x d' \<longleftrightarrow> q d = Some x \<and> d' = d"
  by (auto simp: fetch_one_def split: option.splits)

subsection \<open>Runs without failures of the connection\<close>

lemma exec_proceeds [monad_simps]:
  "exec q (d, []) = (case q d of Inl e \<Rightarrow> (Inl (Database e), (d, [])) | Inr (x, d') \<Rightarrow> (Inr x, (d', [])))"
  by (simp add: exec_def)

lemma execute_proceeds [monad_simps]:
  "execute u (d, []) = (case u d of Inl e \<Rightarrow> (Inl (Database e), (d, [])) | Inr d' \<Rightarrow> (Inr (), (d', [])))"
  by (simp add: execute_def exec_proceeds no_rows_def split: sum.splits)

lemma fetch_proceeds [monad_simps]: "fetch q (d, []) = (Inr (q d), (d, []))"
  by (simp add: fetch_def exec_proceeds)

lemma fetch_one_proceeds [monad_simps]:
  "fetch_one q (d, []) = (case q d of None \<Rightarrow> (Inl (Database RowNotFound), (d, [])) | Some x \<Rightarrow> (Inr x, (d, [])))"
  by (simp add: fetch_one_def exec_proceeds split: option.splits)

lemma pool_proceeds [monad_simps]:
  "fates w = [] \<Longrightarrow> pool q w = (case q (db w) of Inl e \<Rightarrow> (Inl (Database e), w)
     | Inr (x, d') \<Rightarrow> (Inr x, w\<lparr>db := d'\<rparr>))"
  by (cases w) (auto simp: pool_def split: sum.splits prod.splits)

lemma pool_execute_proceeds [monad_simps]:
  "fates w = [] \<Longrightarrow> pool_execute u w = (case u (db w) of Inl e \<Rightarrow> (Inl (Database e), w)
     | Inr d' \<Rightarrow> (Inr (), w\<lparr>db := d'\<rparr>))"
  by (simp add: pool_execute_def pool_proceeds no_rows_def split: sum.splits)

lemma pool_fetch_proceeds [monad_simps]: "fates w = [] \<Longrightarrow> pool_fetch q w = (Inr (q (db w)), w)"
  by (simp add: pool_fetch_def pool_proceeds)

lemma transaction_proceeds [monad_simps]:
  "fates w = [] \<Longrightarrow> transaction body w =
     (case body (db w, []) of (Inl e, (_, fs)) \<Rightarrow> (Inl e, w\<lparr>fates := fs\<rparr>)
      | (Inr x, (d', fs)) \<Rightarrow>
          (case next_fate fs of (g, fs') \<Rightarrow>
             if g = Proceeds then (Inr x, w\<lparr>db := d', fates := fs'\<rparr>)
             else if g = AckLost then (Inl (Database ConnectionError), w\<lparr>db := d', fates := fs'\<rparr>)
             else (Inl (Database ConnectionError), w\<lparr>fates := fs'\<rparr>)))"
  by (simp add: transaction_def)

subsection \<open>Atomicity\<close>

text \<open>
  A transaction leaves the database as it was, or as a successful run of its body leaves it;
  \<open>Ok\<close> means the latter, and an error of the body the former.
\<close>

lemma transaction_atomic:
  assumes "transaction body w = (r, w')"
  shows "db w' = db w \<or> (\<exists>x. runs body (db w) x (db w'))"
  using assms unfolding transaction_def runs_def
  by (auto split: prod.splits sum.splits if_splits)

lemma transaction_Ok:
  assumes "transaction body w = (Inr x, w')"
  shows "runs body (db w) x (db w')"
  using assms unfolding transaction_def runs_def
  by (fastforce split: prod.splits sum.splits if_splits)

lemma transaction_unless_atomic:
  assumes "transaction_unless leaves body w = (r, w')"
  shows "db w' = db w \<or> (\<exists>x. runs body (db w) x (db w') \<and> \<not> leaves x)"
  using assms unfolding transaction_unless_def runs_def
  by (fastforce split: prod.splits sum.splits if_splits)

lemma transaction_unless_Ok:
  assumes "transaction_unless leaves body w = (Inr x, w')"
  shows "\<exists>d'. runs body (db w) x d' \<and> db w' = (if leaves x then db w else d')"
  using assms unfolding transaction_unless_def runs_def
  by (fastforce split: prod.splits sum.splits if_splits)

lemma transaction_frame:
  assumes "transaction body w = (r, w')"
  shows "redis w' = redis w \<and> outbox w' = outbox w \<and> bus w' = bus w"
  using assms unfolding transaction_def by (auto split: prod.splits sum.splits if_splits)

lemma pool_atomic:
  assumes "pool q w = (r, w')"
  shows "db w' = db w \<or> (\<exists>x. q (db w) = Inr (x, db w'))"
  using assms unfolding pool_def by (auto split: prod.splits sum.splits if_splits)

lemma pool_Ok:
  assumes "pool q w = (Inr x, w')"
  shows "q (db w) = Inr (x, db w')"
  using assms unfolding pool_def by (auto split: prod.splits sum.splits if_splits)

lemma pool_frame:
  assumes "pool q w = (r, w')"
  shows "redis w' = redis w \<and> outbox w' = outbox w \<and> bus w' = bus w"
  using assms unfolding pool_def by (auto split: prod.splits sum.splits if_splits)

lemma pool_fetch_db [simp]: "db (snd (pool_fetch q w)) = db w"
  by (auto simp: pool_fetch_def pool_def split: prod.splits sum.splits if_splits)

lemma pool_fetch_Ok: "pool_fetch q w = (Inr x, w') \<Longrightarrow> q (db w) = x \<and> db w' = db w"
  unfolding pool_fetch_def by (drule pool_Ok) auto

subsection \<open>Invariants of the database\<close>

lemma keeps_db_transaction:
  assumes "\<And>d x d'. I d \<Longrightarrow> runs body d x d' \<Longrightarrow> I d'"
  shows "keeps (\<lambda>w. I (db w)) (transaction body)"
proof (rule keepsI)
  fix w :: "'r world" assume "I (db w)"
  then show "I (db (snd (transaction body w)))"
    using assms transaction_atomic [of body w] by (metis prod.collapse)
qed

lemma keeps_db_pool:
  assumes "\<And>d x d'. I d \<Longrightarrow> q d = Inr (x, d') \<Longrightarrow> I d'"
  shows "keeps (\<lambda>w. I (db w)) (pool q)"
proof (rule keepsI)
  fix w :: "'r world" assume "I (db w)"
  then show "I (db (snd (pool q w)))"
    using assms pool_atomic [of q w] by (metis prod.collapse)
qed

lemma keeps_db_pool_execute:
  "(\<And>d d'. I d \<Longrightarrow> u d = Inr d' \<Longrightarrow> I d') \<Longrightarrow> keeps (\<lambda>w. I (db w)) (pool_execute u)"
  unfolding pool_execute_def by (rule keeps_db_pool) auto

lemma keeps_db_pool_fetch [keeps_rules]: "keeps (\<lambda>w. I (db w)) (pool_fetch q)"
  unfolding pool_fetch_def by (rule keeps_db_pool) auto

lemma keeps_db_pool_fetch_one [keeps_rules]: "keeps (\<lambda>w. I (db w)) (pool_fetch_one q)"
  unfolding pool_fetch_one_def by (rule keeps_db_pool) (auto split: option.splits)

end
