(* ===== verification/RedisModel.thy ===== *)
theory RedisModel
  imports Platform
begin

text \<open>
  What the program relies on in Redis, as three interfaces (counters with a time to live,
  sessions, sliding windows), and an executable store that meets them.  The services never
  mention the store: they take the commands from the platform, and their properties assume an
  interface.
\<close>

section \<open>Interfaces\<close>

text \<open>
  \<open>up r\<close>: the server answers.  \<open>count t r k\<close>: the integer under the key \<open>k\<close> at time \<open>t\<close>,
  \<open>None\<close> when the key is missing or expired.
\<close>

locale redis_counters =
  fixes R :: "'r redis_ops"
    and up :: "'r \<Rightarrow> bool"
    and count :: "int \<Rightarrow> 'r \<Rightarrow> str \<Rightarrow> int option"
  assumes get: "up r \<Longrightarrow> rd_get_i64 R t k r = count t r k"
    and incr_value: "up r \<Longrightarrow> in_i64 (var_or (count t r k) 0 + n) \<Longrightarrow>
          fst (rd_incr R t k n r) = Some (var_or (count t r k) 0 + n)"
    and incr_count: "up r \<Longrightarrow> in_i64 (var_or (count t r k) 0 + n) \<Longrightarrow>
          count t (snd (rd_incr R t k n r)) k = Some (var_or (count t r k) 0 + n)"
    and incr_other: "up r \<Longrightarrow> k' \<noteq> k \<Longrightarrow> count t' (snd (rd_incr R t k n r)) k' = count t' r k'"
    and incr_up: "up r \<Longrightarrow> up (snd (rd_incr R t k n r))"
    and expire_count: "up r \<Longrightarrow> count t r k = Some v \<Longrightarrow> t \<le> t' \<Longrightarrow>
          count t' (rd_expire R t k s r) k = (if t' < t + s * 1000000 then Some v else None)"
    and expire_other: "up r \<Longrightarrow> k' \<noteq> k \<Longrightarrow> count t' (rd_expire R t k s r) k' = count t' r k'"
    and expire_up: "up r \<Longrightarrow> up (rd_expire R t k s r)"
    and del_count: "up r \<Longrightarrow> t \<le> t' \<Longrightarrow> count t' (rd_del R t k r) k = None"
    and del_other: "up r \<Longrightarrow> k' \<noteq> k \<Longrightarrow> count t' (rd_del R t k r) k' = count t' r k'"
    and del_up: "up r \<Longrightarrow> up (rd_del R t k r)"
begin

text \<open>\<open>INCR\<close> followed by \<open>EXPIRE\<close> in the same tick: the counter lives for \<open>s\<close> seconds more.\<close>

lemma incr_expire_count:
  assumes "up r" "in_i64 (var_or (count t r k) 0 + n)" "t \<le> t'"
  shows "count t' (rd_expire R t k s (snd (rd_incr R t k n r))) k =
           (if t' < t + s * 1000000 then Some (var_or (count t r k) 0 + n) else None)"
  using assms by (simp add: expire_count incr_up incr_count)

lemma incr_expire_other:
  "up r \<Longrightarrow> k' \<noteq> k \<Longrightarrow>
     count t' (rd_expire R t k s (snd (rd_incr R t k n r))) k' = count t' r k'"
  by (simp add: expire_other incr_up incr_other)

lemma incr_expire_up: "up r \<Longrightarrow> up (rd_expire R t k s (snd (rd_incr R t k n r)))"
  by (simp add: expire_up incr_up)

end

text \<open>
  \<open>sess t r k\<close>: the string under the key \<open>k\<close>; \<open>members r k\<close>: the set under the key \<open>k\<close>.
\<close>

locale redis_sessions =
  fixes R :: "'r redis_ops"
    and up :: "'r \<Rightarrow> bool"
    and sess :: "int \<Rightarrow> 'r \<Rightarrow> str \<Rightarrow> str option"
    and members :: "'r \<Rightarrow> str \<Rightarrow> str set"
  assumes get_str: "up r \<Longrightarrow> rd_get_str R t k r = Some (sess t r k)"
    and set_ex: "up r \<Longrightarrow> t \<le> t' \<Longrightarrow> sess t' (rd_set_ex R t k v s r) k' =
          (if k' = k then (if t' < t + s * 1000000 then Some v else None) else sess t' r k')"
    and set_ex_members: "up r \<Longrightarrow> k' \<noteq> k \<Longrightarrow> members (rd_set_ex R t k v s r) k' = members r k'"
    and set_ex_up: "up r \<Longrightarrow> up (rd_set_ex R t k v s r)"
    and del_sess: "up r \<Longrightarrow> t \<le> t' \<Longrightarrow>
          sess t' (rd_del R t k r) k' = (if k' = k then None else sess t' r k')"
    and del_members: "up r \<Longrightarrow> k' \<noteq> k \<Longrightarrow> members (rd_del R t k r) k' = members r k'"
    and del_alive: "up r \<Longrightarrow> up (rd_del R t k r)"
    and smembers: "up r \<Longrightarrow> \<exists>xs. rd_smembers R t k r = Some xs \<and> set xs = members r k"
    and sadd_members: "up r \<Longrightarrow>
          members (rd_sadd R t k v r) k' = (if k' = k then insert v (members r k) else members r k')"
    and sadd_sess: "up r \<Longrightarrow> sess t' (rd_sadd R t k v r) k' = sess t' r k'"
    and sadd_up: "up r \<Longrightarrow> up (rd_sadd R t k v r)"
    and srem_members: "up r \<Longrightarrow>
          members (rd_srem R t k v r) k' = (if k' = k then members r k - {v} else members r k')"
    and srem_sess: "up r \<Longrightarrow> sess t' (rd_srem R t k v r) k' = sess t' r k'"
    and srem_up: "up r \<Longrightarrow> up (rd_srem R t k v r)"
begin

lemma set_ex_get: "up r \<Longrightarrow> t \<le> t' \<Longrightarrow> t' < t + s * 1000000 \<Longrightarrow>
    rd_get_str R t' k (rd_set_ex R t k v s r) = Some (Some v)"
  by (simp add: get_str set_ex set_ex_up)

lemma del_get: "up r \<Longrightarrow> t \<le> t' \<Longrightarrow> rd_get_str R t' k (rd_del R t k r) = Some None"
  by (simp add: get_str del_sess del_alive)

end

text \<open>
  \<open>entries t r k\<close>: the members, each with its score, of the sorted set under the key \<open>k\<close>.
  Trimming removes the scores between its bounds, both included, and counts what is left.
\<close>

locale redis_windows =
  fixes R :: "'r redis_ops"
    and up :: "'r \<Rightarrow> bool"
    and entries :: "int \<Rightarrow> 'r \<Rightarrow> str \<Rightarrow> (str \<times> int) set"
  assumes entries_finite: "up r \<Longrightarrow> finite (entries t r k)"
    and trim_count: "up r \<Longrightarrow> fst (rd_trim_window R t k lo hi r) =
          Some (int (card {p \<in> entries t r k. \<not> (lo \<le> snd p \<and> snd p \<le> hi)}))"
    and trim_entries: "up r \<Longrightarrow> t \<le> t' \<Longrightarrow> entries t' (snd (rd_trim_window R t k lo hi r)) k =
          {p \<in> entries t' r k. \<not> (lo \<le> snd p \<and> snd p \<le> hi)}"
    and trim_up: "up r \<Longrightarrow> up (snd (rd_trim_window R t k lo hi r))"
    and add_entries: "up r \<Longrightarrow> t \<le> t' \<Longrightarrow> entries t' (rd_add_member R t k m x s r) k =
          (if t' < t + s * 1000000 then insert (m, x) {p \<in> entries t r k. fst p \<noteq> m} else {})"
    and add_up: "up r \<Longrightarrow> up (rd_add_member R t k m x s r)"

section \<open>An executable store\<close>

record kv =
  kv_ints :: "(str \<times> int \<times> int option) list"
  kv_strs :: "(str \<times> str \<times> int) list"
  kv_sets :: "(str \<times> str list) list"
  kv_zsets :: "(str \<times> (str \<times> int) list \<times> int) list"

definition kv_empty :: kv where
  "kv_empty = \<lparr>kv_ints = [], kv_strs = [], kv_sets = [], kv_zsets = []\<rparr>"

definition put :: "'k \<Rightarrow> 'v \<Rightarrow> ('k \<times> 'v) list \<Rightarrow> ('k \<times> 'v) list" where
  "put k v xs = (k, v) # filter (\<lambda>p. fst p \<noteq> k) xs"

definition drop_key :: "'k \<Rightarrow> ('k \<times> 'v) list \<Rightarrow> ('k \<times> 'v) list" where
  "drop_key k xs = filter (\<lambda>p. fst p \<noteq> k) xs"

lemma map_of_drop_key [simp]: "map_of (drop_key k xs) k' = (if k' = k then None else map_of xs k')"
  unfolding drop_key_def by (induction xs) auto

lemma map_of_put [simp]: "map_of (put k v xs) k' = (if k' = k then Some v else map_of xs k')"
  using map_of_drop_key [of k xs k'] by (simp add: put_def drop_key_def)

definition kv_count :: "int \<Rightarrow> kv \<Rightarrow> str \<Rightarrow> int option" where
  "kv_count t r k = (case map_of (kv_ints r) k of None \<Rightarrow> None
     | Some (v, None) \<Rightarrow> Some v
     | Some (v, Some d) \<Rightarrow> if t < d then Some v else None)"

definition kv_incr :: "int \<Rightarrow> str \<Rightarrow> int \<Rightarrow> kv \<Rightarrow> int option \<times> kv" where
  "kv_incr t k n r =
     (let v = var_or (kv_count t r k) 0 + n;
          d = (case kv_count t r k of None \<Rightarrow> None | Some _ \<Rightarrow> Option.bind (map_of (kv_ints r) k) snd)
      in if in_i64 v then (Some v, r\<lparr>kv_ints := put k (v, d) (kv_ints r)\<rparr>) else (None, r))"

definition kv_expire :: "int \<Rightarrow> str \<Rightarrow> int \<Rightarrow> kv \<Rightarrow> kv" where
  "kv_expire t k s r = (case kv_count t r k of None \<Rightarrow> r
     | Some v \<Rightarrow> r\<lparr>kv_ints := put k (v, Some (t + s * 1000000)) (kv_ints r)\<rparr>)"

definition kv_del :: "int \<Rightarrow> str \<Rightarrow> kv \<Rightarrow> kv" where
  "kv_del t k r = \<lparr>kv_ints = drop_key k (kv_ints r), kv_strs = drop_key k (kv_strs r),
     kv_sets = drop_key k (kv_sets r), kv_zsets = drop_key k (kv_zsets r)\<rparr>"

definition kv_sess :: "int \<Rightarrow> kv \<Rightarrow> str \<Rightarrow> str option" where
  "kv_sess t r k = (case map_of (kv_strs r) k of None \<Rightarrow> None
     | Some (v, d) \<Rightarrow> if t < d then Some v else None)"

definition kv_members :: "kv \<Rightarrow> str \<Rightarrow> str list" where
  "kv_members r k = var_or (map_of (kv_sets r) k) []"

definition kv_zset :: "int \<Rightarrow> kv \<Rightarrow> str \<Rightarrow> (str \<times> int) list" where
  "kv_zset t r k = (case map_of (kv_zsets r) k of None \<Rightarrow> []
     | Some (m, d) \<Rightarrow> if t < d then m else [])"

definition kv_entries :: "int \<Rightarrow> kv \<Rightarrow> str \<Rightarrow> (str \<times> int) set" where
  "kv_entries t r k = set (kv_zset t r k)"

definition kv_trim :: "int \<Rightarrow> str \<Rightarrow> int \<Rightarrow> int \<Rightarrow> kv \<Rightarrow> int option \<times> kv" where
  "kv_trim t k lo hi r =
     (let m = filter (\<lambda>p. \<not> (lo \<le> snd p \<and> snd p \<le> hi)) (kv_zset t r k);
          d = (case map_of (kv_zsets r) k of None \<Rightarrow> t | Some (_, d) \<Rightarrow> d)
      in (Some (int (length (remdups m))), r\<lparr>kv_zsets := put k (m, d) (kv_zsets r)\<rparr>))"

definition kv_add :: "int \<Rightarrow> str \<Rightarrow> str \<Rightarrow> int \<Rightarrow> int \<Rightarrow> kv \<Rightarrow> kv" where
  "kv_add t k m x s r =
     r\<lparr>kv_zsets := put k (put m x (kv_zset t r k), t + s * 1000000) (kv_zsets r)\<rparr>"

definition kv_ops :: "kv redis_ops" where
  "kv_ops =
     \<lparr>rd_get_i64 = (\<lambda>t k r. kv_count t r k),
      rd_get_str = (\<lambda>t k r. Some (kv_sess t r k)),
      rd_incr = kv_incr,
      rd_expire = kv_expire,
      rd_del = kv_del,
      rd_set_ex = (\<lambda>t k v s r. r\<lparr>kv_strs := put k (v, t + s * 1000000) (kv_strs r)\<rparr>),
      rd_sadd = (\<lambda>t k v r. r\<lparr>kv_sets := put k (v # kv_members r k) (kv_sets r)\<rparr>),
      rd_srem = (\<lambda>t k v r. r\<lparr>kv_sets := put k (filter (\<lambda>x. x \<noteq> v) (kv_members r k)) (kv_sets r)\<rparr>),
      rd_smembers = (\<lambda>t k r. Some (kv_members r k)),
      rd_trim_window = kv_trim,
      rd_add_member = kv_add\<rparr>"

interpretation kvc: redis_counters kv_ops "\<lambda>_. True" kv_count
proof unfold_locales
  fix t t' s v n :: int and k k' :: str and r :: kv
  show "rd_get_i64 kv_ops t k r = kv_count t r k"
    by (simp add: kv_ops_def)
  assume "in_i64 (var_or (kv_count t r k) 0 + n)"
  then show "fst (rd_incr kv_ops t k n r) = Some (var_or (kv_count t r k) 0 + n)"
    and "kv_count t (snd (rd_incr kv_ops t k n r)) k = Some (var_or (kv_count t r k) 0 + n)"
    by (auto simp: kv_ops_def kv_incr_def Let_def kv_count_def
          split: option.splits prod.splits if_splits)
next
  fix t t' s v n :: int and k k' :: str and r :: kv
  assume "k' \<noteq> k"
  then show "kv_count t' (snd (rd_incr kv_ops t k n r)) k' = kv_count t' r k'"
    and "kv_count t' (rd_expire kv_ops t k s r) k' = kv_count t' r k'"
    and "kv_count t' (rd_del kv_ops t k r) k' = kv_count t' r k'"
    by (auto simp: kv_ops_def kv_incr_def kv_expire_def kv_del_def kv_count_def Let_def
          split: option.splits)
next
  fix t t' s v n :: int and k k' :: str and r :: kv
  assume "kv_count t r k = Some v" "t \<le> t'"
  then show "kv_count t' (rd_expire kv_ops t k s r) k = (if t' < t + s * 1000000 then Some v else None)"
    by (simp add: kv_ops_def kv_expire_def) (simp add: kv_count_def)
next
  fix t t' :: int and k :: str and r :: kv
  show "kv_count t' (rd_del kv_ops t k r) k = None"
    by (simp add: kv_ops_def kv_del_def kv_count_def)
qed simp_all

interpretation kvs: redis_sessions kv_ops "\<lambda>_. True" kv_sess "\<lambda>r k. set (kv_members r k)"
  by unfold_locales
    (auto simp: kv_ops_def kv_sess_def kv_members_def kv_del_def var_or_def split: option.splits)

interpretation kvw: redis_windows kv_ops "\<lambda>_. True" kv_entries
proof unfold_locales
  fix t t' s x lo hi :: int and k m :: str and r :: kv
  show "finite (kv_entries t r k)" by (simp add: kv_entries_def)
  show "fst (rd_trim_window kv_ops t k lo hi r) =
      Some (int (card {p \<in> kv_entries t r k. \<not> (lo \<le> snd p \<and> snd p \<le> hi)}))"
    by (simp add: kv_ops_def kv_trim_def kv_entries_def Let_def length_remdups_card_conv)
  assume "t \<le> t'"
  then show "kv_entries t' (snd (rd_trim_window kv_ops t k lo hi r)) k =
      {p \<in> kv_entries t' r k. \<not> (lo \<le> snd p \<and> snd p \<le> hi)}"
    by (auto simp: kv_ops_def kv_trim_def kv_entries_def kv_zset_def Let_def
          split: option.splits if_splits)
  from \<open>t \<le> t'\<close> show "kv_entries t' (rd_add_member kv_ops t k m x s r) k =
      (if t' < t + s * 1000000 then insert (m, x) {p \<in> kv_entries t r k. fst p \<noteq> m} else {})"
    by (auto simp: kv_ops_def kv_add_def kv_entries_def kv_zset_def put_def)
qed simp_all

end
