(* ===== verification/Pin.thy ===== *)
theory Pin
  imports RateLimit
begin

text \<open>
  The transaction PIN (\<open>src/core/pin.rs\<close>): hashing, verification, and the guard that every
  money-committing operation runs first, with its failure counter in Redis.
\<close>

definition MAX_PIN_FAILURES :: int where "MAX_PIN_FAILURES = 5"
definition PIN_LOCKOUT_SECONDS :: int where "PIN_LOCKOUT_SECONDS = 900"

definition hash_pin :: "'r platform \<Rightarrow> str \<Rightarrow> str \<Rightarrow> app_error + str" where
  "hash_pin P slt pin = map_err (\<lambda>e. Internal (''Failed to hash PIN: '' @ e)) (argon2_hash P slt pin)"

definition verify_pin_hash :: "'r platform \<Rightarrow> str \<Rightarrow> str \<Rightarrow> app_error + bool" where
  "verify_pin_hash P pin pin_hash_str =
     (case phc_new P pin_hash_str of
        Some e \<Rightarrow> Inl (Internal (''Invalid PIN hash format: '' @ e))
      | None \<Rightarrow> Inr (argon2_verify P pin pin_hash_str))"

definition pin_key :: "'r platform \<Rightarrow> uuid \<Rightarrow> str" where
  "pin_key P user_id = ''pf:'' @ uuid_to_string P user_id"

definition pin_locked :: app_error where
  "pin_locked = RateLimited
     ''Transaction PIN is locked due to multiple failed attempts. Please try again in 15 minutes.''"

definition pin_locked_now :: app_error where
  "pin_locked_now = RateLimited
     ''Transaction PIN has been locked after 5 failed attempts. Please try again in 15 minutes.''"

definition pin_incorrect :: app_error where
  "pin_incorrect = Unprocessable ''Transaction PIN is incorrect''"

text \<open>The branch of a wrong PIN: count it, log it, and report the lock or the error.\<close>

definition pin_failure :: "'r platform \<Rightarrow> draws \<Rightarrow> uuid \<Rightarrow> ('r, unit) service" where
  "pin_failure P D user_id =
     bnd (redis_call (rd_incr (rds P) (clock D 1) (pin_key P user_id) 1)) (\<lambda>reply.
     let new_failures = var_or reply 1 in
     thn (redis_write (rd_expire (rds P) (clock D 2) (pin_key P user_id) PIN_LOCKOUT_SECONDS))
     (thn (discard (log_event (clock D 3) ''auth'' user_id ''pin_failed'' (Some user_id)
             ''Incorrect transaction PIN entered''
             (JObj [(''failure_count'', JInt new_failures)])))
     (if new_failures \<ge> MAX_PIN_FAILURES then throw pin_locked_now else throw pin_incorrect)))"

definition enforce_user_pin :: "'r platform \<Rightarrow> draws \<Rightarrow> uuid \<Rightarrow> str \<Rightarrow> ('r, unit) service" where
  "enforce_user_pin P D user_id provided_pin =
     bnd (redis_read (\<lambda>r. var_or (rd_get_i64 (rds P) (clock D 0) (pin_key P user_id) r) 0)) (\<lambda>failures.
     thn (guard (\<not> failures \<ge> MAX_PIN_FAILURES) pin_locked)
     (bnd (pool_fetch (\<lambda>d. map_option u_pin_hash (find (\<lambda>u. u_id u = user_id) (users d)))) (\<lambda>row.
      bnd (lift (ok_or row (NotFound ''User not found''))) (\<lambda>pin_hash.
      bnd (lift (verify_pin_hash P provided_pin pin_hash)) (\<lambda>is_valid.
      if \<not> is_valid then pin_failure P D user_id
      else redis_write (rd_del (rds P) (clock D 4) (pin_key P user_id)))))))"

section \<open>Frame and soundness\<close>

lemma keeps_db_pin:
  assumes "\<And>d new. I d \<Longrightarrow> I (d\<lparr>events := events d @ new\<rparr>)"
  shows "keeps (\<lambda>w. I (db w)) (enforce_user_pin P D u pin)"
  unfolding enforce_user_pin_def pin_failure_def Let_def
  by (intro keeps_rules keeps_db_log_event) (rule assms)

text \<open>
  A PIN check that succeeds has found the user, has verified the PIN against the stored hash
  and found fewer than five failures on record; it leaves the database as it was.
\<close>

lemma enforce_user_pin_Ok:
  assumes "enforce_user_pin P D u pin w = (Inr (), w')"
  shows "\<exists>row. find (\<lambda>x. u_id x = u) (users (db w)) = Some row \<and> phc_new P (u_pin_hash row) = None \<and>
           argon2_verify P pin (u_pin_hash row)"
    and "var_or (rd_get_i64 (rds P) (clock D 0) (pin_key P u) (redis w)) 0 < MAX_PIN_FAILURES"
    and "db w' = db w"
    and "redis w' = rd_del (rds P) (clock D 4) (pin_key P u) (redis w)"
proof -
  have nofail: "\<not> pin_failure P D u s = (Inr (), s')" for s s'
    by (auto simp: pin_failure_def monad_simps Let_def split: prod.splits sum.splits)
  let ?q = "\<lambda>d. map_option u_pin_hash (find (\<lambda>x. u_id x = u) (users d))"
  from assms obtain row h w1 where
    *: "\<not> var_or (rd_get_i64 (rds P) (clock D 0) (pin_key P u) (redis w)) 0 \<ge> MAX_PIN_FAILURES"
    and f: "pool_fetch ?q w = (Inr row, w1)" and h: "row = Some h"
    and v: "verify_pin_hash P pin h = Inr True"
    and w': "w' = w1\<lparr>redis := rd_del (rds P) (clock D 4) (pin_key P u) (redis w1)\<rparr>"
    using nofail unfolding enforce_user_pin_def
    by (auto simp: prog_Inr_iff redis_run split: if_splits)
  have 1: "?q (db w) = row" "db w1 = db w" using pool_fetch_Ok [OF f] by auto
  have 2: "redis w1 = redis w" using f pool_frame unfolding pool_fetch_def by blast
  from 1 h v show "\<exists>row. find (\<lambda>x. u_id x = u) (users (db w)) = Some row \<and>
      phc_new P (u_pin_hash row) = None \<and> argon2_verify P pin (u_pin_hash row)"
    by (auto simp: verify_pin_hash_def split: option.splits)
  from * show "var_or (rd_get_i64 (rds P) (clock D 0) (pin_key P u) (redis w)) 0 < MAX_PIN_FAILURES"
    by simp
  from w' 1(2) 2 show "db w' = db w"
    and "redis w' = rd_del (rds P) (clock D 4) (pin_key P u) (redis w)" by simp_all
qed

text \<open>Whatever it answers, a PIN check only ever appends to the audit log.\<close>

lemma enforce_user_pin_db:
  assumes "enforce_user_pin P D u pin w = (r, w')"
  shows "only_events (db w) (db w')"
proof -
  have "keeps (\<lambda>w'. only_events (db w) (db w')) (enforce_user_pin P D u pin)"
  proof (rule keeps_db_pin)
    fix d new assume "only_events (db w) d"
    then show "only_events (db w) (d\<lparr>events := events d @ new\<rparr>)"
      unfolding only_events_def by (metis append_assoc database.surjective
          database.select_convs(7) database.update_convs(7))
  qed
  from keepsD [OF this, of w] assms show ?thesis by simp
qed

end
