(* ===== verification/Users.thy ===== *)
theory Users
  imports Pin
begin

text \<open>
  Users (\<open>src/features/users\<close>): phone normalisation, the resolution of a recipient from an
  id, an account number or a phone, and the profile, search and public look-ups.  \<open>ILIKE\<close>
  and \<open>similarity\<close> belong to PostgreSQL and its trigram extension: they are parameters.
\<close>

section \<open>Phone numbers\<close>

definition normalize_phone :: "str \<Rightarrow> str" where
  "normalize_phone raw =
     (let trimmed = trim raw; digits_only = filter is_digit trimmed in
      if starts_with digits_only ''01'' \<and> length digits_only = 11 then ''+88'' @ digits_only
      else if starts_with digits_only ''8801'' \<and> length digits_only = 13 then ''+'' @ digits_only
      else trimmed)"

section \<open>Recipients\<close>

definition counterparty_inactive :: app_error where
  "counterparty_inactive = Unprocessable ''Counterparty account is inactive or suspended''"

definition active_id :: "user_row \<Rightarrow> app_error + uuid" where
  "active_id r = (if u_status r \<noteq> ''active'' then Inl counterparty_inactive else Inr (u_id r))"

text \<open>
  \<open>WHERE account_number = $1 OR phone = $1 OR phone = $2
  ORDER BY (account_number = $1) DESC, (phone = $2) DESC LIMIT 1\<close>.
\<close>

definition recipient_rank :: "str \<Rightarrow> str \<Rightarrow> user_row \<Rightarrow> nat" where
  "recipient_rank a p u =
     (if u_account_number u = a then 0 else 2) + (if u_phone u = p then 0 else 1)"

definition select_recipient :: "str \<Rightarrow> str \<Rightarrow> database \<Rightarrow> user_row option" where
  "select_recipient a p d =
     (case sort_key (recipient_rank a p)
        (filter (\<lambda>u. u_account_number u = a \<or> u_phone u = a \<or> u_phone u = p) (users d)) of
        [] \<Rightarrow> None | u # _ \<Rightarrow> Some u)"

definition resolve_by_text :: "str \<Rightarrow> ('r, uuid) service" where
  "resolve_by_text trimmed =
     bnd (pool_fetch (select_recipient trimmed (normalize_phone trimmed))) (\<lambda>row.
     case row of
       Some r \<Rightarrow> lift (active_id r)
     | None \<Rightarrow> throw (NotFound ''Recipient not found''))"

definition resolve_recipient_user :: "'r platform \<Rightarrow> str \<Rightarrow> ('r, uuid) service" where
  "resolve_recipient_user P identifier =
     (let trimmed = trim identifier in
      case uuid_from_str P trimmed of
        Some i \<Rightarrow>
          bnd (pool_fetch (\<lambda>d. find (\<lambda>u. u_id u = i) (users d))) (\<lambda>row.
          case row of Some r \<Rightarrow> lift (active_id r) | None \<Rightarrow> resolve_by_text trimmed)
      | None \<Rightarrow> resolve_by_text trimmed)"

section \<open>Look-ups\<close>

record user_profile =
  up_id :: uuid
  up_name :: str
  up_phone :: str
  up_account_number :: str
  up_balance :: str
  up_created_at :: int

definition get_me :: "uuid \<Rightarrow> ('r, user_profile) service" where
  "get_me me =
     bnd (pool_fetch (\<lambda>d. Option.bind (find (\<lambda>u. u_id u = me) (users d)) (\<lambda>u.
            map_option (\<lambda>b. (u, b)) (find (\<lambda>b. b_user_id b = u_id u) (balances d))))) (\<lambda>row.
     bnd (lift (ok_or row (NotFound ''User not found''))) (\<lambda>(u, b).
     ret \<lparr>up_id = u_id u, up_name = u_name u, up_phone = u_phone u,
          up_account_number = u_account_number u, up_balance = show_int (b_amount_paisa b),
          up_created_at = u_created_at u\<rparr>))"

record user_lookup =
  ul_id :: uuid
  ul_name :: str
  ul_account_number :: str
  ul_phone :: str

definition lookup_users ::
  "(str \<Rightarrow> str \<Rightarrow> bool) \<Rightarrow> (str \<Rightarrow> str \<Rightarrow> int) \<Rightarrow> str option \<Rightarrow> ('r, user_lookup list) service" where
  "lookup_users ilike_contains similarity qry =
     (let q = trim (var_or qry []) in
      if q = [] then ret []
      else bnd (pool_fetch (\<lambda>d.
             take 10 (sort_key (\<lambda>u. if u_phone u = q \<or> u_account_number u = q then 0 else (1::nat))
                       (sort_key (\<lambda>u. - similarity (u_name u) q)
                         (filter (\<lambda>u. u_phone u = q \<or> u_account_number u = q \<or>
                            ilike_contains (u_name u) q) (users d)))))) (\<lambda>rows.
           ret (map (\<lambda>u. \<lparr>ul_id = u_id u, ul_name = u_name u,
                         ul_account_number = u_account_number u, ul_phone = u_phone u\<rparr>) rows)))"

record public_user =
  pu_name :: str
  pu_account_number :: str

definition get_public_user :: "str \<Rightarrow> ('r, public_user) service" where
  "get_public_user account_number =
     (let clean_acc = trim account_number in
      bnd (pool_fetch (\<lambda>d. find (\<lambda>u. u_account_number u = clean_acc) (users d))) (\<lambda>row.
      bnd (lift (ok_or row (NotFound ''User not found''))) (\<lambda>u.
      ret \<lparr>pu_name = u_name u, pu_account_number = u_account_number u\<rparr>)))"

section \<open>Proofs\<close>

lemma hd_sort_key:
  assumes "xs \<noteq> []"
  shows "hd (sort_key f xs) \<in> set xs" and "\<forall>y \<in> set xs. f (hd (sort_key f xs)) \<le> f y"
proof -
  obtain z zs where s: "sort_key f xs = z # zs"
    using assms by (metis list.exhaust set_empty set_sort)
  have "set (z # zs) = set xs" using s by (metis set_sort)
  then show "hd (sort_key f xs) \<in> set xs" using s by auto
  have "sorted (map f (z # zs))" using s by (metis sorted_sort_key)
  with \<open>set (z # zs) = set xs\<close> s show "\<forall>y \<in> set xs. f (hd (sort_key f xs)) \<le> f y"
    by auto
qed

lemma select_recipient_Some:
  assumes "select_recipient a p d = Some u"
  shows "u \<in> set (users d)" and "u_account_number u = a \<or> u_phone u = a \<or> u_phone u = p"
    and "\<forall>v \<in> set (users d). u_account_number v = a \<or> u_phone v = a \<or> u_phone v = p \<longrightarrow>
           recipient_rank a p u \<le> recipient_rank a p v"
proof -
  let ?xs = "filter (\<lambda>u. u_account_number u = a \<or> u_phone u = a \<or> u_phone u = p) (users d)"
  from assms have u: "u = hd (sort_key (recipient_rank a p) ?xs)"
    and ne: "sort_key (recipient_rank a p) ?xs \<noteq> []"
    by (auto simp: select_recipient_def split: list.splits)
  from ne have "?xs \<noteq> []" by auto
  from hd_sort_key [OF this, of "recipient_rank a p"] u
  show "u \<in> set (users d)" "u_account_number u = a \<or> u_phone u = a \<or> u_phone u = p"
    "\<forall>v \<in> set (users d). u_account_number v = a \<or> u_phone v = a \<or> u_phone v = p \<longrightarrow>
       recipient_rank a p u \<le> recipient_rank a p v"
    by auto
qed

lemma select_recipient_None:
  "select_recipient a p d = None \<longleftrightarrow>
     (\<forall>u \<in> set (users d). \<not> (u_account_number u = a \<or> u_phone u = a \<or> u_phone u = p))"
proof -
  let ?xs = "filter (\<lambda>u. u_account_number u = a \<or> u_phone u = a \<or> u_phone u = p) (users d)"
  have "sort_key (recipient_rank a p) ?xs = [] \<longleftrightarrow> ?xs = []"
    by (simp only: set_empty [symmetric] set_sort)
  moreover have "select_recipient a p d = None \<longleftrightarrow> sort_key (recipient_rank a p) ?xs = []"
    unfolding select_recipient_def by (cases "sort_key (recipient_rank a p) ?xs") simp_all
  ultimately show ?thesis by (simp add: filter_empty_conv)
qed

text \<open>An account number beats a phone, and the normalised phone beats the phone as typed.\<close>

lemma select_recipient_account:
  assumes "distinct (map u_account_number (users d))" "u \<in> set (users d)" "u_account_number u = a"
  shows "select_recipient a p d = Some u"
proof (cases "select_recipient a p d")
  case None
  with assms show ?thesis by (auto simp: select_recipient_None)
next
  case (Some v)
  note s = select_recipient_Some [OF Some]
  from s(3) assms(2,3) have "recipient_rank a p v \<le> recipient_rank a p u" by blast
  with assms(3) have "u_account_number v = a" by (auto simp: recipient_rank_def split: if_splits)
  with assms s(1) have "v = u" by (metis distinct_map inj_onD)
  with Some show ?thesis by simp
qed

lemma select_recipient_normalized:
  assumes "distinct (map u_phone (users d))" "u \<in> set (users d)" "u_phone u = p"
    and "\<forall>v \<in> set (users d). u_account_number v \<noteq> a"
  shows "select_recipient a p d = Some u"
proof (cases "select_recipient a p d")
  case None
  with assms show ?thesis by (auto simp: select_recipient_None)
next
  case (Some v)
  note s = select_recipient_Some [OF Some]
  from s(3) assms(2,3) have "recipient_rank a p v \<le> recipient_rank a p u" by blast
  with assms(3,4) s(1) have "u_phone v = p" by (auto simp: recipient_rank_def split: if_splits)
  with assms s(1) have "v = u" by (metis distinct_map inj_onD)
  with Some show ?thesis by simp
qed

text \<open>A recipient that is resolved is an active user; resolving writes nothing.\<close>

lemma active_id_Inr: "active_id r = Inr i \<longleftrightarrow> u_status r = ''active'' \<and> i = u_id r"
  by (auto simp: active_id_def)

lemma resolve_by_text_Ok:
  assumes "resolve_by_text s w = (Inr i, w')"
  shows "\<exists>u. select_recipient s (normalize_phone s) (db w) = Some u \<and> u_id u = i \<and>
           u_status u = ''active''" and "db w' = db w"
proof -
  from assms obtain r w1 where f: "pool_fetch (select_recipient s (normalize_phone s)) w = (Inr (Some r), w1)"
    and a: "active_id r = Inr i" and w': "w' = w1"
    by (auto simp: resolve_by_text_def prog_Inr_iff split: option.splits)
  from pool_fetch_Ok [OF f] a w' show "\<exists>u. select_recipient s (normalize_phone s) (db w) = Some u \<and>
      u_id u = i \<and> u_status u = ''active''" and "db w' = db w"
    by (auto simp: active_id_Inr)
qed

lemma resolve_recipient_user_Ok:
  assumes "resolve_recipient_user P s w = (Inr i, w')"
  shows "\<exists>u \<in> set (users (db w)). u_id u = i \<and> u_status u = ''active'' \<and>
           (uuid_from_str P (trim s) = Some i \<or>
            select_recipient (trim s) (normalize_phone (trim s)) (db w) = Some u)"
    and "db w' = db w"
proof -
  have both: "(\<exists>u \<in> set (users (db w)). u_id u = i \<and> u_status u = ''active'' \<and>
           (uuid_from_str P (trim s) = Some i \<or>
            select_recipient (trim s) (normalize_phone (trim s)) (db w) = Some u)) \<and> db w' = db w"
  proof (cases "uuid_from_str P (trim s)")
    case None
    with assms have "resolve_by_text (trim s) w = (Inr i, w')"
      by (simp add: resolve_recipient_user_def Let_def)
    with resolve_by_text_Ok [OF this] select_recipient_Some(1) show ?thesis by blast
  next
    case (Some j)
    with assms obtain row w1 where
      f: "pool_fetch (\<lambda>d. find (\<lambda>u. u_id u = j) (users d)) w = (Inr row, w1)"
      and k: "(case row of Some r \<Rightarrow> lift (active_id r) | None \<Rightarrow> resolve_by_text (trim s)) w1 = (Inr i, w')"
      by (auto simp: resolve_recipient_user_def Let_def prog_Inr_iff)
    note p = pool_fetch_Ok [OF f]
    show ?thesis
    proof (cases row)
      case None
      with k have "resolve_by_text (trim s) w1 = (Inr i, w')" by simp
      with resolve_by_text_Ok [OF this] p select_recipient_Some(1) show ?thesis by metis
    next
      case (Some r)
      with p have r: "r \<in> set (users (db w))" "u_id r = j" by (auto dest: find_Some_in)
      from Some k have "u_status r = ''active''" "i = u_id r" "w' = w1"
        by (simp_all add: lift_run active_id_Inr)
      with r p \<open>uuid_from_str P (trim s) = Some j\<close> show ?thesis by blast
    qed
  qed
  then show "\<exists>u \<in> set (users (db w)). u_id u = i \<and> u_status u = ''active'' \<and>
           (uuid_from_str P (trim s) = Some i \<or>
            select_recipient (trim s) (normalize_phone (trim s)) (db w) = Some u)"
    and "db w' = db w" by blast+
qed

lemma keeps_db_resolve [keeps_rules]:
  "keeps (\<lambda>w. I (db w)) (resolve_recipient_user P s)"
  unfolding resolve_recipient_user_def resolve_by_text_def Let_def by (intro keeps_rules)

end
