(* ===== verification/Books.thy ===== *)
theory Books
  imports Users
begin

text \<open>
  The bookkeeping that every movement of money shares: the rows the services append, how they
  read the two balances they lock, the invariant \<open>books\<close> of the database (the three contracts
  of \<open>src/features/reconcile/service.rs\<close> and the agreement of the four money tables), and the
  interface \<open>money_movement\<close>, under which that invariant is proved once for every mover.
\<close>

section \<open>Rows\<close>

definition SEED_BALANCE_PAISA :: int where "SEED_BALANCE_PAISA = 10000000"

definition ledger_entry ::
  "int \<Rightarrow> uuid \<Rightarrow> str \<Rightarrow> uuid \<Rightarrow> uuid option \<Rightarrow> int \<Rightarrow> int \<Rightarrow> int \<Rightarrow> str \<Rightarrow> uuid option \<Rightarrow> ledger_row" where
  "ledger_entry now txn_id reference user counterparty direction amount running kind key =
     \<lparr>l_id = 0, l_txn_id = txn_id, l_reference = reference, l_user_id = user,
      l_counterparty_id = counterparty, l_direction = direction, l_amount_paisa = amount,
      l_running_balance = running, l_kind = kind, l_idempotency_key = key, l_created_at = now\<rparr>"

definition history_entry ::
  "int \<Rightarrow> uuid \<Rightarrow> str \<Rightarrow> str \<Rightarrow> str \<Rightarrow> int \<Rightarrow> int \<Rightarrow> uuid option \<Rightarrow> str \<Rightarrow> uuid option \<Rightarrow> str \<Rightarrow>
     uuid option \<Rightarrow> history_row" where
  "history_entry now user status kind direction amount balance counterparty reference entity note key =
     \<lparr>h_id = 0, h_user_id = user, h_status = status, h_kind = kind, h_direction = direction,
      h_amount_paisa = amount, h_balance_after = balance, h_counterparty_id = counterparty,
      h_reference = reference, h_entity_id = entity, h_note = note, h_idempotency_key = key,
      h_created_at = now\<rparr>"

text \<open>\<open>SELECT .. FROM balances WHERE user_id IN ($1, $2) ORDER BY user_id ASC FOR UPDATE\<close>.\<close>

definition balances_for_update :: "uuid \<Rightarrow> uuid \<Rightarrow> database \<Rightarrow> balance_row list" where
  "balances_for_update first second d =
     sort_key b_user_id (filter (\<lambda>b. b_user_id b = first \<or> b_user_id b = second) (balances d))"

text \<open>The loop over the locked rows: the last row of each of the two users wins.\<close>

definition pick_balances :: "uuid \<Rightarrow> uuid \<Rightarrow> balance_row list \<Rightarrow> int option \<times> int option" where
  "pick_balances a b rows =
     foldl (\<lambda>(x, y) row. if b_user_id row = a then (Some (b_amount_paisa row), y)
                         else if b_user_id row = b then (x, Some (b_amount_paisa row))
                         else (x, y)) (None, None) rows"


lemma pick_balances_snoc:
  "pick_balances a b (rows @ [row]) =
     (case pick_balances a b rows of (x, y) \<Rightarrow>
        if b_user_id row = a then (Some (b_amount_paisa row), y)
        else if b_user_id row = b then (x, Some (b_amount_paisa row)) else (x, y))"
  by (simp add: pick_balances_def split: prod.splits)

lemma pick_balances_sound:
  assumes "pick_balances a b rows = (x, y)"
  shows "x = Some v \<Longrightarrow> \<exists>r \<in> set rows. b_user_id r = a \<and> b_amount_paisa r = v"
    and "y = Some v \<Longrightarrow> \<exists>r \<in> set rows. b_user_id r = b \<and> b_amount_paisa r = v"
  using assms
proof (induction rows arbitrary: x y rule: rev_induct)
  case Nil
  { case 1 then show ?case by (simp add: pick_balances_def) }
  { case 2 then show ?case by (simp add: pick_balances_def) }
next
  case (snoc row rows)
  { case 1
    then show ?case using snoc.IH
      by (auto simp: pick_balances_snoc split: prod.splits if_splits) }
  { case 2
    then show ?case using snoc.IH
      by (auto simp: pick_balances_snoc split: prod.splits if_splits) }
qed

lemma pick_balances_complete:
  assumes "\<exists>r \<in> set rows. b_user_id r = a" "\<exists>r \<in> set rows. b_user_id r = b" "a \<noteq> b"
  shows "\<exists>v v'. pick_balances a b rows = (Some v, Some v')"
proof -
  have "(fst (pick_balances a b rows) \<noteq> None \<longleftrightarrow> (\<exists>r \<in> set rows. b_user_id r = a)) \<and>
        (snd (pick_balances a b rows) \<noteq> None \<longleftrightarrow> (\<exists>r \<in> set rows. b_user_id r = b))"
    using assms(3)
  proof (induction rows rule: rev_induct)
    case Nil
    then show ?case by (simp add: pick_balances_def)
  next
    case (snoc row rows)
    then show ?case by (auto simp: pick_balances_snoc split: prod.splits)
  qed
  with assms(1,2) show ?thesis by (cases "pick_balances a b rows") auto
qed

lemma set_balances_for_update:
  "set (balances_for_update x y d) = {b \<in> set (balances d). b_user_id b = x \<or> b_user_id b = y}"
  by (auto simp: balances_for_update_def)

lemma length_balances_for_update:
  assumes "distinct (map b_user_id (balances d))" "x \<noteq> y"
    "x \<in> set (map b_user_id (balances d))" "y \<in> set (map b_user_id (balances d))"
  shows "length (balances_for_update x y d) = 2"
proof -
  let ?f = "filter (\<lambda>b. b_user_id b = x \<or> b_user_id b = y) (balances d)"
  have "distinct (map b_user_id ?f)" using assms(1) by (rule distinct_map_filter)
  then have "length (map b_user_id ?f) = card (set (map b_user_id ?f))"
    by (rule distinct_card [symmetric])
  also have "set (map b_user_id ?f) = {x, y}" using assms(3,4) by auto
  finally show ?thesis using assms(2) by (simp add: balances_for_update_def)
qed

section \<open>The invariant\<close>

definition user_ledger :: "database \<Rightarrow> uuid \<Rightarrow> ledger_row list" where
  "user_ledger d u = filter (\<lambda>l. l_user_id l = u) (ledger d)"

definition delta :: "ledger_row \<Rightarrow> int" where
  "delta l = l_direction l * l_amount_paisa l"

text \<open>Each running balance is the one before it plus the row's own movement.\<close>

fun chain_from :: "int \<Rightarrow> ledger_row list \<Rightarrow> bool" where
  "chain_from _ [] = True"
| "chain_from prev (l # ls) = (l_running_balance l = prev + delta l \<and> chain_from (l_running_balance l) ls)"

fun last_running :: "int \<Rightarrow> ledger_row list \<Rightarrow> int" where
  "last_running prev [] = prev"
| "last_running prev (l # ls) = last_running (l_running_balance l) ls"

text \<open>The balance is the last running balance of an unbroken chain from zero; all are in range.\<close>

definition account_ok :: "database \<Rightarrow> balance_row \<Rightarrow> bool" where
  "account_ok d b \<longleftrightarrow> 0 \<le> b_amount_paisa b \<and> b_amount_paisa b \<le> i64_max \<and>
     chain_from 0 (user_ledger d (b_user_id b)) \<and>
     last_running 0 (user_ledger d (b_user_id b)) = b_amount_paisa b \<and>
     (\<forall>l \<in> set (user_ledger d (b_user_id b)). 0 \<le> l_running_balance l \<and> l_running_balance l \<le> i64_max)"

definition accounts_ok :: "database \<Rightarrow> bool" where
  "accounts_ok d \<longleftrightarrow> distinct (map u_id (users d)) \<and> distinct (map b_user_id (balances d)) \<and>
     set (map b_user_id (balances d)) = set (map u_id (users d)) \<and>
     (\<forall>b \<in> set (balances d). account_ok d b) \<and>
     (\<forall>l \<in> set (ledger d). is_user d (l_user_id l))"

definition total_balance :: "database \<Rightarrow> int" where
  "total_balance d = sum_list (map b_amount_paisa (balances d))"

text \<open>
  Double entry: the ledger is a sequence of funding rows and of pairs, a debit and the matching
  credit of one transaction between two different users.
\<close>

fun paired :: "ledger_row list \<Rightarrow> bool" where
  "paired [] = True"
| "paired (l # ls) =
     (if l_kind l = ''funding''
      then l_direction l = 1 \<and> l_counterparty_id l = None \<and> paired ls
      else (case ls of [] \<Rightarrow> False | m # ms \<Rightarrow>
         l_kind m \<noteq> ''funding'' \<and> l_direction l = -1 \<and> l_direction m = 1 \<and>
         l_txn_id m = l_txn_id l \<and> l_reference m = l_reference l \<and>
         l_amount_paisa m = l_amount_paisa l \<and> l_user_id l \<noteq> l_user_id m \<and>
         l_counterparty_id l = Some (l_user_id m) \<and> l_counterparty_id m = Some (l_user_id l) \<and>
         paired ms))"

text \<open>The completed transfers are the debits of the ledger, one for one and in order.\<close>

definition transfer_facts :: "transfer_row \<Rightarrow> uuid \<times> str \<times> uuid \<times> uuid option \<times> int \<times> uuid option" where
  "transfer_facts t = (t_id t, t_reference t, t_sender_id t, Some (t_recipient_id t),
     t_amount_paisa t, Some (t_idempotency_key t))"

definition debit_facts :: "ledger_row \<Rightarrow> uuid \<times> str \<times> uuid \<times> uuid option \<times> int \<times> uuid option" where
  "debit_facts l = (l_txn_id l, l_reference l, l_user_id l, l_counterparty_id l,
     l_amount_paisa l, l_idempotency_key l)"

definition transfers_agree :: "database \<Rightarrow> bool" where
  "transfers_agree d \<longleftrightarrow>
     map transfer_facts (filter (\<lambda>t. t_status t = ''completed'') (transfers d)) =
     map debit_facts (filter (\<lambda>l. l_direction l = -1) (ledger d))"

text \<open>The completed history is the ledger, row by row: the read model shows what was booked.\<close>

definition history_facts :: "history_row \<Rightarrow> uuid \<times> bool \<times> int \<times> int \<times> uuid option \<times> str" where
  "history_facts h = (h_user_id h, h_direction h = ''received'', h_amount_paisa h,
     h_balance_after h, h_counterparty_id h, h_reference h)"

definition ledger_facts :: "ledger_row \<Rightarrow> uuid \<times> bool \<times> int \<times> int \<times> uuid option \<times> str" where
  "ledger_facts l = (l_user_id l, l_direction l = 1, l_amount_paisa l,
     l_running_balance l, l_counterparty_id l, l_reference l)"

definition history_agrees :: "database \<Rightarrow> bool" where
  "history_agrees d \<longleftrightarrow>
     map history_facts (filter (\<lambda>h. h_status h = ''completed'') (history d)) =
     map ledger_facts (ledger d)"

text \<open>The serial ids of the ledger and the history count their rows.\<close>

definition serial_ids :: "int list \<Rightarrow> bool" where
  "serial_ids ids \<longleftrightarrow> ids = map int [1..<Suc (length ids)]"

lemma serial_ids_Nil [simp]: "serial_ids []"
  by (simp add: serial_ids_def)

lemma serial_ids_snoc [simp]: "serial_ids (ids @ [i]) \<longleftrightarrow> serial_ids ids \<and> i = int (length ids) + 1"
  by (auto simp: serial_ids_def)

lemma serial_ids_sorted: "serial_ids ids \<Longrightarrow> sorted_wrt (<) ids"
  unfolding serial_ids_def by (metis sorted_wrt_map_mono sorted_wrt_upt of_nat_less_iff)

definition serial_ok :: "database \<Rightarrow> bool" where
  "serial_ok d \<longleftrightarrow> serial_ids (map l_id (ledger d)) \<and> serial_ids (map h_id (history d))"

definition books :: "database \<Rightarrow> bool" where
  "books d \<longleftrightarrow> accounts_ok d \<and> total_balance d = SEED_BALANCE_PAISA * int (length (users d)) \<and>
     paired (ledger d) \<and> transfers_agree d \<and> history_agrees d \<and> serial_ok d"

lemma books_empty: "books empty_db"
  by (simp add: books_def accounts_ok_def total_balance_def transfers_agree_def history_agrees_def
      empty_db_def is_user_def serial_ok_def)

text \<open>\<open>books\<close> looks at five tables only.\<close>

definition same_money :: "database \<Rightarrow> database \<Rightarrow> bool" where
  "same_money d d' \<longleftrightarrow> users d' = users d \<and> balances d' = balances d \<and>
     transfers d' = transfers d \<and> ledger d' = ledger d \<and> history d' = history d"

lemma same_money_refl [simp]: "same_money d d"
  by (simp add: same_money_def)

lemma same_money_updates [simp]:
  "same_money d (d\<lparr>events := e\<rparr>)" "same_money d (d\<lparr>requests := r\<rparr>)"
  "same_money d (d\<lparr>links := l\<rparr>)" "same_money d (d\<lparr>notifications := n\<rparr>)"
  by (simp_all add: same_money_def)

lemma same_money_trans: "same_money d1 d2 \<Longrightarrow> same_money d2 d3 \<Longrightarrow> same_money d1 d3"
  by (simp add: same_money_def)

lemma same_money_books: "same_money d d' \<Longrightarrow> books d' = books d"
  by (simp add: same_money_def books_def accounts_ok_def account_ok_def user_ledger_def is_user_def
      total_balance_def transfers_agree_def history_agrees_def serial_ok_def)

lemma only_events_same_money: "only_events d d' \<Longrightarrow> same_money d d'"
  by (simp add: same_money_def only_events_eq)

subsection \<open>Appending to chains, pairs and agreements\<close>

lemma chain_from_snoc:
  "chain_from p (ls @ [l]) \<longleftrightarrow> chain_from p ls \<and> l_running_balance l = last_running p ls + delta l"
  by (induction ls arbitrary: p) auto

lemma last_running_snoc [simp]: "last_running p (ls @ [l]) = l_running_balance l"
  by (induction ls arbitrary: p) auto

lemma paired_append: "paired xs \<Longrightarrow> paired ys \<Longrightarrow> paired (xs @ ys)"
  by (induction xs rule: paired.induct) (auto split: list.splits if_splits)

lemma last_running_sum: "chain_from p ls \<Longrightarrow> last_running p ls = p + sum_list (map delta ls)"
  by (induction ls arbitrary: p) auto

text \<open>In a paired ledger, everything but the funding cancels out.\<close>

lemma paired_sum:
  "paired ls \<Longrightarrow> sum_list (map delta ls) =
     sum_list (map l_amount_paisa (filter (\<lambda>l. l_kind l = ''funding'') ls))"
  by (induction ls rule: paired.induct) (auto simp: delta_def split: list.splits if_splits)

end
