(* ===== verification/Movement.thy ===== *)
theory Movement
  imports Books
begin

text \<open>
  A movement of money, as the three movers perform it: two balance updates, a completed
  transfer, a debit and a credit in the ledger, and two history rows.  \<open>moves t d d'\<close> states the
  effect of the movement that the transfer row \<open>t\<close> records, and the interface
  \<open>money_movement\<close> asks of a mover that each of its successful runs is one.  The consequences
  (the books stay balanced, the total is conserved, only the two parties are touched) are proved
  in the interface; each mover's theory interprets it.
\<close>

section \<open>The effect\<close>

definition set_balance :: "int \<Rightarrow> int \<Rightarrow> balance_row \<Rightarrow> balance_row" where
  "set_balance now v b = b\<lparr>b_amount_paisa := v, b_version := b_version b + 1, b_updated_at := now\<rparr>"

lemma set_balance_simps [simp]:
  "b_user_id (set_balance now v b) = b_user_id b" "b_amount_paisa (set_balance now v b) = v"
  "b_version (set_balance now v b) = b_version b + 1"
  by (simp_all add: set_balance_def)

definition post_movement ::
  "int \<Rightarrow> transfer_row \<Rightarrow> str \<Rightarrow> str \<Rightarrow> str \<Rightarrow> int \<Rightarrow> int \<Rightarrow> database \<Rightarrow> database" where
  "post_movement now t kd kc hk vp vq d =
     (let p = t_sender_id t; q = t_recipient_id t; a = t_amount_paisa t; x = t_id t;
          ref = t_reference t; key = t_idempotency_key t; note = t_note t
      in d\<lparr>balances := update_where (\<lambda>b. b_user_id b = q) (set_balance now vq)
                         (update_where (\<lambda>b. b_user_id b = p) (set_balance now vp) (balances d)),
           transfers := transfers d @ [t],
           ledger := ledger d @
             [(ledger_entry now x ref p (Some q) (-1) a vp kd (Some key))\<lparr>l_id := next_serial (ledger d)\<rparr>,
              (ledger_entry now x ref q (Some p) 1 a vq kc (Some key))\<lparr>l_id := next_serial (ledger d) + 1\<rparr>],
           history := history d @
             [(history_entry now p ''completed'' hk ''sent'' a vp (Some q) ref (Some x) note (Some key))
                \<lparr>h_id := next_serial (history d)\<rparr>,
              (history_entry now q ''completed'' hk ''received'' a vq (Some p) ref (Some x) note (Some key))
                \<lparr>h_id := next_serial (history d) + 1\<rparr>]\<rparr>)"

section \<open>The statements\<close>

text \<open>The seven statements, in the order in which every mover sends them.\<close>

lemma next_serial_snoc [simp]: "next_serial (xs @ [x]) = next_serial xs + 1"
  by (simp add: next_serial_def)

lemma movement_statements:
  assumes "runs (thn (execute (update_balance now vp p))
     (thn (execute (update_balance now vq q))
     (thn (execute (insert_transfer \<lparr>t_id = x, t_reference = ref, t_sender_id = p, t_recipient_id = q,
        t_amount_paisa = a, t_note = note, t_status = st, t_idempotency_key = key, t_created_at = now\<rparr>))
     (thn (execute (insert_ledger (ledger_entry now x ref p (Some q) (-1) a vp kd (Some key))))
     (thn (execute (insert_ledger (ledger_entry now x ref q (Some p) 1 a vq kc (Some key))))
     (thn (execute (insert_history
        (history_entry now p ''completed'' hk ''sent'' a vp (Some q) ref (Some x) note (Some key))))
     (thn (execute (insert_history
        (history_entry now q ''completed'' hk ''received'' a vq (Some p) ref (Some x) note (Some key))))
     k))))))) d y d'"
    (is "runs (thn _ (thn _ (thn (execute (insert_transfer ?t)) _))) d y d'")
  shows "runs k (post_movement now ?t kd kc hk vp vq d) y d'"
    and "0 < a" and "p \<noteq> q" and "x \<notin> set (map t_id (transfers d))"
    and "key \<notin> set (map t_idempotency_key (transfers d))"
    and "p \<in> set (map b_user_id (balances d)) \<Longrightarrow> 0 \<le> vp"
    and "q \<in> set (map b_user_id (balances d)) \<Longrightarrow> 0 \<le> vq"
proof -
  from assms obtain d1 d2 d3 d4 d5 d6 d7 where
    1: "update_balance now vp p d = Inr d1" and 2: "update_balance now vq q d1 = Inr d2"
    and 3: "insert_transfer ?t d2 = Inr d3"
    and 4: "insert_ledger (ledger_entry now x ref p (Some q) (-1) a vp kd (Some key)) d3 = Inr d4"
    and 5: "insert_ledger (ledger_entry now x ref q (Some p) 1 a vq kc (Some key)) d4 = Inr d5"
    and 6: "insert_history (history_entry now p ''completed'' hk ''sent'' a vp (Some q) ref (Some x)
              note (Some key)) d5 = Inr d6"
    and 7: "insert_history (history_entry now q ''completed'' hk ''received'' a vq (Some p) ref (Some x)
              note (Some key)) d6 = Inr d7"
    and k: "runs k d7 y d'"
    by (elim runs_thnE) (auto simp only: runs_execute)
  note u1 = update_balance_Inr [OF 1] and u2 = update_balance_Inr [OF 2]
  note t3 = insert_transfer_Inr [OF 3]
  have "d7 = post_movement now ?t kd kc hk vp vq d"
    unfolding insert_history_Inr(1) [OF 7] insert_history_Inr(1) [OF 6] insert_ledger_Inr(1) [OF 5]
      insert_ledger_Inr(1) [OF 4] t3(1) u2(1) u1(1)
    by (simp add: post_movement_def set_balance_def [abs_def])
  with k show "runs k (post_movement now ?t kd kc hk vp vq d) y d'" by simp
  from t3 u1(1) u2(1) show "0 < a" "p \<noteq> q" "x \<notin> set (map t_id (transfers d))"
    "key \<notin> set (map t_idempotency_key (transfers d))" by simp_all
  show "p \<in> set (map b_user_id (balances d)) \<Longrightarrow> 0 \<le> vp" by (rule u1(2))
  have "map b_user_id (balances d1) = map b_user_id (balances d)"
    unfolding u1(1) by (simp add: map_update_where)
  with u2(2) show "q \<in> set (map b_user_id (balances d)) \<Longrightarrow> 0 \<le> vq" by simp
qed

section \<open>The books after a movement\<close>

lemma post_movement_tables [simp]:
  "users (post_movement now t kd kc hk vp vq d) = users d"
  "transfers (post_movement now t kd kc hk vp vq d) = transfers d @ [t]"
  "requests (post_movement now t kd kc hk vp vq d) = requests d"
  "links (post_movement now t kd kc hk vp vq d) = links d"
  "events (post_movement now t kd kc hk vp vq d) = events d"
  "notifications (post_movement now t kd kc hk vp vq d) = notifications d"
  "map b_user_id (balances (post_movement now t kd kc hk vp vq d)) = map b_user_id (balances d)"
  by (simp_all add: post_movement_def Let_def map_update_where)

lemma post_movement_balance:
  assumes "b \<in> set (balances (post_movement now t kd kc hk vp vq d))"
  shows "\<exists>c \<in> set (balances d). b_user_id c = b_user_id b \<and>
           b_amount_paisa b = (if b_user_id c = t_recipient_id t then vq
             else if b_user_id c = t_sender_id t then vp else b_amount_paisa c)"
proof -
  let ?p = "t_sender_id t" and ?q = "t_recipient_id t"
  from assms obtain c where c: "c \<in> set (balances d)"
    and b: "b = (let c1 = (if b_user_id c = ?p then set_balance now vp c else c)
                 in if b_user_id c1 = ?q then set_balance now vq c1 else c1)"
    by (auto simp: post_movement_def Let_def update_where_def)
  from b have "b_user_id c = b_user_id b \<and> b_amount_paisa b = (if b_user_id c = ?q then vq
      else if b_user_id c = ?p then vp else b_amount_paisa c)"
    by (simp add: Let_def)
  with c show ?thesis by blast
qed

lemma user_ledger_post_movement:
  assumes "t_sender_id t \<noteq> t_recipient_id t"
  shows "user_ledger (post_movement now t kd kc hk vp vq d) u = user_ledger d u @
     (if u = t_sender_id t then
        [(ledger_entry now (t_id t) (t_reference t) u (Some (t_recipient_id t)) (-1) (t_amount_paisa t)
            vp kd (Some (t_idempotency_key t)))\<lparr>l_id := next_serial (ledger d)\<rparr>]
      else if u = t_recipient_id t then
        [(ledger_entry now (t_id t) (t_reference t) u (Some (t_sender_id t)) 1 (t_amount_paisa t)
            vq kc (Some (t_idempotency_key t)))\<lparr>l_id := next_serial (ledger d) + 1\<rparr>]
      else [])"
  using assms by (auto simp: user_ledger_def post_movement_def Let_def ledger_entry_def)

text \<open>
  \<open>movable t d bp bq\<close>: the premises of a movement, with the two balance rows it works on.
\<close>

definition movable :: "transfer_row \<Rightarrow> database \<Rightarrow> balance_row \<Rightarrow> balance_row \<Rightarrow> bool" where
  "movable t d bp bq \<longleftrightarrow>
     bp \<in> set (balances d) \<and> b_user_id bp = t_sender_id t \<and>
     bq \<in> set (balances d) \<and> b_user_id bq = t_recipient_id t \<and>
     t_sender_id t \<noteq> t_recipient_id t \<and> t_status t = ''completed'' \<and>
     0 < t_amount_paisa t \<and> t_amount_paisa t \<le> b_amount_paisa bp \<and>
     b_amount_paisa bq + t_amount_paisa t \<le> i64_max \<and>
     t_id t \<notin> set (map t_id (transfers d)) \<and>
     t_idempotency_key t \<notin> set (map t_idempotency_key (transfers d))"

definition moves :: "transfer_row \<Rightarrow> database \<Rightarrow> database \<Rightarrow> bool" where
  "moves t d d' \<longleftrightarrow> (\<exists>bp bq now kd kc hk. movable t d bp bq \<and> kd \<noteq> ''funding'' \<and> kc \<noteq> ''funding'' \<and>
     same_money (post_movement now t kd kc hk (b_amount_paisa bp - t_amount_paisa t)
                   (b_amount_paisa bq + t_amount_paisa t) d) d')"

lemma accounts_ok_post_movement:
  assumes acc: "accounts_ok d" and mv: "movable t d bp bq"
  shows "accounts_ok (post_movement now t kd kc hk (b_amount_paisa bp - t_amount_paisa t)
           (b_amount_paisa bq + t_amount_paisa t) d)" (is "accounts_ok ?d'")
proof -
  let ?p = "t_sender_id t" and ?q = "t_recipient_id t" and ?a = "t_amount_paisa t"
  note m = mv [unfolded movable_def]
  have dist: "distinct (map b_user_id (balances d))" and ok: "\<And>b. b \<in> set (balances d) \<Longrightarrow> account_ok d b"
    using acc by (auto simp: accounts_ok_def)
  have unique: "c = c'" if "c \<in> set (balances d)" "c' \<in> set (balances d)" "b_user_id c = b_user_id c'" for c c'
    using dist that by (metis distinct_map inj_onD)
  have "account_ok ?d' b" if "b \<in> set (balances ?d')" for b
  proof -
    from post_movement_balance [OF that] obtain c where c: "c \<in> set (balances d)"
      "b_user_id c = b_user_id b" and amount: "b_amount_paisa b =
        (if b_user_id c = ?q then b_amount_paisa bq + ?a
         else if b_user_id c = ?p then b_amount_paisa bp - ?a else b_amount_paisa c)" by blast
    consider "b_user_id b = ?p" "c = bp" | "b_user_id b = ?q" "c = bq"
      | "b_user_id b \<noteq> ?p" "b_user_id b \<noteq> ?q"
      using c m unique by metis
    then show ?thesis
    proof cases
      case 1
      with ok [OF c(1)] c amount m show ?thesis
        by (simp add: account_ok_def user_ledger_post_movement chain_from_snoc delta_def ledger_entry_def)
    next
      case 2
      have "?q \<noteq> ?p" using m by metis
      with 2 ok [OF c(1)] c amount m show ?thesis
        by (simp add: account_ok_def user_ledger_post_movement chain_from_snoc delta_def ledger_entry_def)
    next
      case 3
      with ok [OF c(1)] c amount m show ?thesis
        by (simp add: account_ok_def user_ledger_post_movement)
    qed
  qed
  moreover have "\<forall>l \<in> set (ledger ?d'). is_user ?d' (l_user_id l)"
  proof -
    have "set (map b_user_id (balances d)) = set (map u_id (users d))"
      using acc by (simp only: accounts_ok_def)
    with m have u: "is_user d ?p" "is_user d ?q"
      unfolding is_user_def by (metis image_eqI set_map)+
    have "\<forall>l \<in> set (ledger d). is_user d (l_user_id l)"
      using acc by (simp add: accounts_ok_def)
    with u have "\<forall>l \<in> set (ledger ?d'). is_user d (l_user_id l)"
      by (auto simp: post_movement_def Let_def ledger_entry_def)
    then show ?thesis by (simp add: is_user_def)
  qed
  ultimately show ?thesis
    using acc by (simp add: accounts_ok_def del: set_map)
qed

lemma total_post_movement:
  assumes dist: "distinct (map b_user_id (balances d))" and mv: "movable t d bp bq"
  shows "total_balance (post_movement now t kd kc hk (b_amount_paisa bp - t_amount_paisa t)
           (b_amount_paisa bq + t_amount_paisa t) d) = total_balance d"
proof -
  let ?vp = "b_amount_paisa bp - t_amount_paisa t" and ?vq = "b_amount_paisa bq + t_amount_paisa t"
  let ?bs = "update_where (\<lambda>b. b_user_id b = b_user_id bp) (set_balance now ?vp) (balances d)"
  note m = mv [unfolded movable_def]
  have 1: "sum_list (map b_amount_paisa ?bs) = total_balance d - b_amount_paisa bp + ?vp"
    using sum_update_key [OF dist, of bp b_amount_paisa "set_balance now ?vp"] m
    by (simp add: total_balance_def)
  have "map b_user_id ?bs = map b_user_id (balances d)" by (simp add: map_update_where)
  then have d2: "distinct (map b_user_id ?bs)" using dist by simp
  have "bq \<in> set ?bs" using m by (auto simp: update_where_def)
  from sum_update_key [OF d2 this, of b_amount_paisa "set_balance now ?vq"] 1 m
  show ?thesis by (simp add: total_balance_def post_movement_def Let_def)
qed

lemma paired_post_movement:
  assumes "paired (ledger d)" "movable t d bp bq" "kd \<noteq> ''funding''" "kc \<noteq> ''funding''"
  shows "paired (ledger (post_movement now t kd kc hk vp vq d))"
  using assms by (auto simp: post_movement_def Let_def ledger_entry_def movable_def intro!: paired_append)

lemma agree_post_movement:
  assumes "movable t d bp bq"
  shows "transfers_agree d \<Longrightarrow> transfers_agree (post_movement now t kd kc hk vp vq d)"
    and "history_agrees d \<Longrightarrow> history_agrees (post_movement now t kd kc hk vp vq d)"
  using assms by (simp_all add: transfers_agree_def history_agrees_def post_movement_def Let_def
      ledger_entry_def history_entry_def movable_def transfer_facts_def debit_facts_def
      history_facts_def ledger_facts_def)

lemma serial_post_movement:
  "serial_ok d \<Longrightarrow> serial_ok (post_movement now t kd kc hk vp vq d)"
proof -
  have two: "xs @ [a, b] = (xs @ [a]) @ [b]" for xs :: "int list" and a b by simp
  show "serial_ok d \<Longrightarrow> serial_ok (post_movement now t kd kc hk vp vq d)"
    by (simp add: serial_ok_def post_movement_def Let_def next_serial_def two del: append_assoc)
qed

theorem moves_books:
  assumes "moves t d d'" "books d"
  shows "books d'"
proof -
  from assms(1) obtain bp bq now kd kc hk where mv: "movable t d bp bq"
    and k: "kd \<noteq> ''funding''" "kc \<noteq> ''funding''"
    and same: "same_money (post_movement now t kd kc hk (b_amount_paisa bp - t_amount_paisa t)
                   (b_amount_paisa bq + t_amount_paisa t) d) d'" by (auto simp: moves_def)
  have "distinct (map b_user_id (balances d))" using assms(2) by (simp add: books_def accounts_ok_def)
  note total_post_movement [OF this mv] accounts_ok_post_movement [OF _ mv]
    paired_post_movement [OF _ mv k] agree_post_movement [OF mv] serial_post_movement [of d]
  with assms(2) have "books (post_movement now t kd kc hk (b_amount_paisa bp - t_amount_paisa t)
                   (b_amount_paisa bq + t_amount_paisa t) d)"
    by (simp add: books_def)
  with same show ?thesis by (simp add: same_money_books)
qed

section \<open>What a movement does to the balances\<close>

text \<open>The balance of a user, 0 when there is none.\<close>

definition balance_of :: "database \<Rightarrow> uuid \<Rightarrow> int" where
  "balance_of d u = (case find (\<lambda>b. b_user_id b = u) (balances d) of
     None \<Rightarrow> 0 | Some b \<Rightarrow> b_amount_paisa b)"

lemma balance_of_row:
  "distinct (map b_user_id (balances d)) \<Longrightarrow> b \<in> set (balances d) \<Longrightarrow>
     balance_of d (b_user_id b) = b_amount_paisa b"
  by (simp add: balance_of_def find_by_key)

lemma balance_of_post_movement:
  assumes dist: "distinct (map b_user_id (balances d))" and mv: "movable t d bp bq"
  shows "balance_of (post_movement now t kd kc hk vp vq d) u =
     (if u = t_sender_id t then vp else if u = t_recipient_id t then vq else balance_of d u)"
proof -
  note m = mv [unfolded movable_def]
  have "find (\<lambda>b. b_user_id b = t_sender_id t) (balances d) = Some bp"
    "find (\<lambda>b. b_user_id b = t_recipient_id t) (balances d) = Some bq"
    using m find_by_key [OF dist, of bp] find_by_key [OF dist, of bq] by simp_all
  with m show ?thesis
    by (auto simp: balance_of_def post_movement_def Let_def find_update_where
          split: option.splits dest!: find_Some_in)
qed

theorem moves_balances:
  assumes "moves t d d'" "distinct (map b_user_id (balances d))"
  shows "balance_of d' u =
     (if u = t_sender_id t then balance_of d u - t_amount_paisa t
      else if u = t_recipient_id t then balance_of d u + t_amount_paisa t else balance_of d u)"
    and "t_amount_paisa t \<le> balance_of d (t_sender_id t)"
proof -
  from assms(1) obtain bp bq now kd kc hk where mv: "movable t d bp bq"
    and same: "same_money (post_movement now t kd kc hk (b_amount_paisa bp - t_amount_paisa t)
                   (b_amount_paisa bq + t_amount_paisa t) d) d'" by (auto simp: moves_def)
  have b: "balance_of d (t_sender_id t) = b_amount_paisa bp"
    "balance_of d (t_recipient_id t) = b_amount_paisa bq"
    using mv balance_of_row [OF assms(2), of bp] balance_of_row [OF assms(2), of bq]
    by (simp_all add: movable_def)
  have "balance_of d' u = balance_of (post_movement now t kd kc hk (b_amount_paisa bp - t_amount_paisa t)
                   (b_amount_paisa bq + t_amount_paisa t) d) u"
    using same by (simp add: same_money_def balance_of_def)
  with balance_of_post_movement [OF assms(2) mv] b
  show "balance_of d' u = (if u = t_sender_id t then balance_of d u - t_amount_paisa t
      else if u = t_recipient_id t then balance_of d u + t_amount_paisa t else balance_of d u)"
    by simp
  show "t_amount_paisa t \<le> balance_of d (t_sender_id t)"
    using mv b by (simp add: movable_def)
qed

section \<open>Reading the two balances\<close>

text \<open>
  The locked read of the two balances, in ascending order of the user ids.  The three texts are
  the mover's own: too few rows, no balance of the payer, no balance of the payee.
\<close>

definition read_balances :: "str \<Rightarrow> str \<Rightarrow> str \<Rightarrow> uuid \<Rightarrow> uuid \<Rightarrow> (int \<times> int) tx" where
  "read_balances no_rows_text no_payer no_payee payer payee =
     (let (first_id, second_id) = (if payer < payee then (payer, payee) else (payee, payer))
      in bnd (fetch (balances_for_update first_id second_id)) (\<lambda>balance_rows.
         thn (guard (\<not> length balance_rows < 2) (NotFound no_rows_text))
         (case pick_balances payer payee balance_rows of (x, y) \<Rightarrow>
            bnd (lift (ok_or x (NotFound no_payer))) (\<lambda>payer_bal.
            bnd (lift (ok_or y (NotFound no_payee))) (\<lambda>payee_bal.
            ret (payer_bal, payee_bal))))))"

lemma runs_read_balances:
  assumes "runs (read_balances t1 t2 t3 p q) d (x, y) d'"
  shows "d' = d" and "\<exists>b \<in> set (balances d). b_user_id b = p \<and> b_amount_paisa b = x"
    and "\<exists>b \<in> set (balances d). b_user_id b = q \<and> b_amount_paisa b = y"
proof -
  obtain u v where uv: "(if p < q then (p, q) else (q, p)) = (u, v)" and s: "{u, v} = {p, q}"
    by (cases "p < q") auto
  from assms have "d' = d \<and> pick_balances p q (balances_for_update u v d) = (Some x, Some y)"
    unfolding read_balances_def uv Let_def
    by (auto elim!: runs_bndE runs_thnE split: prod.splits)
  with pick_balances_sound [of p q "balances_for_update u v d" "Some x" "Some y"]
  show "d' = d" "\<exists>b \<in> set (balances d). b_user_id b = p \<and> b_amount_paisa b = x"
    "\<exists>b \<in> set (balances d). b_user_id b = q \<and> b_amount_paisa b = y"
    by (auto simp: set_balances_for_update)
qed

text \<open>Over sound accounts the read cannot miss.\<close>

lemma read_balances_reads:
  assumes acc: "accounts_ok d" and p: "is_user d p" "is_user d q" "p \<noteq> q"
  shows "read_balances t1 t2 t3 p q (d, []) = (Inr (balance_of d p, balance_of d q), (d, []))"
proof -
  obtain u v where uv: "(if p < q then (p, q) else (q, p)) = (u, v)" and s: "{u, v} = {p, q}" "u \<noteq> v"
    using p(3) by (cases "p < q") auto
  have dist: "distinct (map b_user_id (balances d))" using acc by (simp add: accounts_ok_def)
  have "set (map b_user_id (balances d)) = set (map u_id (users d))"
    using acc by (simp add: accounts_ok_def)
  then have in_b: "p \<in> set (map b_user_id (balances d))" "q \<in> set (map b_user_id (balances d))"
    using p by (simp_all only: is_user_def)
  have "u \<in> {p, q}" "v \<in> {p, q}" using s(1) by blast+
  with in_b have "u \<in> set (map b_user_id (balances d))" "v \<in> set (map b_user_id (balances d))"
    by blast+
  then have len: "length (balances_for_update u v d) = 2"
    by (rule length_balances_for_update [OF dist s(2)])
  have rows: "set (balances_for_update u v d) =
      {b \<in> set (balances d). b_user_id b = p \<or> b_user_id b = q}"
    using s(1) by (auto simp: set_balances_for_update doubleton_eq_iff)
  have "\<exists>r \<in> set (balances_for_update u v d). b_user_id r = p"
    "\<exists>r \<in> set (balances_for_update u v d). b_user_id r = q"
    using in_b unfolding rows by auto
  from pick_balances_complete [OF this p(3)] obtain x y where
    xy: "pick_balances p q (balances_for_update u v d) = (Some x, Some y)" by blast
  from pick_balances_sound [OF this] obtain b c where
    "b \<in> set (balances d)" "b_user_id b = p" "b_amount_paisa b = x"
    "c \<in> set (balances d)" "b_user_id c = q" "b_amount_paisa c = y"
    unfolding rows by blast
  then have "balance_of d p = x" "balance_of d q = y"
    using balance_of_row [OF dist] by blast+
  then show ?thesis
    unfolding read_balances_def uv Let_def
    by (simp add: monad_simps len xy)
qed

section \<open>From the statements to the movement\<close>

text \<open>The two ledger rows of a movement, the debit under the kind \<open>kd\<close>.\<close>

definition booked_as :: "str \<Rightarrow> transfer_row \<Rightarrow> database \<Rightarrow> database \<Rightarrow> bool" where
  "booked_as kd t d d' \<longleftrightarrow> (\<exists>l m. ledger d' = ledger d @ [l, m] \<and> l_kind l = kd \<and> l_direction l = -1 \<and>
     l_user_id l = t_sender_id t \<and> l_counterparty_id l = Some (t_recipient_id t) \<and>
     l_amount_paisa l = t_amount_paisa t \<and> l_direction m = 1)"

lemma post_movement_booked: "same_money (post_movement now t kd kc hk vp vq d) d' \<Longrightarrow> booked_as kd t d d'"
  by (simp add: booked_as_def same_money_def post_movement_def Let_def ledger_entry_def)

lemma movement_moves:
  assumes acc: "accounts_ok d"
    and p: "\<exists>b \<in> set (balances d). b_user_id b = p \<and> b_amount_paisa b = x" and "a \<le> x"
    and q: "\<exists>b \<in> set (balances d). b_user_id b = q \<and> b_amount_paisa b = y"
    and run: "runs (thn (execute (update_balance now (i64_sub x a) p))
     (thn (execute (update_balance now (i64_add y a) q))
     (thn (execute (insert_transfer \<lparr>t_id = i, t_reference = ref, t_sender_id = p, t_recipient_id = q,
        t_amount_paisa = a, t_note = note, t_status = ''completed'', t_idempotency_key = key,
        t_created_at = now\<rparr>))
     (thn (execute (insert_ledger (ledger_entry now i ref p (Some q) (-1) a (i64_sub x a) kd (Some key))))
     (thn (execute (insert_ledger (ledger_entry now i ref q (Some p) 1 a (i64_add y a) kc (Some key))))
     (thn (execute (insert_history
        (history_entry now p ''completed'' hk ''sent'' a (i64_sub x a) (Some q) ref (Some i) note (Some key))))
     (thn (execute (insert_history
        (history_entry now q ''completed'' hk ''received'' a (i64_add y a) (Some p) ref (Some i) note (Some key))))
     k))))))) d z d'"
    and kinds: "kd \<noteq> ''funding''" "kc \<noteq> ''funding''"
    and rest: "\<And>d1. runs k d1 z d' \<Longrightarrow> same_money d1 d'"
  shows "moves \<lparr>t_id = i, t_reference = ref, t_sender_id = p, t_recipient_id = q, t_amount_paisa = a,
           t_note = note, t_status = ''completed'', t_idempotency_key = key, t_created_at = now\<rparr> d d'"
    and "booked_as kd \<lparr>t_id = i, t_reference = ref, t_sender_id = p, t_recipient_id = q, t_amount_paisa = a,
           t_note = note, t_status = ''completed'', t_idempotency_key = key, t_created_at = now\<rparr> d d'"
proof -
  note s = movement_statements [OF run]
  from p q obtain bp bq where bp: "bp \<in> set (balances d)" "b_user_id bp = p" "b_amount_paisa bp = x"
    and bq: "bq \<in> set (balances d)" "b_user_id bq = q" "b_amount_paisa bq = y" by blast
  have range: "0 \<le> x" "x \<le> i64_max" "0 \<le> y" "y \<le> i64_max"
    using acc bp bq by (auto simp: accounts_ok_def account_ok_def)
  have "q \<in> set (map b_user_id (balances d))" using bq by auto
  with s(7) have "0 \<le> i64_add y a" by simp
  then have y: "i64_add y a = y + a"
    using range s(2) \<open>a \<le> x\<close> by (intro i64_add_overflow_negative) auto
  have x: "i64_sub x a = x - a" using range s(2) \<open>a \<le> x\<close> by (intro i64_sub_nonneg) auto
  have "y + a \<le> i64_max" using in_i64_wrap [of "y + a"] y by (simp add: i64_add_def in_i64_def)
  with s(2-5) bp bq \<open>a \<le> x\<close>
  have "movable \<lparr>t_id = i, t_reference = ref, t_sender_id = p, t_recipient_id = q, t_amount_paisa = a,
           t_note = note, t_status = ''completed'', t_idempotency_key = key, t_created_at = now\<rparr> d bp bq"
    by (simp add: movable_def)
  with rest [OF s(1)] kinds bp bq
  show "moves \<lparr>t_id = i, t_reference = ref, t_sender_id = p, t_recipient_id = q, t_amount_paisa = a,
           t_note = note, t_status = ''completed'', t_idempotency_key = key, t_created_at = now\<rparr> d d'"
    unfolding moves_def x y by fastforce
  show "booked_as kd \<lparr>t_id = i, t_reference = ref, t_sender_id = p, t_recipient_id = q, t_amount_paisa = a,
           t_note = note, t_status = ''completed'', t_idempotency_key = key, t_created_at = now\<rparr> d d'"
    by (rule post_movement_booked [OF rest [OF s(1)]])
qed

section \<open>The interface of a mover\<close>

text \<open>
  \<open>run i d x d'\<close>: the mover, called with the input \<open>i\<close> on \<open>d\<close>, succeeds with \<open>x\<close> and leaves
  \<open>d'\<close> to be committed; \<open>entry i d\<close>: the transfer row that it writes.
\<close>

locale money_movement =
  fixes run :: "'i \<Rightarrow> database \<Rightarrow> 'o \<Rightarrow> database \<Rightarrow> bool"
    and entry :: "'i \<Rightarrow> database \<Rightarrow> transfer_row"
  assumes run_moves: "run i d x d' \<Longrightarrow> accounts_ok d \<Longrightarrow> moves (entry i d) d d'"
begin

lemma run_books: "run i d x d' \<Longrightarrow> books d \<Longrightarrow> books d'"
  using run_moves moves_books by (blast dest: books_def [THEN iffD1])

lemma run_conserves:
  assumes "run i d x d'" "books d"
  shows "total_balance d' = total_balance d" and "users d' = users d"
proof -
  have "moves (entry i d) d d'" using assms run_moves by (simp add: books_def)
  then show u: "users d' = users d" by (auto simp: moves_def same_money_def)
  from run_books [OF assms] assms(2) u show "total_balance d' = total_balance d"
    by (simp add: books_def)
qed

lemma run_balances:
  assumes "run i d x d'" "books d"
  shows "balance_of d' u =
     (if u = t_sender_id (entry i d) then balance_of d u - t_amount_paisa (entry i d)
      else if u = t_recipient_id (entry i d) then balance_of d u + t_amount_paisa (entry i d)
      else balance_of d u)"
    and "t_amount_paisa (entry i d) \<le> balance_of d (t_sender_id (entry i d))"
proof -
  have m: "moves (entry i d) d d'" and dist: "distinct (map b_user_id (balances d))"
    using assms run_moves by (simp_all add: books_def accounts_ok_def)
  show "balance_of d' u =
     (if u = t_sender_id (entry i d) then balance_of d u - t_amount_paisa (entry i d)
      else if u = t_recipient_id (entry i d) then balance_of d u + t_amount_paisa (entry i d)
      else balance_of d u)" by (rule moves_balances(1) [OF m dist])
  show "t_amount_paisa (entry i d) \<le> balance_of d (t_sender_id (entry i d))"
    by (rule moves_balances(2) [OF m dist])
qed

text \<open>A key or a transfer that is already on record cannot be booked again.\<close>

lemma run_fresh:
  assumes "run i d x d'" "accounts_ok d"
  shows "t_idempotency_key (entry i d) \<notin> set (map t_idempotency_key (transfers d))"
    and "transfers d' = transfers d @ [entry i d]"
  using run_moves [OF assms] by (auto simp: moves_def movable_def same_money_def)

end

end
