(* ===== verification/Sample.thy ===== *)
theory Sample
  imports Movement
begin

text \<open>
  A small concrete instance, on which the properties are evaluated: two funded users, the Redis
  store of \<open>RedisModel\<close>, and simple functions in the place of the third-party code.
\<close>

definition sample_config :: app_config where
  "sample_config =
     \<lparr>host = [], port = 8080, database_url = [], redis_url = [], nats_url = [],
      session_ttl_secs = 86400, default_link_ttl_secs = 10800, max_body_size_bytes = 1048576,
      cors_allowed_origins = ''*'', ai_provider = None, ai_api_key = None, ai_model = None,
      smtp_host = None, smtp_port = 587, smtp_user = None, smtp_password = None,
      mail_from_email = None\<rparr>"

definition sample_uuid_text :: "uuid \<Rightarrow> str" where
  "sample_uuid_text u = (case u of Uuid x \<Rightarrow> CHR ''u'' # show_int (uint x))"

definition sample_platform :: "kv platform" where
  "sample_platform =
     \<lparr>rds = kv_ops, uuid_to_string = sample_uuid_text, uuid_from_str = (\<lambda>_. None),
      argon2_hash = (\<lambda>s p. Inr (''h:'' @ p)), phc_new = (\<lambda>_. None),
      argon2_verify = (\<lambda>p h. h = ''h:'' @ p), format_day = (\<lambda>t. show_int (t div 86400000000)),
      smtp_relay_ok = (\<lambda>_. True), nats_connected = True, config = sample_config\<rparr>"

definition alice :: uuid where "alice = Uuid 1"
definition bob :: uuid where "bob = Uuid 2"

definition sample_user :: "uuid \<Rightarrow> str \<Rightarrow> str \<Rightarrow> user_row" where
  "sample_user i acc phone =
     \<lparr>u_id = i, u_account_number = acc, u_name = ''Name'', u_phone = phone,
      u_password_hash = ''h:secret'', u_pin_hash = ''h:1234'', u_pin_updated_at = 0,
      u_status = ''active'', u_created_at = 0, u_updated_at = 0\<rparr>"

definition sample_funding :: "int \<Rightarrow> uuid \<Rightarrow> uuid \<Rightarrow> ledger_row" where
  "sample_funding i txn u =
     (ledger_entry 0 txn ''FND'' u None 1 SEED_BALANCE_PAISA SEED_BALANCE_PAISA ''funding'' None)\<lparr>l_id := i\<rparr>"

definition sample_history :: "int \<Rightarrow> uuid \<Rightarrow> history_row" where
  "sample_history i u =
     (history_entry 0 u ''completed'' ''funding'' ''received'' SEED_BALANCE_PAISA SEED_BALANCE_PAISA
        None ''FND'' None [] None)\<lparr>h_id := i\<rparr>"

definition sample_balance :: "uuid \<Rightarrow> balance_row" where
  "sample_balance u =
     \<lparr>b_user_id = u, b_amount_paisa = SEED_BALANCE_PAISA, b_version = 1, b_updated_at = 0\<rparr>"

definition sample_db :: database where
  "sample_db = empty_db\<lparr>
     users := [sample_user alice ''PSTU1'' ''01700000001'', sample_user bob ''PSTU2'' ''01700000002''],
     balances := [sample_balance alice, sample_balance bob],
     ledger := [sample_funding 1 (Uuid 101) alice, sample_funding 2 (Uuid 102) bob],
     history := [sample_history 1 alice, sample_history 2 bob]\<rparr>"

definition sample_world :: "kv world" where
  "sample_world = \<lparr>db = sample_db, fates = [], redis = kv_empty, outbox = [], bus = []\<rparr>"

text \<open>A request at time \<open>t\<close>, with the UUIDs from \<open>100 n\<close> on.\<close>

definition sample_draws :: "int \<Rightarrow> nat \<Rightarrow> draws" where
  "sample_draws t n = \<lparr>clock = (\<lambda>_. t), new_v4 = (\<lambda>i. Uuid (of_nat (100 * n + i))),
     rng = (\<lambda>i. of_nat (n + i)), random_range = int n, salt = (\<lambda>_. [])\<rparr>"

lemma books_sample: "books (db sample_world)"
  by (simp add: sample_world_def books_def accounts_ok_def account_ok_def user_ledger_def is_user_def
      total_balance_def transfers_agree_def history_agrees_def sample_db_def empty_db_def
      sample_user_def sample_funding_def sample_history_def sample_balance_def alice_def bob_def
      ledger_entry_def history_entry_def SEED_BALANCE_PAISA_def i64_max_def delta_def
      history_facts_def ledger_facts_def serial_ok_def serial_ids_def upt_rec)

end
