(* ===== verification/Paging.thy ===== *)
theory Paging
  imports Sample
begin

text \<open>
  Keyset pagination, as all list endpoints do it: the limit is clamped to 1..100, one row more
  than the limit is fetched, and the key of the last row that is shown becomes the cursor of the
  next page.  The interface \<open>keyset\<close> states what a table must guarantee (distinct keys) for the
  pages to show each row exactly once.
\<close>

definition clamp_limit :: "int option \<Rightarrow> int" where
  "clamp_limit limit = max 1 (min 100 (var_or limit 20))"

text \<open>\<open>WHERE ($c IS NULL OR key < $c) ORDER BY key DESC LIMIT n\<close>.\<close>

definition before_cursor :: "int option \<Rightarrow> int \<Rightarrow> bool" where
  "before_cursor cursor k = (case cursor of None \<Rightarrow> True | Some c \<Rightarrow> k < c)"

definition keyset_rows :: "('row \<Rightarrow> int) \<Rightarrow> int option \<Rightarrow> int \<Rightarrow> 'row list \<Rightarrow> 'row list" where
  "keyset_rows key cursor n rows =
     take (nat n) (sort_key (\<lambda>r. - key r) (filter (\<lambda>r. before_cursor cursor (key r)) rows))"

text \<open>\<open>has_more\<close>, the rows that are shown, and the next cursor.\<close>

definition split_page :: "int \<Rightarrow> 'row list \<Rightarrow> 'row list \<times> bool" where
  "split_page limit rows =
     (let has_more = (int (length rows) = limit + 1);
          take_count = (if has_more then nat limit else length rows)
      in (take take_count rows, has_more))"

definition next_cursor :: "('item \<Rightarrow> int) \<Rightarrow> 'item list \<times> bool \<Rightarrow> int option" where
  "next_cursor key p = (case p of (items, has_more) \<Rightarrow>
     if has_more then (if items = [] then None else Some (key (last items))) else None)"

definition keyset_page :: "('row \<Rightarrow> int) \<Rightarrow> int \<Rightarrow> int option \<Rightarrow> 'row list \<Rightarrow> 'row list \<times> int option" where
  "keyset_page key limit cursor rows =
     (let p = split_page limit (keyset_rows key cursor (limit + 1) rows)
      in (fst p, next_cursor key p))"

text \<open>A client that follows the cursors, at most \<open>n\<close> pages far.\<close>

fun walk :: "('row \<Rightarrow> int) \<Rightarrow> int \<Rightarrow> 'row list \<Rightarrow> nat \<Rightarrow> int option \<Rightarrow> 'row list" where
  "walk key limit rows 0 cursor = []"
| "walk key limit rows (Suc n) cursor =
     (case keyset_page key limit cursor rows of (items, nxt) \<Rightarrow>
        items @ (case nxt of None \<Rightarrow> [] | Some c \<Rightarrow> walk key limit rows n (Some c)))"

lemma clamp_limit_range: "1 \<le> clamp_limit l" "clamp_limit l \<le> 100"
  by (simp_all add: clamp_limit_def)

lemma split_page_length: "1 \<le> limit \<Longrightarrow> length rows \<le> nat (limit + 1) \<Longrightarrow>
    length (fst (split_page limit rows)) \<le> nat limit"
  by (auto simp: split_page_def Let_def)

lemma split_page_keyset:
  assumes "1 \<le> limit"
  shows "split_page limit (take (nat (limit + 1)) S) =
     (if limit < int (length S) then (take (nat limit) S, True) else (S, False))"
proof -
  have [simp]: "nat (limit + 1) = Suc (nat limit)" using assms by simp
  show ?thesis using assms by (auto simp: split_page_def Let_def min_def)
qed

text \<open>A strictly descending list: what lies below its n-th element is what follows it.\<close>

lemma filter_below_nth:
  assumes "sorted_wrt (\<lambda>x y. key y < (key x :: int)) S" "0 < n" "n \<le> length S"
  shows "filter (\<lambda>r. key r < key (S ! (n - 1))) S = drop n S"
  using assms
proof (induction S arbitrary: n)
  case (Cons x S)
  show ?case
  proof (cases "n = 1")
    case True
    have "filter (\<lambda>r. key r < key x) S = S"
      by (rule filter_True) (use Cons.prems(1) in auto)
    with True show ?thesis by simp
  next
    case False
    with Cons.prems obtain m where m: "n = Suc m" "0 < m" "m \<le> length S" by (cases n) auto
    have "key (S ! (m - 1)) < key x" using Cons.prems(1) m by simp
    then have "\<not> key x < key (S ! (m - 1))" by simp
    with m show ?thesis using Cons.IH [of m] Cons.prems(1) by (simp add: nth_Cons')
  qed
qed simp

text \<open>
  \<open>table d\<close>: the rows of a table; \<open>inv\<close>: the invariant of the database under which their keys are
  distinct.  A list endpoint selects rows by a condition \<open>p\<close> and pages through them.
\<close>

locale keyset =
  fixes key :: "'row \<Rightarrow> int" and table :: "'d \<Rightarrow> 'row list" and inv :: "'d \<Rightarrow> bool"
  assumes distinct_keys: "inv d \<Longrightarrow> distinct (map key (table d))"
begin

definition ordered :: "('row \<Rightarrow> bool) \<Rightarrow> 'd \<Rightarrow> 'row list" where
  "ordered p d = sort_key (\<lambda>r. - key r) (filter p (table d))"

lemma ordered_desc: "inv d \<Longrightarrow> sorted_wrt (\<lambda>x y. key y < key x) (ordered p d)"
proof -
  assume "inv d"
  have 1: "sorted (map (\<lambda>r. - key r) (ordered p d))" by (simp add: ordered_def)
  have "distinct (map key (ordered p d))"
    using distinct_keys [OF \<open>inv d\<close>] by (auto simp: ordered_def distinct_map inj_on_def)
  then have "distinct (map (\<lambda>r. - key r) (ordered p d))" by (auto simp: distinct_map inj_on_def)
  with 1 have "sorted_wrt (<) (map (\<lambda>r. - key r) (ordered p d))" by (simp add: strict_sorted_iff)
  then show ?thesis by (simp add: sorted_wrt_map)
qed

lemma ordered_rows:
  assumes "inv d"
  shows "distinct (ordered p d)" "set (ordered p d) = {r \<in> set (table d). p r}"
  using distinct_keys [OF assms] by (auto simp: ordered_def distinct_map)

text \<open>What a cursor leaves is a tail of the ordered rows.\<close>

lemma walk_tail:
  assumes "inv d" "1 \<le> limit"
    and "filter (\<lambda>r. before_cursor c (key r)) (ordered p d) = drop n (ordered p d)"
    and "length (ordered p d) < n + fuel"
  shows "walk key limit (filter p (table d)) fuel c = drop n (ordered p d)"
  using assms(3,4)
proof (induction fuel arbitrary: n c)
  case 0
  then show ?case by simp
next
  case (Suc fuel)
  let ?O = "ordered p d" and ?T = "filter p (table d)"
  let ?S = "drop n ?O"
  have rows: "sort_key (\<lambda>r. - key r) (filter (\<lambda>r. before_cursor c (key r)) ?T) = ?S"
    using Suc.prems(1) by (simp add: ordered_def filter_sort del: filter_filter)
  show ?case
  proof (cases "limit < int (length ?S)")
    case True
    define m where "m = n + nat limit"
    let ?c = "key (last (take (nat limit) ?S))"
    have m: "n < m" "m \<le> length ?O" using True assms(2) by (auto simp: m_def)
    have "last (take (nat limit) ?S) = ?O ! (m - 1)"
      using True assms(2) by (subst last_conv_nth) (auto simp: m_def min_def add.commute)
    then have "filter (\<lambda>r. before_cursor (Some ?c) (key r)) ?O = drop m ?O"
      using filter_below_nth [OF ordered_desc [OF assms(1)], of m] m by (simp add: before_cursor_def)
    then have "walk key limit ?T fuel (Some ?c) = drop m ?O"
      by (rule Suc.IH) (use Suc.prems(2) m in simp)
    moreover have "drop m ?O = drop (nat limit) ?S" by (simp add: m_def add.commute)
    moreover have "take (nat limit) ?S @ drop (nat limit) ?S = ?S" by (rule append_take_drop_id)
    moreover have "take (nat limit) ?S \<noteq> []" using True assms(2) by auto
    ultimately show ?thesis
      using True assms(2)
      by (simp add: keyset_page_def keyset_rows_def rows split_page_keyset next_cursor_def Let_def
          del: drop_drop append_take_drop_id filter_filter)
  next
    case False
    then show ?thesis using assms(2)
      by (simp add: keyset_page_def keyset_rows_def rows split_page_def next_cursor_def Let_def del: filter_filter)
  qed
qed

text \<open>Following the cursors shows every selected row, once, newest first.\<close>

lemma walk_complete:
  assumes "inv d" "1 \<le> limit" "length (filter p (table d)) < fuel"
  shows "walk key limit (filter p (table d)) fuel None = ordered p d"
  using walk_tail [OF assms(1,2), of None p 0 fuel] assms(3)
  by (simp add: before_cursor_def ordered_def)

end

section \<open>The interface on the tables of the program\<close>

text \<open>The serial numbers of the history are distinct in sound books.\<close>

lemma books_history_ids: "books d \<Longrightarrow> distinct (map h_id (history d))"
  using serial_ids_sorted [of "map h_id (history d)"] by (auto simp: books_def serial_ok_def strict_sorted_iff)

interpretation hk: keyset h_id history books
  by unfold_locales (rule books_history_ids)

end
