(* ===== verification/Transfers.thy ===== *)
theory Transfers
  imports Paging
begin

text \<open>
  Direct transfers (\<open>src/features/transfers/service.rs\<close>).  \<open>process_transfer\<close> runs the PIN guard,
  parses the amount, resolves the recipient, answers replays of an idempotency key, applies the
  single-transfer cap and the daily outflow cap, and then moves the money in one transaction.
  Its stages are definitions of their own, in the order of the code.
\<close>

section \<open>Data\<close>

definition PER_TRANSFER_CAP_PAISA :: int where "PER_TRANSFER_CAP_PAISA = 5000000"
definition DAILY_OUTFLOW_CAP_PAISA :: int where "DAILY_OUTFLOW_CAP_PAISA = 20000000"

record create_transfer_request =
  ct_recipient :: str
  ct_amount_paisa :: str
  ct_note :: "str option"
  ct_pin :: str
  ct_idempotency_key :: uuid

record transfer_response =
  tr_id :: uuid
  tr_reference :: str
  tr_sender_id :: uuid
  tr_recipient_id :: uuid
  tr_amount_paisa :: str
  tr_note :: str
  tr_status :: str
  tr_created_at :: int

definition response_of_row :: "transfer_row \<Rightarrow> transfer_response" where
  "response_of_row row =
     \<lparr>tr_id = t_id row, tr_reference = t_reference row, tr_sender_id = t_sender_id row,
      tr_recipient_id = t_recipient_id row, tr_amount_paisa = show_int (t_amount_paisa row),
      tr_note = t_note row, tr_status = t_status row, tr_created_at = t_created_at row\<rparr>"

definition clean_note :: "str option \<Rightarrow> str" where
  "clean_note n = trim (var_or n [])"

definition parse_amount :: "str \<Rightarrow> app_error + paisa" where
  "parse_amount s = map_err (\<lambda>e. BadRequest (money_error_text e)) (parse_positive_from_str s)"

definition resolve_recipient :: "'r platform \<Rightarrow> str \<Rightarrow> ('r, uuid) service" where
  "resolve_recipient P identifier = resolve_recipient_user P identifier"

section \<open>Idempotency\<close>

definition idempotency_conflict :: app_error where
  "idempotency_conflict =
     Conflict ''Idempotency key was previously used with different parameters''"

definition check_replay ::
  "uuid \<Rightarrow> uuid \<Rightarrow> int \<Rightarrow> transfer_row option \<Rightarrow> app_error + transfer_response option" where
  "check_replay sender recipient amount existing_row =
     (case existing_row of
        None \<Rightarrow> Inr None
      | Some row \<Rightarrow>
          if t_sender_id row = sender \<and> t_recipient_id row = recipient \<and> t_amount_paisa row = amount
          then Inr (Some (response_of_row row))
          else Inl idempotency_conflict)"

section \<open>Refused transfers\<close>

definition transfer_of ::
  "draws \<Rightarrow> str \<Rightarrow> uuid \<Rightarrow> uuid \<Rightarrow> int \<Rightarrow> str \<Rightarrow> str \<Rightarrow> uuid \<Rightarrow> transfer_row" where
  "transfer_of D reference sender recipient amount note status key =
     \<lparr>t_id = new_v4 D 10, t_reference = reference, t_sender_id = sender, t_recipient_id = recipient,
      t_amount_paisa = amount, t_note = note, t_status = status, t_idempotency_key = key,
      t_created_at = clock D 12\<rparr>"

definition sender_balance :: "uuid \<Rightarrow> database \<Rightarrow> int option" where
  "sender_balance u d = map_option b_amount_paisa (find (\<lambda>b. b_user_id b = u) (balances d))"

text \<open>
  Both refusals write a transfer, a history row of the sender and an event, in one transaction
  that commits; no balance and no ledger row changes.
\<close>

definition record_refusal ::
  "draws \<Rightarrow> str \<Rightarrow> uuid \<Rightarrow> uuid \<Rightarrow> int \<Rightarrow> str \<Rightarrow> uuid \<Rightarrow> str \<Rightarrow> str \<Rightarrow> json \<Rightarrow> unit tx" where
  "record_refusal D reference sender recipient amount note key status reason meta =
     thn (execute (insert_transfer (transfer_of D reference sender recipient amount note status key)))
     (bnd (fetch_one (sender_balance sender)) (\<lambda>sender_bal.
      thn (execute (insert_history
             (history_entry (clock D 12) sender status ''transfer'' ''sent'' amount sender_bal
                (Some recipient) reference (Some (new_v4 D 10)) note (Some key))))
      (log_event_txn (clock D 12) ''transfer'' (new_v4 D 10) status (Some sender) reason meta)))"

definition reject_over_cap ::
  "draws \<Rightarrow> str \<Rightarrow> uuid \<Rightarrow> uuid \<Rightarrow> int \<Rightarrow> str \<Rightarrow> uuid \<Rightarrow> ('r, transfer_response \<times> bool) service" where
  "reject_over_cap D reference sender recipient amount note key =
     thn (transaction (record_refusal D reference sender recipient amount note key ''rejected''
            ''Exceeded single transfer velocity cap''
            (JObj [(''amount_paisa'', JInt amount), (''cap'', JInt PER_TRANSFER_CAP_PAISA)])))
     (throw (Unprocessable (''Amount exceeds maximum per-transfer cap of '' @
        show_int PER_TRANSFER_CAP_PAISA @ '' paisa'')))"

definition flag_daily_outflow ::
  "draws \<Rightarrow> str \<Rightarrow> uuid \<Rightarrow> uuid \<Rightarrow> int \<Rightarrow> str \<Rightarrow> uuid \<Rightarrow> int \<Rightarrow> ('r, transfer_response \<times> bool) service" where
  "flag_daily_outflow D reference sender recipient amount note key new_daily_total =
     thn (transaction (record_refusal D reference sender recipient amount note key ''flagged''
            ''Exceeded daily cumulative outflow limit (held for review)''
            (JObj [(''daily_total'', JInt new_daily_total), (''cap'', JInt DAILY_OUTFLOW_CAP_PAISA)])))
     (ret (\<lparr>tr_id = new_v4 D 10, tr_reference = reference, tr_sender_id = sender,
            tr_recipient_id = recipient, tr_amount_paisa = show_int amount, tr_note = note,
            tr_status = ''flagged'', tr_created_at = clock D 13\<rparr>, False))"

section \<open>The movement\<close>

definition read_transfer_balances :: "uuid \<Rightarrow> uuid \<Rightarrow> (int \<times> int) tx" where
  "read_transfer_balances =
     read_balances ''One or both user balances not found'' ''Sender balance missing''
       ''Recipient balance missing''"

definition execute_transfer ::
  "'r platform \<Rightarrow> draws \<Rightarrow> str \<Rightarrow> uuid \<Rightarrow> uuid \<Rightarrow> int \<Rightarrow> str \<Rightarrow> uuid \<Rightarrow> unit tx" where
  "execute_transfer P D reference sender recipient amount note key =
     bnd (read_transfer_balances sender recipient) (\<lambda>(sender_bal, recipient_bal).
     thn (guard (\<not> sender_bal < amount) (Unprocessable ''Insufficient balance''))
     (let new_sender_bal = i64_sub sender_bal amount;
          new_recipient_bal = i64_add recipient_bal amount;
          now = clock D 12; transfer_id = new_v4 D 10
      in thn (execute (update_balance now new_sender_bal sender))
        (thn (execute (update_balance now new_recipient_bal recipient))
        (thn (execute (insert_transfer
               (transfer_of D reference sender recipient amount note ''completed'' key)))
        (thn (execute (insert_ledger (ledger_entry now transfer_id reference sender (Some recipient)
               (-1) amount new_sender_bal ''transfer_sent'' (Some key))))
        (thn (execute (insert_ledger (ledger_entry now transfer_id reference recipient (Some sender)
               1 amount new_recipient_bal ''transfer_received'' (Some key))))
        (thn (execute (insert_history (history_entry now sender ''completed'' ''transfer'' ''sent''
               amount new_sender_bal (Some recipient) reference (Some transfer_id) note (Some key))))
        (thn (execute (insert_history (history_entry now recipient ''completed'' ''transfer'' ''received''
               amount new_recipient_bal (Some sender) reference (Some transfer_id) note (Some key))))
        (log_event_txn now ''transfer'' transfer_id ''completed'' (Some sender)
           ''Transfer successfully executed''
           (JObj [(''reference'', JStr reference),
                  (''sender_id'', JStr (uuid_to_string P sender)),
                  (''recipient_id'', JStr (uuid_to_string P recipient)),
                  (''amount_paisa'', JInt amount),
                  (''idempotency_key'', JStr (uuid_to_string P key))]))))))))))"

text \<open>After the commit: the mail to the sender and the message on the event bus.\<close>

definition announce_transfer ::
  "'r platform \<Rightarrow> draws \<Rightarrow> str \<Rightarrow> uuid \<Rightarrow> uuid \<Rightarrow> int \<Rightarrow> str \<Rightarrow> ('r, transfer_response \<times> bool) service" where
  "announce_transfer P D reference sender recipient amount note =
     thn (dispatch_email P (uuid_to_string P sender @ ''@pstupay.local'')
            (''Debit Confirmation - '' @ reference)
            [Text ''Your transfer of '', TakaAmount amount,
             Text ('' has been processed successfully.'' @ [CHR 10] @ ''TrxID: '' @ reference @
               [CHR 10] @ ''Note: '' @ note @ [CHR 10] @ ''Thank you,'' @ [CHR 10] @ ''PSTU Pay Team'')])
     (thn (publish P ''events.transfer''
             (JObj [(''event'', JStr ''transfer_completed''),
                    (''transfer_id'', JStr (uuid_to_string P (new_v4 D 10))),
                    (''reference'', JStr reference),
                    (''sender_id'', JStr (uuid_to_string P sender)),
                    (''recipient_id'', JStr (uuid_to_string P recipient)),
                    (''amount_paisa'', JInt amount)]))
     (ret (\<lparr>tr_id = new_v4 D 10, tr_reference = reference, tr_sender_id = sender,
            tr_recipient_id = recipient, tr_amount_paisa = show_int amount, tr_note = note,
            tr_status = ''completed'', tr_created_at = clock D 13\<rparr>, False)))"

section \<open>The service\<close>

definition velocity_key :: "'r platform \<Rightarrow> draws \<Rightarrow> uuid \<Rightarrow> str" where
  "velocity_key P D sender =
     ''daily_outflow:'' @ uuid_to_string P sender @ '':'' @ format_day P (clock D 10)"

text \<open>\<open>INCR key amount\<close> and \<open>EXPIRE key 86400\<close>; a Redis failure counts as a total of 0.\<close>

definition add_daily_outflow :: "'r platform \<Rightarrow> draws \<Rightarrow> uuid \<Rightarrow> int \<Rightarrow> ('r, int) service" where
  "add_daily_outflow P D sender amount =
     bnd (redis_call (rd_incr (rds P) (clock D 11) (velocity_key P D sender) amount)) (\<lambda>reply.
     thn (redis_write (rd_expire (rds P) (clock D 11) (velocity_key P D sender) 86400))
     (ret (var_or reply 0)))"

text \<open>From the cap check on: the key is new.\<close>

definition fresh_transfer ::
  "'r platform \<Rightarrow> draws \<Rightarrow> uuid \<Rightarrow> uuid \<Rightarrow> int \<Rightarrow> str \<Rightarrow> uuid \<Rightarrow> ('r, transfer_response \<times> bool) service" where
  "fresh_transfer P D sender recipient amount note key =
     (let reference = generate_trx_reference D in
      if amount > PER_TRANSFER_CAP_PAISA
      then reject_over_cap D reference sender recipient amount note key
      else bnd (add_daily_outflow P D sender amount) (\<lambda>new_daily_total.
        if new_daily_total > DAILY_OUTFLOW_CAP_PAISA
        then flag_daily_outflow D reference sender recipient amount note key new_daily_total
        else thn (transaction (execute_transfer P D reference sender recipient amount note key))
               (announce_transfer P D reference sender recipient amount note)))"

definition find_transfer_by_key :: "uuid \<Rightarrow> database \<Rightarrow> transfer_row option" where
  "find_transfer_by_key key d = find (\<lambda>t. t_idempotency_key t = key) (transfers d)"

definition process_transfer ::
  "'r platform \<Rightarrow> draws \<Rightarrow> uuid \<Rightarrow> create_transfer_request \<Rightarrow> ('r, transfer_response \<times> bool) service" where
  "process_transfer P D sender_id req =
     thn (enforce_user_pin P D sender_id (ct_pin req))
     (bnd (lift (parse_amount (ct_amount_paisa req))) (\<lambda>amount.
      bnd (resolve_recipient P (ct_recipient req)) (\<lambda>recipient_id.
      thn (guard (\<not> sender_id = recipient_id) (BadRequest ''Self transfers are not permitted''))
      (bnd (pool_fetch (find_transfer_by_key (ct_idempotency_key req))) (\<lambda>existing_row.
       bnd (lift (check_replay sender_id recipient_id (as_paisa amount) existing_row)) (\<lambda>replay.
       case replay of
         Some resp \<Rightarrow> ret (resp, True)
       | None \<Rightarrow> fresh_transfer P D sender_id recipient_id (as_paisa amount)
                   (clean_note (ct_note req)) (ct_idempotency_key req)))))))"

section \<open>Look-ups\<close>

record transfer_party =
  tp_id :: uuid
  tp_name :: str
  tp_account_number :: str

record transfer_detail =
  td_transfer :: transfer_response
  td_sender :: transfer_party
  td_recipient :: transfer_party

definition transfer_party_of :: "user_row \<Rightarrow> transfer_party" where
  "transfer_party_of u = \<lparr>tp_id = u_id u, tp_name = u_name u, tp_account_number = u_account_number u\<rparr>"

definition find_transfer :: "uuid \<Rightarrow> database \<Rightarrow> transfer_row option" where
  "find_transfer i d = find (\<lambda>t. t_id t = i) (transfers d)"

text \<open>\<open>transfers JOIN users s JOIN users r\<close>.\<close>

definition transfer_with_parties ::
  "uuid \<Rightarrow> database \<Rightarrow> (transfer_row \<times> user_row \<times> user_row) option" where
  "transfer_with_parties i d =
     Option.bind (find_transfer i d) (\<lambda>t.
     Option.bind (find_user (t_sender_id t) d) (\<lambda>s.
     map_option (\<lambda>r. (t, s, r)) (find_user (t_recipient_id t) d)))"

definition get_transfer_detail :: "uuid \<Rightarrow> uuid \<Rightarrow> ('r, transfer_detail) service" where
  "get_transfer_detail actor_id transfer_id =
     bnd (pool_fetch (transfer_with_parties transfer_id)) (\<lambda>row.
     bnd (lift (ok_or row (NotFound ''Transfer not found''))) (\<lambda>(t, s, r).
     thn (guard (\<not> (actor_id \<noteq> t_sender_id t \<and> actor_id \<noteq> t_recipient_id t))
            (NotFound ''Transfer not found''))
     (ret \<lparr>td_transfer = response_of_row t, td_sender = transfer_party_of s,
           td_recipient = transfer_party_of r\<rparr>)))"

definition get_transfer_events :: "uuid \<Rightarrow> uuid \<Rightarrow> ('r, process_event_dto list) service" where
  "get_transfer_events actor_id transfer_id =
     bnd (pool_fetch (find_transfer transfer_id)) (\<lambda>row.
     bnd (lift (ok_or row (NotFound ''Transfer not found''))) (\<lambda>t.
     thn (guard (\<not> (actor_id \<noteq> t_sender_id t \<and> actor_id \<noteq> t_recipient_id t))
            (NotFound ''Transfer not found''))
     (pool_fetch (event_trail ''transfer'' transfer_id))))"

section \<open>The handler\<close>

text \<open>\<open>#[validate(..)]\<close>: the first message of each field that fails.\<close>

definition failed_fields :: "(bool \<times> str \<times> str) list \<Rightarrow> (str \<times> str) list" where
  "failed_fields checks = map snd (filter (\<lambda>c. \<not> fst c) checks)"

definition pin_check :: "str \<Rightarrow> bool \<times> str \<times> str" where
  "pin_check p = (PIN_REGEX p, ''pin'', ''PIN must be 4 to 6 digits'')"

definition validate_create_transfer :: "create_transfer_request \<Rightarrow> (str \<times> str) list" where
  "validate_create_transfer req = failed_fields
     [(1 \<le> length (ct_recipient req), ''recipient'', ''recipient identifier cannot be empty''),
      (1 \<le> length (ct_amount_paisa req), ''amount_paisa'', ''amount cannot be empty''),
      (length (var_or (ct_note req) []) \<le> 200, ''note'', ''note cannot exceed 200 characters''),
      pin_check (ct_pin req)]"

definition create_transfer_handler ::
  "'r platform \<Rightarrow> draws \<Rightarrow> str \<Rightarrow> uuid \<Rightarrow> create_transfer_request \<Rightarrow>
     ('r, nat \<times> transfer_response api_response) service" where
  "create_transfer_handler P D rid user_id payload =
     thn (enforce_rate_limit P D ''transfers'' (uuid_to_string P user_id) 30 60)
     (thn (guard (validate_create_transfer payload = [])
             (Validation ''Validation failed on transfer request'' (validate_create_transfer payload)))
     (bnd (process_transfer P D user_id payload) (\<lambda>(transfer, is_replay).
      ret (if is_replay then 200 else 201, api_response_new rid transfer))))"

section \<open>The mover\<close>

text \<open>The arguments of \<open>execute_transfer\<close>: draws, reference, parties, amount, note, key.\<close>

type_synonym transfer_input = "draws \<times> str \<times> uuid \<times> uuid \<times> int \<times> str \<times> uuid"

definition transfer_run ::
  "'r platform \<Rightarrow> transfer_input \<Rightarrow> database \<Rightarrow> unit \<Rightarrow> database \<Rightarrow> bool" where
  "transfer_run P = (\<lambda>(D, ref, s, r, a, note, key). runs (execute_transfer P D ref s r a note key))"

definition transfer_entry :: "transfer_input \<Rightarrow> database \<Rightarrow> transfer_row" where
  "transfer_entry = (\<lambda>(D, ref, s, r, a, note, key) d. transfer_of D ref s r a note ''completed'' key)"

lemma execute_transfer_moves:
  assumes "runs (execute_transfer P D ref s r a note key) d x d'" "accounts_ok d"
  shows "moves (transfer_of D ref s r a note ''completed'' key) d d'"
    and "requests d' = requests d" and "links d' = links d"
    and "booked_as ''transfer_sent'' (transfer_of D ref s r a note ''completed'' key) d d'"
proof -
  from assms(1) obtain sb rb d1 where
    r: "runs (read_transfer_balances s r) d (sb, rb) d1" and "\<not> sb < a"
    and k: "runs (let new_sender_bal = i64_sub sb a; new_recipient_bal = i64_add rb a;
          now = clock D 12; transfer_id = new_v4 D 10
      in thn (execute (update_balance now new_sender_bal s))
        (thn (execute (update_balance now new_recipient_bal r))
        (thn (execute (insert_transfer (transfer_of D ref s r a note ''completed'' key)))
        (thn (execute (insert_ledger (ledger_entry now transfer_id ref s (Some r)
               (-1) a new_sender_bal ''transfer_sent'' (Some key))))
        (thn (execute (insert_ledger (ledger_entry now transfer_id ref r (Some s)
               1 a new_recipient_bal ''transfer_received'' (Some key))))
        (thn (execute (insert_history (history_entry now s ''completed'' ''transfer'' ''sent''
               a new_sender_bal (Some r) ref (Some transfer_id) note (Some key))))
        (thn (execute (insert_history (history_entry now r ''completed'' ''transfer'' ''received''
               a new_recipient_bal (Some s) ref (Some transfer_id) note (Some key))))
        (log_event_txn now ''transfer'' transfer_id ''completed'' (Some s)
           ''Transfer successfully executed''
           (JObj [(''reference'', JStr ref),
                  (''sender_id'', JStr (uuid_to_string P s)),
                  (''recipient_id'', JStr (uuid_to_string P r)),
                  (''amount_paisa'', JInt a),
                  (''idempotency_key'', JStr (uuid_to_string P key))])))))))))
        d1 x d'"
    unfolding execute_transfer_def by (auto elim!: runs_bndE elim!: runs_thnE [of "guard _ _"] split: prod.splits)
  note r' = runs_read_balances [OF r [unfolded read_transfer_balances_def]]
  from r'(1) have d1: "d1 = d" .
  from \<open>\<not> sb < a\<close> have "a \<le> sb" by simp
  note k' = k [unfolded d1 Let_def transfer_of_def]
  show "moves (transfer_of D ref s r a note ''completed'' key) d d'"
    unfolding transfer_of_def
    by (rule movement_moves(1) [OF assms(2) r'(2) \<open>a \<le> sb\<close> r'(3) k'])
      (auto dest: runs_log_event_txn)
  show "booked_as ''transfer_sent'' (transfer_of D ref s r a note ''completed'' key) d d'"
    unfolding transfer_of_def
    by (rule movement_moves(2) [OF assms(2) r'(2) \<open>a \<le> sb\<close> r'(3) k'])
      (auto dest: runs_log_event_txn)
  from runs_log_event_txn [OF movement_statements(1) [OF k']]
  show "requests d' = requests d" "links d' = links d" by simp_all
qed

interpretation tm: money_movement "transfer_run P" transfer_entry
  by unfold_locales (auto simp: transfer_run_def transfer_entry_def execute_transfer_moves)

section \<open>What a request can do to the database\<close>

text \<open>A refusal records the transfer and one history row; it touches no balance and no ledger row.\<close>

definition refuses :: "transfer_row \<Rightarrow> database \<Rightarrow> database \<Rightarrow> bool" where
  "refuses t d d' \<longleftrightarrow> t_status t \<noteq> ''completed'' \<and>
     t_idempotency_key t \<notin> set (map t_idempotency_key (transfers d)) \<and>
     (\<exists>h. h_status h = t_status t \<and> h_id h = next_serial (history d) \<and>
        history d' = history d @ [h]) \<and>
     transfers d' = transfers d @ [t] \<and> users d' = users d \<and> balances d' = balances d \<and>
     ledger d' = ledger d \<and> requests d' = requests d \<and> links d' = links d"

lemma refuses_books: "refuses t d d' \<Longrightarrow> books d' = books d"
  by (auto simp: refuses_def books_def accounts_ok_def account_ok_def user_ledger_def is_user_def
      total_balance_def transfers_agree_def history_agrees_def serial_ok_def next_serial_def)

lemma record_refusal_refuses:
  assumes "runs (record_refusal D ref s r a note key st reason meta) d x d'" "st \<noteq> ''completed''"
  shows "refuses (transfer_of D ref s r a note st key) d d'"
proof -
  from assms(1) obtain d1 d2 bal where
    1: "insert_transfer (transfer_of D ref s r a note st key) d = Inr d1"
    and 2: "insert_history (history_entry (clock D 12) s st ''transfer'' ''sent'' a bal
                (Some r) ref (Some (new_v4 D 10)) note (Some key)) d1 = Inr d2"
    and 3: "runs (log_event_txn (clock D 12) ''transfer'' (new_v4 D 10) st (Some s) reason meta) d2 x d'"
    unfolding record_refusal_def by (auto elim!: runs_bndE runs_thnE)
  from insert_transfer_Inr(1,6) [OF 1] insert_history_Inr(1) [OF 2] runs_log_event_txn [OF 3] assms(2)
  show ?thesis by (simp add: refuses_def transfer_of_def history_entry_def)
qed

definition fresh_response :: "draws \<Rightarrow> transfer_row \<Rightarrow> transfer_response" where
  "fresh_response D t = (response_of_row t)\<lparr>tr_created_at := clock D 13\<rparr>"

text \<open>
  The outcomes of a request whose key is new, over accounts that are sound: nothing, a recorded
  refusal, or the movement.
\<close>

datatype transfer_outcome = Untouched | RefusedAs transfer_row | Moved transfer_row

fun outcome_effect :: "transfer_outcome \<Rightarrow> database \<Rightarrow> database \<Rightarrow> bool" where
  "outcome_effect Untouched d d' = (d' = d)"
| "outcome_effect (RefusedAs t) d d' = refuses t d d'"
| "outcome_effect (Moved t) d d' = (moves t d d' \<and> requests d' = requests d \<and> links d' = links d)"

text \<open>Which answers go with which outcome: success is only reported for what was committed.\<close>

fun outcome_answer :: "draws \<Rightarrow> transfer_outcome \<Rightarrow> app_error + transfer_response \<times> bool \<Rightarrow> bool" where
  "outcome_answer D _ (Inl e) = True"
| "outcome_answer D Untouched (Inr x) = False"
| "outcome_answer D (RefusedAs t) (Inr x) = (t_status t = ''flagged'' \<and> x = (fresh_response D t, False))"
| "outcome_answer D (Moved t) (Inr x) = (x = (fresh_response D t, False))"

definition possible_outcomes ::
  "draws \<Rightarrow> uuid \<Rightarrow> uuid \<Rightarrow> int \<Rightarrow> str \<Rightarrow> uuid \<Rightarrow> transfer_outcome list" where
  "possible_outcomes D s r a note key =
     (let t = (\<lambda>st. transfer_of D (generate_trx_reference D) s r a note st key) in
      if a > PER_TRANSFER_CAP_PAISA then [Untouched, RefusedAs (t ''rejected'')]
      else [Untouched, RefusedAs (t ''flagged''), Moved (t ''completed'')])"

lemma announce_run:
  "\<exists>w1. announce_transfer P D ref s r a note w =
      (Inr (fresh_response D (transfer_of D ref s r a note ''completed'' key), False), w1) \<and> db w1 = db w \<and>
      redis w1 = redis w"
  by (simp add: announce_transfer_def monad_simps fresh_response_def response_of_row_def transfer_of_def)

lemma add_daily_outflow_run:
  "\<exists>tot w1. add_daily_outflow P D s a w = (Inr tot, w1) \<and> db w1 = db w"
  by (simp add: add_daily_outflow_def monad_simps redis_run)

lemma transaction_then:
  assumes "thn (transaction body) k w = (r, w')"
  obtains (failed) e w1 where "transaction body w = (Inl e, w1)" "r = Inl e" "w' = w1"
    | (committed) x w1 where "transaction body w = (Inr x, w1)" "runs body (db w) x (db w1)" "k w1 = (r, w')"
  using assms transaction_Ok [of body w] by (auto simp: thn_run split: prod.splits sum.splits)

lemma refusal_effect:
  assumes "transaction (record_refusal D (generate_trx_reference D) s rc a note key st reason meta) w = (x, w')"
    "st \<noteq> ''completed''"
  shows "redis w' = redis w"
    "db w' = db w \<or> refuses (transfer_of D (generate_trx_reference D) s rc a note st key) (db w) (db w')"
  using transaction_frame [OF assms(1)] transaction_atomic [OF assms(1)] record_refusal_refuses assms(2) by blast+

lemma over_cap_run:
  assumes "reject_over_cap D (generate_trx_reference D) s rc a note key w = (r, w')"
  shows "(\<exists>e. r = Inl e) \<and> redis w' = redis w \<and>
    (db w' = db w \<or> refuses (transfer_of D (generate_trx_reference D) s rc a note ''rejected'' key) (db w) (db w'))"
  using assms unfolding reject_over_cap_def
proof (cases rule: transaction_then)
  case (failed e w1)
  with refusal_effect [OF failed(1)] show ?thesis by simp
next
  case (committed x w1)
  with refusal_effect [OF committed(1)] show ?thesis by (auto simp: throw_run)
qed

lemma flagged_run:
  assumes "flag_daily_outflow D (generate_trx_reference D) s rc a note key tot w = (r, w')"
  shows "redis w' = redis w \<and> ((\<exists>e. r = Inl e) \<and> db w' = db w \<or>
    refuses (transfer_of D (generate_trx_reference D) s rc a note ''flagged'' key) (db w) (db w') \<and>
    outcome_answer D (RefusedAs (transfer_of D (generate_trx_reference D) s rc a note ''flagged'' key)) r)"
  using assms unfolding flag_daily_outflow_def
proof (cases rule: transaction_then)
  case (failed e w1)
  with refusal_effect [OF failed(1)] show ?thesis by auto
next
  case (committed x w1)
  with refusal_effect(1) [OF committed(1)] record_refusal_refuses [OF committed(2)] show ?thesis
    by (auto simp: ret_run fresh_response_def response_of_row_def transfer_of_def)
qed

lemma paid_run:
  assumes "thn (transaction (execute_transfer P D (generate_trx_reference D) s rc a note key))
      (announce_transfer P D (generate_trx_reference D) s rc a note) w = (r, w')" "accounts_ok (db w)"
  shows "redis w' = redis w \<and> ((\<exists>e. r = Inl e) \<and> db w' = db w \<or>
    outcome_effect (Moved (transfer_of D (generate_trx_reference D) s rc a note ''completed'' key)) (db w) (db w') \<and>
    outcome_answer D (Moved (transfer_of D (generate_trx_reference D) s rc a note ''completed'' key)) r)"
  using assms(1)
proof (cases rule: transaction_then)
  case (failed e w1)
  have "db w1 = db w \<or>
      outcome_effect (Moved (transfer_of D (generate_trx_reference D) s rc a note ''completed'' key)) (db w) (db w1)"
    using transaction_atomic [OF failed(1)] execute_transfer_moves assms(2) unfolding outcome_effect.simps by metis
  with failed transaction_frame [OF failed(1)] show ?thesis by auto
next
  case (committed x w1)
  with execute_transfer_moves [OF committed(2) assms(2)] transaction_frame [OF committed(1)]
    announce_run [of P D "generate_trx_reference D" s rc a "note" w1 key] show ?thesis
    by auto
qed

text \<open>The three ways of a fresh transfer: over the cap of a transfer, over the cap of the day, or moved.\<close>

lemma fresh_transfer_path:
  assumes run: "fresh_transfer P D s rc a note key w = (r, w')" and acc: "accounts_ok (db w)"
  obtains (over_cap) "a > PER_TRANSFER_CAP_PAISA" "\<exists>e. r = Inl e" "redis w' = redis w"
      "db w' = db w \<or> refuses (transfer_of D (generate_trx_reference D) s rc a note ''rejected'' key) (db w) (db w')"
  | (counted) tot w1 out where "a \<le> PER_TRANSFER_CAP_PAISA" "add_daily_outflow P D s a w = (Inr tot, w1)"
      "redis w' = redis w1"
      "out = (if tot > DAILY_OUTFLOW_CAP_PAISA
         then RefusedAs (transfer_of D (generate_trx_reference D) s rc a note ''flagged'' key)
         else Moved (transfer_of D (generate_trx_reference D) s rc a note ''completed'' key))"
      "(\<exists>e. r = Inl e) \<and> db w' = db w \<or> outcome_effect out (db w) (db w') \<and> outcome_answer D out r"
proof (cases "a > PER_TRANSFER_CAP_PAISA")
  case True
  with run have "reject_over_cap D (generate_trx_reference D) s rc a note key w = (r, w')"
    by (simp add: fresh_transfer_def Let_def)
  from over_cap_run [OF this] True over_cap show thesis by blast
next
  case False
  obtain tot w1 where add: "add_daily_outflow P D s a w = (Inr tot, w1)" "db w1 = db w"
    using add_daily_outflow_run by blast
  with run False have k: "(if tot > DAILY_OUTFLOW_CAP_PAISA
      then flag_daily_outflow D (generate_trx_reference D) s rc a note key tot
      else thn (transaction (execute_transfer P D (generate_trx_reference D) s rc a note key))
        (announce_transfer P D (generate_trx_reference D) s rc a note)) w1 = (r, w')"
    by (simp add: fresh_transfer_def Let_def bnd_run)
  show thesis
  proof (rule counted [OF _ add(1) _ refl])
    show "a \<le> PER_TRANSFER_CAP_PAISA" using False by simp
  qed (insert k flagged_run [of D s rc a "note" key tot w1 r w'] paid_run [of P D s rc a "note" key w1 r w'] add(2) acc,
    simp_all split: if_splits)
qed

lemma fresh_transfer_outcome:
  assumes run: "fresh_transfer P D s rc a note key w = (r, w')" and acc: "accounts_ok (db w)"
  shows "\<exists>out \<in> set (possible_outcomes D s rc a note key).
           outcome_effect out (db w) (db w') \<and> outcome_answer D out r"
  using assms by (cases rule: fresh_transfer_path) (auto simp: possible_outcomes_def Let_def split: if_splits)

text \<open>
  \<open>authorised\<close>: the PIN verifies against the stored hash, the amount parses, and the recipient is
  an active user other than the sender.
\<close>

definition pin_verified :: "'r platform \<Rightarrow> uuid \<Rightarrow> str \<Rightarrow> database \<Rightarrow> bool" where
  "pin_verified P u pin d \<longleftrightarrow> (case find_user u d of None \<Rightarrow> False
     | Some row \<Rightarrow> phc_new P (u_pin_hash row) = None \<and> argon2_verify P pin (u_pin_hash row))"

definition active_user :: "database \<Rightarrow> uuid \<Rightarrow> bool" where
  "active_user d i \<longleftrightarrow> (\<exists>u \<in> set (users d). u_id u = i \<and> u_status u = ''active'')"

definition authorised ::
  "'r platform \<Rightarrow> uuid \<Rightarrow> create_transfer_request \<Rightarrow> database \<Rightarrow> int \<Rightarrow> uuid \<Rightarrow> bool" where
  "authorised P s req d a rc \<longleftrightarrow> pin_verified P s (ct_pin req) d \<and>
     parse_amount (ct_amount_paisa req) = Inr (Paisa a) \<and> active_user d rc \<and> rc \<noteq> s"

definition replayed ::
  "uuid \<Rightarrow> create_transfer_request \<Rightarrow> database \<Rightarrow> app_error + transfer_response \<times> bool \<Rightarrow> bool" where
  "replayed s req d r \<longleftrightarrow> (case r of Inl _ \<Rightarrow> True | Inr x \<Rightarrow>
     (\<exists>t. find_transfer_by_key (ct_idempotency_key req) d = Some t \<and> x = (response_of_row t, True) \<and>
          t_sender_id t = s \<and> parse_amount (ct_amount_paisa req) = Inr (Paisa (t_amount_paisa t))))"

lemma enforce_user_pin_verified:
  assumes "enforce_user_pin P D u pin w = (Inr x, w')"
  shows "pin_verified P u pin (db w)" and "db w' = db w"
  using enforce_user_pin_Ok(1,3) [of P D u pin w w'] assms
  by (auto simp: pin_verified_def find_user_def)

lemma bnd_cases:
  assumes "bnd m f w = (r, w')"
  obtains (failed) e where "m w = (Inl e, w')" "r = Inl e"
    | (passed) x w1 where "m w = (Inr x, w1)" "f x w1 = (r, w')"
  using assms by (auto simp: bnd_run split: prod.splits sum.splits)

lemma resolve_recipient_db:
  assumes "resolve_recipient P x w = (r, w')" shows "db w' = db w"
  using keepsD [OF keeps_db_resolve [of "\<lambda>d. d = db w" P x], of w] assms
  by (simp add: resolve_recipient_def)

lemma pool_fetch_db': "pool_fetch q w = (r, w') \<Longrightarrow> db w' = db w"
  using pool_fetch_db [of q w] by simp

text \<open>The way of a request to a fresh transfer, and where it may end before.\<close>

lemma transfer_keyed:
  assumes "thn (guard (\<not> s = rc) (BadRequest ''Self transfers are not permitted''))
      (bnd (pool_fetch (find_transfer_by_key (ct_idempotency_key req))) (\<lambda>existing_row.
       bnd (lift (check_replay s rc a existing_row)) (\<lambda>replay.
       case replay of
         Some resp \<Rightarrow> ret (resp, True)
       | None \<Rightarrow> fresh_transfer P D s rc a (clean_note (ct_note req)) (ct_idempotency_key req)))) w = (r, w')"
  obtains (refused) e where "r = Inl e" "w' = w \<or> (\<exists>x. pool_fetch (find_transfer_by_key (ct_idempotency_key req)) w = (x, w'))"
  | (known) row resp where "pool_fetch (find_transfer_by_key (ct_idempotency_key req)) w = (Inr row, w')"
      "check_replay s rc a row = Inr (Some resp)" "r = Inr (resp, True)"
  | (fresh) w1 where "rc \<noteq> s" "pool_fetch (find_transfer_by_key (ct_idempotency_key req)) w = (Inr None, w1)"
      "fresh_transfer P D s rc a (clean_note (ct_note req)) (ct_idempotency_key req) w1 = (r, w')"
proof (cases "s = rc")
  case True
  with assms refused show thesis by (auto simp: thn_run guard_run)
next
  case False
  with assms have run: "bnd (pool_fetch (find_transfer_by_key (ct_idempotency_key req))) (\<lambda>existing_row.
       bnd (lift (check_replay s rc a existing_row)) (\<lambda>replay.
       case replay of
         Some resp \<Rightarrow> ret (resp, True)
       | None \<Rightarrow> fresh_transfer P D s rc a (clean_note (ct_note req)) (ct_idempotency_key req))) w = (r, w')"
    by (simp add: thn_run guard_run)
  then show thesis
  proof (cases rule: bnd_cases)
    case (failed e)
    with refused show thesis by blast
  next
    case (passed row w1)
    show thesis
    proof (cases "check_replay s rc a row")
      case (Inl e)
      with passed refused show thesis by (auto simp: bnd_run lift_run)
    next
      case (Inr replay)
      with passed known fresh False show thesis
        by (cases replay) (auto simp: bnd_run lift_run ret_run check_replay_def split: option.splits if_splits)
    qed
  qed
qed

lemma process_transfer_path:
  assumes "process_transfer P D s req w = (r, w')"
  obtains (unauthorised) e where "enforce_user_pin P D s (ct_pin req) w = (Inl e, w')" "r = Inl e"
  | (misaddressed) e w1 where "enforce_user_pin P D s (ct_pin req) w = (Inr (), w1)" "r = Inl e"
      "w' = w1 \<or> (\<exists>x. resolve_recipient P (ct_recipient req) w1 = (x, w'))"
  | (keyed) a rc w1 w2 where "enforce_user_pin P D s (ct_pin req) w = (Inr (), w1)"
      "parse_amount (ct_amount_paisa req) = Inr a" "resolve_recipient P (ct_recipient req) w1 = (Inr rc, w2)"
      "thn (guard (\<not> s = rc) (BadRequest ''Self transfers are not permitted''))
        (bnd (pool_fetch (find_transfer_by_key (ct_idempotency_key req))) (\<lambda>existing_row.
         bnd (lift (check_replay s rc (as_paisa a) existing_row)) (\<lambda>replay.
         case replay of
           Some resp \<Rightarrow> ret (resp, True)
         | None \<Rightarrow> fresh_transfer P D s rc (as_paisa a) (clean_note (ct_note req)) (ct_idempotency_key req)))) w2 = (r, w')"
  using assms unfolding process_transfer_def thn_run [of "enforce_user_pin P D s (ct_pin req)"] bnd_run [of "lift _"]
    bnd_run [of "resolve_recipient P (ct_recipient req)"] lift_run
  by (auto split: prod.splits sum.splits)

lemma process_transfer_cases:
  assumes run: "process_transfer P D s req w = (r, w')" and acc: "accounts_ok (db w)"
  shows "only_events (db w) (db w') \<and> replayed s req (db w) r \<or>
    (\<exists>a rc. authorised P s req (db w) a rc \<and>
       find_transfer_by_key (ct_idempotency_key req) (db w) = None \<and>
       (\<exists>out \<in> set (possible_outcomes D s rc a (clean_note (ct_note req)) (ct_idempotency_key req)).
          outcome_effect out (db w) (db w') \<and> outcome_answer D out r))"
  using run
proof (cases rule: process_transfer_path)
  case (unauthorised e)
  with enforce_user_pin_db show ?thesis by (fastforce simp: replayed_def)
next
  case (misaddressed e w1)
  then have "db w' = db w1" using resolve_recipient_db by blast
  with enforce_user_pin_verified [OF misaddressed(1)] misaddressed(2) show ?thesis by (simp add: replayed_def)
next
  case (keyed a rc w1 w2)
  note pin = enforce_user_pin_verified [OF keyed(1)]
  note res = resolve_recipient_user_Ok [OF keyed(3) [unfolded resolve_recipient_def]]
  have db2: "db w2 = db w" using res(2) pin by simp
  from keyed(4) show ?thesis
  proof (cases rule: transfer_keyed)
    case (refused e)
    then have "db w' = db w2" using pool_fetch_db' by blast
    with db2 refused(1) show ?thesis by (simp add: replayed_def)
  next
    case (known row resp)
    with db2 pool_fetch_Ok [OF known(1)] keyed(2) show ?thesis
      by (auto simp: check_replay_def replayed_def split: option.splits if_splits)
  next
    case (fresh w3)
    note f = pool_fetch_Ok [OF fresh(2)]
    have "authorised P s req (db w) (as_paisa a) rc"
      using pin keyed(2) res(1) fresh(1) by (auto simp: authorised_def active_user_def)
    moreover have "find_transfer_by_key (ct_idempotency_key req) (db w) = None" using f db2 by simp
    ultimately show ?thesis using fresh_transfer_outcome [OF fresh(3)] acc f db2 by auto
  qed
qed

section \<open>Properties\<close>

lemma possible_outcome_entry:
  assumes "out \<in> set (possible_outcomes D s rc a n key)" "out = Moved t \<or> out = RefusedAs t"
  shows "t_sender_id t = s" "t_recipient_id t = rc" "t_amount_paisa t = a" "t_idempotency_key t = key"
  using assms by (auto simp: possible_outcomes_def transfer_of_def Let_def split: if_splits)

lemma possible_outcome_moved:
  assumes "Moved t \<in> set (possible_outcomes D s rc a n key)"
  shows "a \<le> PER_TRANSFER_CAP_PAISA" "t_status t = ''completed''"
  using assms by (auto simp: possible_outcomes_def transfer_of_def Let_def split: if_splits)

lemma outcome_books: "outcome_effect out d d' \<Longrightarrow> books d \<Longrightarrow> books d'"
  by (cases out) (auto simp: refuses_books moves_books)

lemma books_accounts: "books d \<Longrightarrow> accounts_ok d"
  by (simp add: books_def)

lemma books_balances_distinct: "books d \<Longrightarrow> distinct (map b_user_id (balances d))"
  by (simp add: books_def accounts_ok_def)

text \<open>Whatever a transfer request answers and whichever of its statements fail, the books stay in order.\<close>

lemma process_transfer_books:
  assumes "books (db w)"
  shows "books (db (snd (process_transfer P D s req w)))"
proof -
  obtain r w' where run: "process_transfer P D s req w = (r, w')" by fastforce
  have "books (db w')" if "only_events (db w) (db w')"
    using assms same_money_books [OF only_events_same_money [OF that]] by simp
  with process_transfer_cases [OF run books_accounts [OF assms]] outcome_books assms
  have "books (db w')" by blast
  then show ?thesis by (simp add: run)
qed

definition sample_transfer :: create_transfer_request where
  "sample_transfer = \<lparr>ct_recipient = ''01700000002'', ct_amount_paisa = ''12.50'', ct_note = None,
     ct_pin = ''1234'', ct_idempotency_key = Uuid 77\<rparr>"

text \<open>C2: A transfer request changes a balance only if its PIN verified against the sender's stored
hash, its amount parsed to at most the single-transfer cap, its recipient is an active user other than
the sender and its key was new; then the sender had the money, and exactly that amount has moved from
the sender to the recipient and nobody else is touched.\<close>

theorem process_transfer_moves_only_authorised:
  assumes "books (db w)" "process_transfer P D s req w = (r, w')" "balances (db w') \<noteq> balances (db w)"
  shows "\<exists>a rc. authorised P s req (db w) a rc \<and> a \<le> PER_TRANSFER_CAP_PAISA \<and>
    find_transfer_by_key (ct_idempotency_key req) (db w) = None \<and> a \<le> balance_of (db w) s \<and>
    (\<forall>u. balance_of (db w') u = (if u = s then balance_of (db w) u - a
       else if u = rc then balance_of (db w) u + a else balance_of (db w) u))"
proof -
  from process_transfer_cases [OF assms(2) books_accounts [OF assms(1)]] assms(3)
  obtain a rc out where auth: "authorised P s req (db w) a rc"
    "find_transfer_by_key (ct_idempotency_key req) (db w) = None"
    and out: "out \<in> set (possible_outcomes D s rc a (clean_note (ct_note req)) (ct_idempotency_key req))"
      "outcome_effect out (db w) (db w')"
    by (auto simp: only_events_eq)
  from out(2) assms(3) obtain t where t: "out = Moved t" "moves t (db w) (db w')"
    by (cases out) (auto simp: refuses_def)
  have e: "t_sender_id t = s" "t_recipient_id t = rc" "t_amount_paisa t = a"
    using possible_outcome_entry [OF out(1)] t(1) by simp_all
  have "a \<le> PER_TRANSFER_CAP_PAISA" using out(1) t(1) possible_outcome_moved by blast
  with auth moves_balances [OF t(2) books_balances_distinct [OF assms(1)], unfolded e]
  show ?thesis by blast
qed

theorem process_transfer_moves_only_authorised_witness:
  "\<exists>a rc. authorised sample_platform alice sample_transfer sample_db a rc \<and> a \<le> PER_TRANSFER_CAP_PAISA"
proof -
  obtain r w' where run: "process_transfer sample_platform (sample_draws 1000 2) alice sample_transfer
      sample_world = (r, w')" by fastforce
  have "map b_amount_paisa (balances (db (snd (process_transfer sample_platform (sample_draws 1000 2)
      alice sample_transfer sample_world)))) = [9998750, 10001250]" by code_simp
  moreover have "map b_amount_paisa (balances (db sample_world)) = [10000000, 10000000]" by code_simp
  ultimately have "balances (db w') \<noteq> balances (db sample_world)" unfolding run by auto
  from process_transfer_moves_only_authorised [OF books_sample run this] show ?thesis
    by (auto simp: sample_world_def)
qed

subsection \<open>Retries\<close>

text \<open>The same request, sent again and again: a client that got no answer tries once more.\<close>

fun attempts ::
  "'r platform \<Rightarrow> uuid \<Rightarrow> create_transfer_request \<Rightarrow> draws list \<Rightarrow> 'r world \<Rightarrow>
     (app_error + transfer_response \<times> bool) list \<times> 'r world" where
  "attempts P s req [] w = ([], w)"
| "attempts P s req (D # Ds) w =
     (case process_transfer P D s req w of (r, w1) \<Rightarrow>
      case attempts P s req Ds w1 of (rs, w2) \<Rightarrow> (r # rs, w2))"

lemma find_snoc: "find p (xs @ [x]) = (case find p xs of None \<Rightarrow> if p x then Some x else None | Some y \<Rightarrow> Some y)"
  by (induction xs) auto

lemma find_key_after:
  assumes "transfers d' = transfers d @ [t]" "find_transfer_by_key (t_idempotency_key t) d = None"
  shows "find_transfer_by_key (t_idempotency_key t) d' = Some t"
  using assms by (simp add: find_transfer_by_key_def find_snoc)

lemma process_transfer_replay:
  assumes "books (db w)" "process_transfer P D s req w = (r, w')"
    "find_transfer_by_key (ct_idempotency_key req) (db w) = Some t"
  shows "same_money (db w) (db w')" and "r = Inr x \<Longrightarrow> x = (response_of_row t, True)"
  using process_transfer_cases [OF assms(2) books_accounts [OF assms(1)]] assms(3)
  by (auto simp: only_events_same_money replayed_def)

lemma attempts_after_key:
  assumes "books (db w)" "find_transfer_by_key (ct_idempotency_key req) (db w) = Some t"
    "attempts P s req Ds w = (rs, w')"
  shows "same_money (db w) (db w') \<and> (\<forall>x. Inr x \<in> set rs \<longrightarrow> x = (response_of_row t, True))"
  using assms
proof (induction Ds arbitrary: w rs)
  case Nil
  then show ?case by simp
next
  case (Cons D Ds)
  obtain r w1 where r: "process_transfer P D s req w = (r, w1)" by fastforce
  with Cons.prems(3) obtain rs' where a: "attempts P s req Ds w1 = (rs', w')" and rs: "rs = r # rs'"
    by (auto split: prod.splits)
  note p = process_transfer_replay [OF Cons.prems(1) r Cons.prems(2)]
  have "books (db w1)" "find_transfer_by_key (ct_idempotency_key req) (db w1) = Some t"
    using p(1) Cons.prems(1,2) same_money_books [OF p(1)]
    by (simp_all add: find_transfer_by_key_def same_money_def)
  from Cons.IH [OF this a] p rs show ?case by (auto intro: same_money_trans)
qed

definition moved_once :: "uuid \<Rightarrow> int \<Rightarrow> database \<Rightarrow> database \<Rightarrow> bool" where
  "moved_once s a d d' \<longleftrightarrow> (\<exists>rc. rc \<noteq> s \<and> (\<forall>u. balance_of d' u =
     (if u = s then balance_of d u - a else if u = rc then balance_of d u + a else balance_of d u)))"

lemma moves_moved_once:
  assumes "moves t d d'" "books d"
  shows "moved_once (t_sender_id t) (t_amount_paisa t) d d'"
proof -
  have "t_recipient_id t \<noteq> t_sender_id t"
    using assms(1) by (auto simp: moves_def movable_def)
  with moves_balances(1) [OF assms(1) books_balances_distinct [OF assms(2)]] show ?thesis
    unfolding moved_once_def by blast
qed

lemma same_money_balance_of: "same_money d d' \<Longrightarrow> balance_of d' u = balance_of d u"
  by (simp add: same_money_def balance_of_def)

lemma moved_once_cong:
  "balance_of d1 = balance_of d \<Longrightarrow> moved_once s a d1 d' = moved_once s a d d'"
  "balance_of d1 = balance_of d' \<Longrightarrow> moved_once s a d d1 = moved_once s a d d'"
  by (simp_all add: moved_once_def)

lemma same_money_balances: "same_money d d' \<Longrightarrow> balance_of d' = balance_of d"
  by (simp add: fun_eq_iff same_money_balance_of)

definition completed_answer :: "app_error + transfer_response \<times> bool \<Rightarrow> bool" where
  "completed_answer r = (case r of Inl _ \<Rightarrow> False | Inr (resp, _) \<Rightarrow> tr_status resp = ''completed'')"

text \<open>The step of the induction: what one attempt with a new key makes of the rest.\<close>

lemma attempt_step:
  assumes b: "books (db w)" and run: "process_transfer P D s req w = (r, w1)"
    and new: "find_transfer_by_key (ct_idempotency_key req) (db w) = None"
    and amount: "parse_amount (ct_amount_paisa req) = Inr (Paisa a)"
  shows "(same_money (db w) (db w1) \<and> (\<exists>e. r = Inl e)) \<or>
    (\<exists>t. find_transfer_by_key (ct_idempotency_key req) (db w1) = Some t \<and>
       (completed_answer r \<longrightarrow> t_status t = ''completed'') \<and>
       (if t_status t = ''completed'' then moved_once s a (db w) (db w1)
        else balances (db w1) = balances (db w)))"
  using process_transfer_cases [OF run books_accounts [OF b]]
proof (elim disjE exE conjE bexE)
  assume "only_events (db w) (db w1)" "replayed s req (db w) r"
  with new show ?thesis
    by (cases r) (auto simp: only_events_same_money replayed_def)
next
  fix a' rc out
  assume auth: "authorised P s req (db w) a' rc"
    and out: "out \<in> set (possible_outcomes D s rc a' (clean_note (ct_note req)) (ct_idempotency_key req))"
    and eff: "outcome_effect out (db w) (db w1)" and ans: "outcome_answer D out r"
  from auth amount have a': "a' = a" by (simp add: authorised_def)
  show ?thesis
  proof (cases out)
    case Untouched
    with eff ans show ?thesis by (cases r) auto
  next
    case (RefusedAs t)
    note e = possible_outcome_entry [OF out disjI2 [OF RefusedAs]]
    from RefusedAs eff have ref: "refuses t (db w) (db w1)" by simp
    then have "find_transfer_by_key (ct_idempotency_key req) (db w1) = Some t"
      using find_key_after [of "db w1" "db w" t] new e(4) by (simp add: refuses_def)
    with ref ans RefusedAs show ?thesis
      by (cases r) (auto simp: refuses_def completed_answer_def fresh_response_def response_of_row_def)
  next
    case (Moved t)
    note e = possible_outcome_entry [OF out disjI1 [OF Moved]]
    from Moved eff have m: "moves t (db w) (db w1)" by simp
    then have "transfers (db w1) = transfers (db w) @ [t]" by (auto simp: moves_def same_money_def)
    then have "find_transfer_by_key (ct_idempotency_key req) (db w1) = Some t"
      using find_key_after [of "db w1" "db w" t] new e(4) by simp
    moreover have "moved_once s a (db w) (db w1)"
      using moves_moved_once [OF m b] e a' by simp
    moreover have "t_status t = ''completed''" using possible_outcome_moved out Moved by blast
    ultimately show ?thesis by simp
  qed
qed

text \<open>C3: Exactly once.  However often the same request is retried, and whichever statements, commits
and acknowledgements fail on the way, its amount moves at most once; and as soon as one attempt has
answered "completed", it has moved exactly once.\<close>

theorem retries_move_once:
  assumes "books (db w)" "find_transfer_by_key (ct_idempotency_key req) (db w) = None"
    "parse_amount (ct_amount_paisa req) = Inr (Paisa a)" "attempts P s req Ds w = (rs, w')"
  shows "moved_once s a (db w) (db w') \<or>
    (\<forall>u. balance_of (db w') u = balance_of (db w) u) \<and> (\<forall>r \<in> set rs. \<not> completed_answer r)"
  using assms
proof (induction Ds arbitrary: w rs)
  case Nil
  then show ?case by simp
next
  case (Cons D Ds)
  obtain r w1 where r: "process_transfer P D s req w = (r, w1)" by fastforce
  with Cons.prems(4) obtain rs' where as: "attempts P s req Ds w1 = (rs', w')" and rs: "rs = r # rs'"
    by (auto split: prod.splits)
  have b1: "books (db w1)" using process_transfer_books [OF Cons.prems(1), of P D s req] r by simp
  from attempt_step [OF Cons.prems(1) r Cons.prems(2,3)] show ?case
  proof (elim disjE conjE exE)
    fix e assume same: "same_money (db w) (db w1)" and e: "r = Inl e"
    then have "find_transfer_by_key (ct_idempotency_key req) (db w1) = None"
      using Cons.prems(2) by (simp add: find_transfer_by_key_def same_money_def)
    moreover note same_money_balances [OF same] moved_once_cong(1) [OF same_money_balances [OF same]]
    moreover have "\<not> completed_answer r" using e by (simp add: completed_answer_def)
    ultimately show ?thesis
      using Cons.IH [OF b1 _ Cons.prems(3) as] rs by auto
  next
    fix t assume t: "find_transfer_by_key (ct_idempotency_key req) (db w1) = Some t"
      and st: "completed_answer r \<longrightarrow> t_status t = ''completed''"
      and eff: "if t_status t = ''completed'' then moved_once s a (db w) (db w1)
        else balances (db w1) = balances (db w)"
    note rest = attempts_after_key [OF b1 t as]
    then have "balance_of (db w') u = balance_of (db w1) u" for u by (simp add: same_money_balance_of)
    moreover have "\<not> completed_answer x" if "x \<in> set rs'" "t_status t \<noteq> ''completed''" for x
      using rest that by (cases x) (fastforce simp: completed_answer_def response_of_row_def)+
    ultimately show ?thesis
      using st eff rs by (auto simp: moved_once_def balance_of_def split: if_splits)
  qed
qed

text \<open>The acknowledgement of the first commit is lost; the retry finds the transfer by its key.\<close>

definition lost_commit_world :: "kv world" where
  "lost_commit_world = sample_world\<lparr>fates := replicate 13 Proceeds @ [AckLost]\<rparr>"

theorem retries_move_once_witness:
  "moved_once alice 1250 sample_db (db (snd (attempts sample_platform alice sample_transfer
     [sample_draws 1000 2, sample_draws 2000 3] lost_commit_world)))"
proof -
  obtain rs w' where run: "attempts sample_platform alice sample_transfer
     [sample_draws 1000 2, sample_draws 2000 3] lost_commit_world = (rs, w')" by fastforce
  have "list_ex completed_answer (fst (attempts sample_platform alice sample_transfer
     [sample_draws 1000 2, sample_draws 2000 3] lost_commit_world))" by code_simp
  then have "\<exists>r \<in> set rs. completed_answer r" unfolding run by (simp add: list_ex_iff)
  moreover have "db lost_commit_world = sample_db" by (simp add: lost_commit_world_def sample_world_def)
  moreover have "find_transfer_by_key (ct_idempotency_key sample_transfer) sample_db = None"
    "parse_amount (ct_amount_paisa sample_transfer) = Inr (Paisa 1250)" by code_simp+
  moreover have "books sample_db" using books_sample by (simp add: sample_world_def)
  ultimately show ?thesis
    using retries_move_once [of lost_commit_world sample_transfer 1250, OF _ _ _ run] unfolding run by auto
qed

end
