(* ===== verification/LifeCycle.thy ===== *)
theory LifeCycle
  imports Transfers
begin

text \<open>
  Tables whose rows have a life cycle: rows are never deleted, a row only changes by the steps of
  its state machine, and new rows start fresh.  The interface \<open>life_cycle\<close> asks that a step keeps
  the key of a row; money requests and payment links interpret it.
\<close>

definition row_evolves :: "('row \<Rightarrow> 'row \<Rightarrow> bool) \<Rightarrow> 'row \<Rightarrow> 'row \<Rightarrow> bool" where
  "row_evolves step = step\<^sup>*\<^sup>*"

definition table_evolves :: "('row \<Rightarrow> 'row \<Rightarrow> bool) \<Rightarrow> ('row \<Rightarrow> bool) \<Rightarrow> 'row list \<Rightarrow> 'row list \<Rightarrow> bool" where
  "table_evolves step fresh rs rs' \<longleftrightarrow> (\<exists>ys new. rs' = ys @ new \<and> list_all2 (row_evolves step) rs ys \<and>
     (\<forall>r \<in> set new. \<exists>r0. fresh r0 \<and> row_evolves step r0 r))"

lemma row_evolves_refl [simp]: "row_evolves step r r"
  by (simp add: row_evolves_def)

lemma row_evolves_step: "step r r' \<Longrightarrow> row_evolves step r r'"
  by (simp add: row_evolves_def)

lemma row_evolves_trans: "row_evolves step a b \<Longrightarrow> row_evolves step b c \<Longrightarrow> row_evolves step a c"
  unfolding row_evolves_def by (rule rtranclp_trans)

text \<open>What every step keeps, and a state that no step leaves.\<close>

lemma row_evolves_keeps:
  assumes "row_evolves step r r'" "\<And>r r'. step r r' \<Longrightarrow> f r' = f r"
  shows "f r' = f r"
  using assms(1) unfolding row_evolves_def by (induction rule: rtranclp_induct) (auto simp: assms(2))

lemma row_evolves_terminal:
  assumes "row_evolves step r r'" "\<And>r'. \<not> step r r'"
  shows "r' = r"
  using assms unfolding row_evolves_def by (metis converse_rtranclpE)

lemma list_all2_row_refl: "list_all2 (row_evolves step) rs rs"
  by (simp add: list_all2_refl)

lemma table_evolves_refl [simp]: "table_evolves step fresh rs rs"
  unfolding table_evolves_def
  by (rule exI [of _ rs], rule exI [of _ "[]"]) (simp add: list_all2_row_refl)

lemma table_evolves_trans:
  assumes "table_evolves step fresh a b" "table_evolves step fresh b c"
  shows "table_evolves step fresh a c"
proof -
  from assms(1) obtain ys new where b: "b = ys @ new" "list_all2 (row_evolves step) a ys"
    "\<forall>r \<in> set new. \<exists>r0. fresh r0 \<and> row_evolves step r0 r" by (auto simp: table_evolves_def)
  from assms(2) obtain zs new2 where c: "c = zs @ new2" "list_all2 (row_evolves step) b zs"
    "\<forall>r \<in> set new2. \<exists>r0. fresh r0 \<and> row_evolves step r0 r" by (auto simp: table_evolves_def)
  from c(2) b(1) obtain us vs where z: "zs = us @ vs" "list_all2 (row_evolves step) ys us"
    "list_all2 (row_evolves step) new vs" by (auto simp: list_all2_append1)
  have "list_all2 (row_evolves step) a us"
    by (rule list_all2_trans [OF _ b(2) z(2)]) (rule row_evolves_trans)
  moreover have "\<exists>r0. fresh r0 \<and> row_evolves step r0 r" if "r \<in> set vs" for r
  proof -
    from z(3) that obtain r1 where "r1 \<in> set new" "row_evolves step r1 r"
      by (metis in_set_conv_nth list_all2_conv_all_nth)
    with b(3) obtain r0 where "fresh r0" "row_evolves step r0 r1" by auto
    with row_evolves_trans [OF this(2) \<open>row_evolves step r1 r\<close>] show ?thesis by auto
  qed
  ultimately show ?thesis
    using c(1,3) z(1) unfolding table_evolves_def
    by (intro exI [of _ us] exI [of _ "vs @ new2"]) auto
qed

lemma table_evolves_append: "fresh r \<Longrightarrow> table_evolves step fresh rs (rs @ [r])"
  unfolding table_evolves_def
  by (rule exI [of _ rs], rule exI [of _ "[r]"]) (auto simp: list_all2_row_refl)

lemma table_evolves_update:
  assumes "\<And>r. r \<in> set rs \<Longrightarrow> p r \<Longrightarrow> step r (f r)"
  shows "table_evolves step fresh rs (update_where p f rs)"
proof -
  have "list_all2 (row_evolves step) rs (update_where p f rs)"
    using assms by (induction rs) (auto intro: row_evolves_step)
  then show ?thesis unfolding table_evolves_def
    by (intro exI [of _ "update_where p f rs"] exI [of _ "[]"]) simp
qed

text \<open>With distinct keys, updating the row that a query has found is a step of that row.\<close>

lemma table_evolves_update_key:
  assumes "distinct (map k rs)" "x \<in> set rs" "step x (f x)"
  shows "table_evolves step fresh rs (update_where (\<lambda>r. k r = k x) f rs)"
proof (rule table_evolves_update)
  fix r assume "r \<in> set rs" "k r = k x"
  with assms(1,2) have "r = x" by (metis distinct_map inj_onD)
  with assms(3) show "step r (f r)" by simp
qed

lemma table_evolves_row:
  assumes "table_evolves step fresh rs rs'" "r \<in> set rs"
  shows "\<exists>r' \<in> set rs'. row_evolves step r r'"
proof -
  from assms(1) obtain ys new where ys: "rs' = ys @ new" "list_all2 (row_evolves step) rs ys"
    by (auto simp: table_evolves_def)
  from assms(2) obtain i where i: "i < length rs" "r = rs ! i" by (auto simp: in_set_conv_nth)
  with ys have "row_evolves step r (ys ! i)" "ys ! i \<in> set rs'" by (auto simp: list_all2_conv_all_nth)
  then show ?thesis by blast
qed

locale life_cycle =
  fixes step :: "'row \<Rightarrow> 'row \<Rightarrow> bool" and key :: "'row \<Rightarrow> 'k"
  assumes step_key: "step r r' \<Longrightarrow> key r' = key r"
begin

lemma evolves_key: "row_evolves step r r' \<Longrightarrow> key r' = key r"
  by (rule row_evolves_keeps [where f = key and step = step]) (simp_all add: step_key)

text \<open>A row that a query finds by its key is found again later, evolved.\<close>

lemma find_evolves:
  assumes "table_evolves step fresh rs rs'" "find (\<lambda>r. key r = i) rs = Some r"
  shows "\<exists>r'. find (\<lambda>r. key r = i) rs' = Some r' \<and> row_evolves step r r'"
proof -
  have *: "list_all2 (row_evolves step) rs ys \<Longrightarrow> find (\<lambda>r. key r = i) rs = Some r \<Longrightarrow>
      \<exists>r'. find (\<lambda>r. key r = i) (ys @ new) = Some r' \<and> row_evolves step r r'" for ys new
    by (induction rs ys rule: list_all2_induct) (auto dest: evolves_key split: if_splits)
  from assms show ?thesis unfolding table_evolves_def by (auto intro: *)
qed

lemma evolves_keys: "list_all2 (row_evolves step) rs ys \<Longrightarrow> map key ys = map key rs"
  by (induction rs ys rule: list_all2_induct) (auto dest: evolves_key)

end

end
