(* ===== verification/Requests.thy ===== *)
theory Requests
  imports LifeCycle
begin

text \<open>
  Money requests (\<open>src/features/requests/service.rs\<close>): a requester asks a debtor for an amount;
  the debtor accepts (and pays) or rejects, the requester cancels.  The second half of the theory
  proves the life cycle of a request, that accepting one is a movement of money, and that a
  request is paid at most once.
\<close>

section \<open>Data\<close>

record create_money_request =
  cm_debtor :: str
  cm_amount_paisa :: str
  cm_note :: "str option"

record accept_money_request =
  am_pin :: str
  am_idempotency_key :: uuid

record money_request_dto =
  mr_id :: uuid
  mr_requester_id :: uuid
  mr_debtor_id :: uuid
  mr_amount_paisa :: str
  mr_note :: str
  mr_status :: str
  mr_created_at :: int
  mr_resolved_at :: "int option"
  mr_requester :: "transfer_party option"
  mr_debtor :: "transfer_party option"

record get_requests_query =
  gq_status :: "str option"
  gq_role :: "str option"
  gq_cursor :: "int option"
  gq_limit :: "int option"

definition request_dto ::
  "request_row \<Rightarrow> str \<Rightarrow> int option \<Rightarrow> transfer_party option \<Rightarrow> transfer_party option \<Rightarrow> money_request_dto" where
  "request_dto r status resolved_at requester debtor =
     \<lparr>mr_id = r_id r, mr_requester_id = r_requester_id r, mr_debtor_id = r_debtor_id r,
      mr_amount_paisa = show_int (r_amount_paisa r), mr_note = r_note r, mr_status = status,
      mr_created_at = r_created_at r, mr_resolved_at = resolved_at, mr_requester = requester,
      mr_debtor = debtor\<rparr>"

section \<open>Creating\<close>

definition pending_request :: "draws \<Rightarrow> uuid \<Rightarrow> uuid \<Rightarrow> int \<Rightarrow> str \<Rightarrow> request_row" where
  "pending_request D requester debtor amount note =
     \<lparr>r_id = new_v4 D 30, r_requester_id = requester, r_debtor_id = debtor, r_amount_paisa = amount,
      r_note = note, r_status = ''pending'', r_created_at = clock D 30, r_resolved_at = None\<rparr>"

definition create_request_tx :: "'r platform \<Rightarrow> draws \<Rightarrow> request_row \<Rightarrow> unit tx" where
  "create_request_tx P D r =
     thn (execute (insert_request r))
     (log_event_txn (clock D 30) ''request'' (r_id r) ''created'' (Some (r_requester_id r))
        ''Money request created''
        (JObj [(''requester_id'', JStr (uuid_to_string P (r_requester_id r))),
               (''debtor_id'', JStr (uuid_to_string P (r_debtor_id r))),
               (''amount_paisa'', JInt (r_amount_paisa r))]))"

definition create_request ::
  "'r platform \<Rightarrow> draws \<Rightarrow> uuid \<Rightarrow> create_money_request \<Rightarrow> ('r, money_request_dto) service" where
  "create_request P D requester_id req =
     bnd (lift (parse_amount (cm_amount_paisa req))) (\<lambda>amount.
     bnd (resolve_recipient P (cm_debtor req)) (\<lambda>debtor_id.
     thn (guard (\<not> requester_id = debtor_id) (BadRequest ''Cannot request money from yourself''))
     (let r = pending_request D requester_id debtor_id (as_paisa amount) (clean_note (cm_note req)) in
      thn (transaction (create_request_tx P D r))
      (ret ((request_dto r ''pending'' None None None)\<lparr>mr_created_at := clock D 31\<rparr>)))))"

section \<open>Listing\<close>

definition request_visible :: "str \<Rightarrow> uuid \<Rightarrow> request_row \<Rightarrow> bool" where
  "request_visible role actor r \<longleftrightarrow>
     ((role = ''incoming'' \<or> role = ''debtor'') \<and> r_debtor_id r = actor) \<or>
     ((role = ''outgoing'' \<or> role = ''requester'') \<and> r_requester_id r = actor) \<or>
     (role = ''all'' \<and> (r_debtor_id r = actor \<or> r_requester_id r = actor))"

definition selected_requests :: "uuid \<Rightarrow> get_requests_query \<Rightarrow> database \<Rightarrow> request_row list" where
  "selected_requests actor_id q d =
     filter (\<lambda>r. find_user (r_requester_id r) d \<noteq> None \<and> find_user (r_debtor_id r) d \<noteq> None \<and>
               request_visible (var_or (gq_role q) ''all'') actor_id r \<and>
               (gq_status q = None \<or> gq_status q = Some (r_status r))) (requests d)"

definition get_requests ::
  "uuid \<Rightarrow> get_requests_query \<Rightarrow> ('r, money_request_dto list \<times> int option) service" where
  "get_requests actor_id q =
     (let limit = clamp_limit (gq_limit q) in
      pool_fetch (\<lambda>d. case keyset_page r_created_at limit (gq_cursor q) (selected_requests actor_id q d) of
        (rows, nxt) \<Rightarrow>
          (map (\<lambda>r. request_dto r (r_status r) (r_resolved_at r)
                  (map_option transfer_party_of (find_user (r_requester_id r) d))
                  (map_option transfer_party_of (find_user (r_debtor_id r) d))) rows, nxt)))"

section \<open>Accepting\<close>

definition find_request :: "uuid \<Rightarrow> database \<Rightarrow> request_row option" where
  "find_request i d = find (\<lambda>r. r_id r = i) (requests d)"

text \<open>\<open>SELECT .. FROM money_requests WHERE id = $1 FOR UPDATE\<close>.\<close>

definition lock_request :: "uuid \<Rightarrow> request_row tx" where
  "lock_request i =
     bnd (fetch (find_request i)) (\<lambda>row.
     lift (ok_or row (NotFound ''Money request not found'')))"

text \<open>The transfer that pays a request.\<close>

definition payment_of :: "draws \<Rightarrow> request_row \<Rightarrow> uuid \<Rightarrow> transfer_row" where
  "payment_of D r key =
     \<lparr>t_id = new_v4 D 31, t_reference = generate_trx_reference D, t_sender_id = r_debtor_id r,
      t_recipient_id = r_requester_id r, t_amount_paisa = r_amount_paisa r, t_note = r_note r,
      t_status = ''completed'', t_idempotency_key = key, t_created_at = clock D 30\<rparr>"

definition resolve_as :: "str \<Rightarrow> int \<Rightarrow> request_row \<Rightarrow> request_row" where
  "resolve_as status now r = r\<lparr>r_status := status, r_resolved_at := Some now\<rparr>"

definition pay_request ::
  "'r platform \<Rightarrow> draws \<Rightarrow> uuid \<Rightarrow> uuid \<Rightarrow> request_row \<Rightarrow> int \<Rightarrow> int \<Rightarrow> unit tx" where
  "pay_request P D actor_id key r debtor_bal requester_bal =
     (let debtor = r_debtor_id r; requester = r_requester_id r; amount = r_amount_paisa r;
          new_debtor_bal = i64_sub debtor_bal amount;
          new_requester_bal = i64_add requester_bal amount;
          now = clock D 30; transfer_id = new_v4 D 31; reference = generate_trx_reference D
      in thn (execute (update_balance now new_debtor_bal debtor))
        (thn (execute (update_balance now new_requester_bal requester))
        (thn (execute (insert_transfer (payment_of D r key)))
        (thn (execute (insert_ledger (ledger_entry now transfer_id reference debtor (Some requester)
               (-1) amount new_debtor_bal ''request_paid'' (Some key))))
        (thn (execute (insert_ledger (ledger_entry now transfer_id reference requester (Some debtor)
               1 amount new_requester_bal ''request_paid'' (Some key))))
        (thn (execute (insert_history (history_entry now debtor ''completed'' ''request'' ''sent''
               amount new_debtor_bal (Some requester) reference (Some transfer_id) (r_note r) (Some key))))
        (thn (execute (insert_history (history_entry now requester ''completed'' ''request'' ''received''
               amount new_requester_bal (Some debtor) reference (Some transfer_id) (r_note r) (Some key))))
        (thn (execute (update_request (r_id r) (resolve_as ''accepted'' (clock D 31))))
        (log_event_txn now ''request'' (r_id r) ''accepted'' (Some actor_id)
           ''Money request accepted and paid''
           (JObj [(''request_id'', JStr (uuid_to_string P (r_id r))),
                  (''transfer_id'', JStr (uuid_to_string P transfer_id)),
                  (''reference'', JStr reference),
                  (''amount_paisa'', JInt amount)]))))))))))"

definition accept_request_tx ::
  "'r platform \<Rightarrow> draws \<Rightarrow> uuid \<Rightarrow> uuid \<Rightarrow> uuid \<Rightarrow> request_row tx" where
  "accept_request_tx P D actor_id request_id key =
     bnd (lock_request request_id) (\<lambda>r.
     thn (guard (\<not> r_status r \<noteq> ''pending'')
            (Conflict (''Money request cannot be accepted because it is already '' @ r_status r)))
     (thn (guard (\<not> actor_id \<noteq> r_debtor_id r)
            (Forbidden ''Only the recipient (debtor) can accept this money request''))
     (bnd (read_balances ''Balances not found'' ''Debtor balance missing'' ''Requester balance missing''
             (r_debtor_id r) (r_requester_id r)) (\<lambda>(debtor_bal, requester_bal).
      thn (guard (\<not> debtor_bal < r_amount_paisa r)
             (Unprocessable ''Insufficient balance to accept request''))
      (thn (pay_request P D actor_id key r debtor_bal requester_bal)
      (ret r))))))"

definition accept_request ::
  "'r platform \<Rightarrow> draws \<Rightarrow> uuid \<Rightarrow> uuid \<Rightarrow> accept_money_request \<Rightarrow>
     ('r, money_request_dto \<times> transfer_response) service" where
  "accept_request P D actor_id request_id payload =
     thn (enforce_user_pin P D actor_id (am_pin payload))
     (bnd (transaction (accept_request_tx P D actor_id request_id (am_idempotency_key payload))) (\<lambda>r.
      let t = payment_of D r (am_idempotency_key payload) in
      thn (dispatch_email P (uuid_to_string P (r_requester_id r) @ ''@pstupay.local'')
             (''Money Request Paid - '' @ t_reference t)
             [Text ''Your money request of '', TakaAmount (r_amount_paisa r),
              Text ('' has been paid.'' @ [CHR 10] @ ''TrxID: '' @ t_reference t @ [CHR 10] @ ''Note: '' @
                r_note r @ [CHR 10] @ ''Thank you,'' @ [CHR 10] @ ''PSTU Pay Team'')])
      (ret (request_dto r ''accepted'' (Some (clock D 31)) None None,
            (response_of_row t)\<lparr>tr_created_at := clock D 31\<rparr>))))"

section \<open>Rejecting and cancelling\<close>

definition close_request ::
  "str \<Rightarrow> draws \<Rightarrow> uuid \<Rightarrow> (request_row \<Rightarrow> uuid) \<Rightarrow> uuid \<Rightarrow> str \<Rightarrow> str \<Rightarrow> str \<Rightarrow> request_row tx" where
  "close_request status D actor_id owner request_id conflict_text forbidden_text reason =
     bnd (lock_request request_id) (\<lambda>r.
     thn (guard (\<not> r_status r \<noteq> ''pending'') (Conflict (conflict_text @ r_status r)))
     (thn (guard (\<not> actor_id \<noteq> owner r) (Forbidden forbidden_text))
     (thn (execute (update_request request_id (resolve_as status (clock D 31))))
     (thn (log_event_txn (clock D 30) ''request'' request_id status (Some actor_id) reason
             (JObj [(''status'', JStr status)]))
     (ret r)))))"

definition reject_request :: "draws \<Rightarrow> uuid \<Rightarrow> uuid \<Rightarrow> ('r, money_request_dto) service" where
  "reject_request D actor_id request_id =
     bnd (transaction (close_request ''rejected'' D actor_id r_debtor_id request_id
            ''Money request is already '' ''Only the debtor can reject this request''
            ''Money request rejected by debtor'')) (\<lambda>r.
     ret (request_dto r ''rejected'' (Some (clock D 31)) None None))"

definition cancel_request :: "draws \<Rightarrow> uuid \<Rightarrow> uuid \<Rightarrow> ('r, money_request_dto) service" where
  "cancel_request D actor_id request_id =
     bnd (transaction (close_request ''cancelled'' D actor_id r_requester_id request_id
            ''Money request cannot be cancelled because it is already ''
            ''Only the requester can cancel this request'' ''Money request cancelled by requester'')) (\<lambda>r.
     ret (request_dto r ''cancelled'' (Some (clock D 31)) None None))"

definition get_request_events :: "uuid \<Rightarrow> uuid \<Rightarrow> ('r, process_event_dto list) service" where
  "get_request_events actor_id request_id =
     bnd (pool_fetch (find_request request_id)) (\<lambda>row.
     bnd (lift (ok_or row (NotFound ''Money request not found''))) (\<lambda>r.
     thn (guard (\<not> (actor_id \<noteq> r_requester_id r \<and> actor_id \<noteq> r_debtor_id r))
            (NotFound ''Money request not found''))
     (pool_fetch (event_trail ''request'' request_id))))"

section \<open>The life cycle\<close>

text \<open>A request is resolved at most once, from \<open>pending\<close>.\<close>

inductive request_step :: "request_row \<Rightarrow> request_row \<Rightarrow> bool" where
  resolves: "r_status r = ''pending'' \<Longrightarrow> st \<in> {''accepted'', ''rejected'', ''cancelled''} \<Longrightarrow>
     request_step r (resolve_as st now r)"

inductive_cases request_stepE [elim]: "request_step r r'"

definition pending :: "request_row \<Rightarrow> bool" where
  "pending r \<longleftrightarrow> r_status r = ''pending''"

interpretation rq: life_cycle request_step r_id
  by unfold_locales (auto simp: resolve_as_def)

lemma request_evolves_keeps:
  assumes "row_evolves request_step r r'"
  shows "r_requester_id r' = r_requester_id r" "r_debtor_id r' = r_debtor_id r"
    "r_amount_paisa r' = r_amount_paisa r"
  by (rule row_evolves_keeps [OF assms], auto simp: resolve_as_def)+

lemma request_evolves_terminal:
  "row_evolves request_step r r' \<Longrightarrow> r_status r \<noteq> ''pending'' \<Longrightarrow> r' = r"
  by (rule row_evolves_terminal [where step = request_step]) auto

text \<open>\<open>request_ids_ok\<close>: the primary key of the table.\<close>

definition request_ids_ok :: "database \<Rightarrow> bool" where
  "request_ids_ok d \<longleftrightarrow> distinct (map r_id (requests d))"

lemma find_request_Some:
  assumes "find_request i d = Some r"
  shows "r \<in> set (requests d)" "r_id r = i"
  using assms by (auto simp: find_request_def dest: find_Some_in)

section \<open>What the handlers do to the database\<close>

lemma runs_lock_request: "runs (lock_request i) d r d' \<longleftrightarrow> d' = d \<and> find_request i d = Some r"
  by (auto simp: lock_request_def elim!: runs_bndE) (auto simp: runs_def bnd_run fetch_proceeds lift_run
      intro!: exI [of _ "[]"])

definition request_run ::
  "'r platform \<Rightarrow> draws \<times> uuid \<times> uuid \<times> request_row \<Rightarrow> database \<Rightarrow> request_row \<Rightarrow> database \<Rightarrow> bool" where
  "request_run P = (\<lambda>(D, actor, key, r) d x d'. find_request (r_id r) d = Some r \<and>
     runs (accept_request_tx P D actor (r_id r) key) d x d')"

definition request_entry :: "draws \<times> uuid \<times> uuid \<times> request_row \<Rightarrow> database \<Rightarrow> transfer_row" where
  "request_entry = (\<lambda>(D, actor, key, r) d. payment_of D r key)"

text \<open>The tail of the payment: the request is resolved and the event logged.\<close>

lemma pay_request_tail:
  assumes "runs (thn (execute (update_request i f)) (log_event_txn now et j ev a re m)) d x d'"
  shows "same_money d d'" "requests d' = update_where (\<lambda>r. r_id r = i) f (requests d)" "links d' = links d"
proof -
  from assms obtain d1 where u: "update_request i f d = Inr d1"
    and l: "runs (log_event_txn now et j ev a re m) d1 x d'" by (auto elim!: runs_thnE)
  from update_request_Inr [OF u] runs_log_event_txn [OF l]
  show "same_money d d'" "requests d' = update_where (\<lambda>r. r_id r = i) f (requests d)" "links d' = links d"
    by (simp_all add: same_money_def)
qed

lemma pay_request_moves:
  assumes run: "runs (pay_request P D actor key r x y) d z d'" and acc: "accounts_ok d"
    and bal: "\<exists>b \<in> set (balances d). b_user_id b = r_debtor_id r \<and> b_amount_paisa b = x"
      "\<exists>b \<in> set (balances d). b_user_id b = r_requester_id r \<and> b_amount_paisa b = y"
    and le: "r_amount_paisa r \<le> x"
  shows "moves (payment_of D r key) d d'"
    and "requests d' = update_where (\<lambda>q. r_id q = r_id r) (resolve_as ''accepted'' (clock D 31)) (requests d)"
    and "links d' = links d" and "booked_as ''request_paid'' (payment_of D r key) d d'"
proof -
  note run' = run [unfolded pay_request_def payment_of_def Let_def]
  show "moves (payment_of D r key) d d'"
    unfolding payment_of_def
    by (rule movement_moves(1) [OF acc bal(1) le bal(2) run'])
      (simp_all add: pay_request_tail(1))
  show "booked_as ''request_paid'' (payment_of D r key) d d'"
    unfolding payment_of_def
    by (rule movement_moves(2) [OF acc bal(1) le bal(2) run'])
      (simp_all add: pay_request_tail(1))
  from pay_request_tail(2,3) [OF movement_statements(1) [OF run']]
  show "requests d' = update_where (\<lambda>q. r_id q = r_id r) (resolve_as ''accepted'' (clock D 31)) (requests d)"
    "links d' = links d" by simp_all
qed

lemma accept_request_tx_runs:
  assumes run: "runs (accept_request_tx P D actor i key) d x d'" and acc: "accounts_ok d"
  shows "find_request i d = Some x" "r_status x = ''pending''" "actor = r_debtor_id x"
    "moves (payment_of D x key) d d'" "links d' = links d"
    "requests d' = update_where (\<lambda>q. r_id q = i) (resolve_as ''accepted'' (clock D 31)) (requests d)"
    "booked_as ''request_paid'' (payment_of D x key) d d'"
proof -
  from run obtain r sb rb d1 where l: "runs (lock_request i) d r d"
    and g: "r_status r = ''pending''" "actor = r_debtor_id r" "\<not> sb < r_amount_paisa r"
    and b: "runs (read_balances ''Balances not found'' ''Debtor balance missing'' ''Requester balance missing''
             (r_debtor_id r) (r_requester_id r)) d (sb, rb) d1"
    and p: "runs (pay_request P D actor key r sb rb) d1 () d'" and x: "x = r"
    unfolding accept_request_tx_def
    by (auto elim!: runs_bndE runs_thnE [of "guard _ _"] runs_thnE [of "pay_request _ _ _ _ _ _ _"]
        simp: runs_lock_request split: prod.splits)
  from l have f: "find_request i d = Some r" by (simp add: runs_lock_request)
  note rb = runs_read_balances [OF b] and pay = pay_request_moves [OF p [unfolded runs_read_balances(1) [OF b]] acc]
  from f g x show "find_request i d = Some x" "r_status x = ''pending''" "actor = r_debtor_id x" by simp_all
  from pay [OF rb(2,3)] g(3) x show "moves (payment_of D x key) d d'" "links d' = links d"
    "booked_as ''request_paid'' (payment_of D x key) d d'" by simp_all
  from pay(2) [OF rb(2,3)] g(3) find_request_Some(2) [OF f]
  show "requests d' = update_where (\<lambda>q. r_id q = i) (resolve_as ''accepted'' (clock D 31)) (requests d)"
    by simp
qed

interpretation rm: money_movement "request_run P" request_entry
  by unfold_locales
    (clarsimp simp: request_run_def request_entry_def, metis accept_request_tx_runs(1,4) option.inject)

lemma close_request_runs:
  assumes "runs (close_request st D actor owner i ct ft reason) d x d'"
  shows "find_request i d = Some x" "r_status x = ''pending''" "actor = owner x"
    "same_money d d'" "links d' = links d"
    "requests d' = update_where (\<lambda>q. r_id q = i) (resolve_as st (clock D 31)) (requests d)"
proof -
  from assms obtain r d1 where f: "find_request i d = Some r" and g: "r_status r = ''pending''" "actor = owner r"
    and u: "update_request i (resolve_as st (clock D 31)) d = Inr d1"
    and l: "runs (log_event_txn (clock D 30) ''request'' i st (Some actor) reason
              (JObj [(''status'', JStr st)])) d1 () d'" and x: "x = r"
    unfolding close_request_def
    by (auto elim!: runs_bndE runs_thnE simp: runs_lock_request)
  from f g x show "find_request i d = Some x" "r_status x = ''pending''" "actor = owner x" by simp_all
  from update_request_Inr [OF u] runs_log_event_txn [OF l]
  show "same_money d d'" "links d' = links d"
    "requests d' = update_where (\<lambda>q. r_id q = i) (resolve_as st (clock D 31)) (requests d)"
    by (simp_all add: same_money_def)
qed

lemma create_request_runs:
  assumes "runs (create_request_tx P D r) d x d'"
  shows "same_money d d'" "links d' = links d" "requests d' = requests d @ [r]"
    "r_id r \<notin> set (map r_id (requests d))" "r_requester_id r \<noteq> r_debtor_id r"
proof -
  from assms obtain d1 y where i: "insert_request r d = Inr d1"
    and l: "runs (log_event_txn (clock D 30) ''request'' (r_id r) ''created'' (Some (r_requester_id r))
        ''Money request created''
        (JObj [(''requester_id'', JStr (uuid_to_string P (r_requester_id r))),
               (''debtor_id'', JStr (uuid_to_string P (r_debtor_id r))),
               (''amount_paisa'', JInt (r_amount_paisa r))])) d1 y d'"
    unfolding create_request_tx_def by (auto elim!: runs_thnE)
  from insert_request_Inr [OF i] runs_log_event_txn [OF l]
  show "same_money d d'" "links d' = links d" "requests d' = requests d @ [r]"
    "r_id r \<notin> set (map r_id (requests d))" "r_requester_id r \<noteq> r_debtor_id r"
    by (simp_all add: same_money_def)
qed

text \<open>
  \<open>request_change d d'\<close>: the abstract effect of any request handler, successful or not.
\<close>

definition request_change :: "database \<Rightarrow> database \<Rightarrow> bool" where
  "request_change d d' \<longleftrightarrow> table_evolves request_step pending (requests d) (requests d') \<and> links d' = links d \<and>
     (same_money d d' \<or> (\<exists>t. moves t d d')) \<and>
     (request_ids_ok d \<longrightarrow> request_ids_ok d')"

lemma request_change_refl [simp]: "request_change d d"
  by (simp add: request_change_def)

lemma only_events_request_change: "only_events d d' \<Longrightarrow> request_change d d'"
  by (simp add: request_change_def only_events_eq only_events_same_money request_ids_ok_def)

lemma request_change_books: "request_change d d' \<Longrightarrow> books d \<Longrightarrow> books d'"
  by (auto simp: request_change_def same_money_books moves_books)

lemma resolved_change:
  assumes f: "find_request i d = Some x" "r_status x = ''pending''" and ids: "request_ids_ok d"
    and st: "st \<in> {''accepted'', ''rejected'', ''cancelled''}"
    and r: "requests d' = update_where (\<lambda>q. r_id q = i) (resolve_as st now) (requests d)"
  shows "table_evolves request_step pending (requests d) (requests d')" "request_ids_ok d'"
proof -
  show "table_evolves request_step pending (requests d) (requests d')"
    unfolding r find_request_Some(2) [OF f(1), symmetric]
    by (rule table_evolves_update_key)
      (use ids f st find_request_Some(1) [OF f(1)] in \<open>auto simp: request_ids_ok_def intro: request_step.intros\<close>)
  have "map r_id (requests d') = map r_id (requests d)"
    unfolding r by (simp add: map_update_where resolve_as_def)
  with ids show "request_ids_ok d'" by (simp add: request_ids_ok_def)
qed

lemma tx_request_change:
  assumes ids: "request_ids_ok d" and acc: "accounts_ok d"
  shows "runs (accept_request_tx P D actor i key) d x d' \<Longrightarrow> request_change d d'"
    and "runs (close_request st D actor owner i ct ft reason) d x d' \<Longrightarrow>
      st \<in> {''accepted'', ''rejected'', ''cancelled''} \<Longrightarrow> request_change d d'"
    and "runs (create_request_tx P D r) d y d' \<Longrightarrow> r_status r = ''pending'' \<Longrightarrow> request_change d d'"
proof -
  show "request_change d d'" if run: "runs (accept_request_tx P D actor i key) d x d'"
  proof -
    note a = accept_request_tx_runs [OF run acc]
    from resolved_change [OF a(1,2) ids _ a(6)] a(4,5) show ?thesis
      by (auto simp: request_change_def)
  qed
  show "request_change d d'" if run: "runs (close_request st D actor owner i ct ft reason) d x d'"
    and st: "st \<in> {''accepted'', ''rejected'', ''cancelled''}"
  proof -
    note a = close_request_runs [OF run]
    from resolved_change [OF a(1,2) ids st a(6)] a(4,5) show ?thesis
      by (auto simp: request_change_def)
  qed
  show "request_change d d'" if run: "runs (create_request_tx P D r) d y d'" "r_status r = ''pending''"
    using create_request_runs [OF run(1)] table_evolves_append [of pending r request_step "requests d"] that(2) ids
    by (auto simp: request_change_def request_ids_ok_def pending_def)
qed

text \<open>
  How a service ends: it has only logged events (its checks failed), or one transaction of it has
  run to its commit.
\<close>

lemma transaction_bnd:
  assumes "bnd (transaction body) k w = (r, w')" and "\<And>x w. db (snd (k x w)) = db w"
  shows "db w' = db w \<or> (\<exists>x. runs body (db w) x (db w'))"
  using assms(1)
proof (cases rule: bnd_cases)
  case (failed e)
  from transaction_atomic [OF failed(1)] show ?thesis .
next
  case (passed x w1)
  from assms(2) [of x w1] passed(2) have "db w' = db w1" by simp
  with transaction_Ok [OF passed(1)] show ?thesis by auto
qed

lemma create_request_db:
  assumes "create_request P D me req w = (r, w')"
  shows "db w' = db w \<or> (\<exists>a debtor x. runs (create_request_tx P D
     (pending_request D me debtor a (clean_note (cm_note req)))) (db w) x (db w'))"
  using assms unfolding create_request_def
proof (cases rule: bnd_cases)
  case (failed e)
  then show ?thesis by (simp add: lift_run)
next
  case (passed a w1)
  then have "w1 = w" by (simp add: lift_run)
  from passed(2) show ?thesis
  proof (cases rule: bnd_cases)
    case (failed e)
    with resolve_recipient_db \<open>w1 = w\<close> show ?thesis by blast
  next
    case (passed debtor w2)
    have "db w2 = db w" using resolve_recipient_db [OF passed(1)] \<open>w1 = w\<close> by simp
    with passed(2) transaction_bnd [of "create_request_tx P D _" _ w2 r w'] show ?thesis
      by (fastforce simp: thn_def bnd_run guard_run ret_run Let_def split: if_splits)
  qed
qed

lemma accept_request_db:
  assumes "accept_request P D actor i payload w = (r, w')"
  shows "only_events (db w) (db w') \<or>
    pin_verified P actor (am_pin payload) (db w) \<and>
    (\<exists>x. runs (accept_request_tx P D actor i (am_idempotency_key payload)) (db w) x (db w'))"
  using assms unfolding accept_request_def thn_def
proof (cases rule: bnd_cases)
  case (failed e)
  then show ?thesis using enforce_user_pin_db by blast
next
  case (passed x w1)
  note pin = enforce_user_pin_verified [OF passed(1)]
  from transaction_bnd [OF passed(2)] pin show ?thesis
    by (auto simp: Let_def bnd_run mail_run ret_run)
qed

lemma close_services_db:
  "reject_request D actor i w = (r, w') \<Longrightarrow> db w' = db w \<or> (\<exists>x. runs (close_request ''rejected'' D actor
     r_debtor_id i ''Money request is already '' ''Only the debtor can reject this request''
     ''Money request rejected by debtor'') (db w) x (db w'))"
  "cancel_request D actor i w = (r, w') \<Longrightarrow> db w' = db w \<or> (\<exists>x. runs (close_request ''cancelled'' D actor
     r_requester_id i ''Money request cannot be cancelled because it is already ''
     ''Only the requester can cancel this request'' ''Money request cancelled by requester'') (db w) x (db w'))"
  unfolding reject_request_def cancel_request_def
  by (rule transaction_bnd, assumption, simp add: ret_run)+

datatype request_action =
    CreateRequest create_money_request
  | AcceptRequest uuid accept_money_request
  | RejectRequest uuid
  | CancelRequest uuid

fun request_op :: "'r platform \<Rightarrow> draws \<Rightarrow> uuid \<Rightarrow> request_action \<Rightarrow> 'r world \<Rightarrow> 'r world" where
  "request_op P D actor (CreateRequest req) w = snd (create_request P D actor req w)"
| "request_op P D actor (AcceptRequest i payload) w = snd (accept_request P D actor i payload w)"
| "request_op P D actor (RejectRequest i) w = snd (reject_request D actor i w)"
| "request_op P D actor (CancelRequest i) w = snd (cancel_request D actor i w)"

lemma request_op_change:
  assumes "request_ids_ok (db w)" "accounts_ok (db w)"
  shows "request_change (db w) (db (request_op P D actor act w))"
proof -
  note tx = tx_request_change [OF assms]
  show ?thesis
  proof (cases act)
    case (CreateRequest req)
    obtain r w' where run: "create_request P D actor req w = (r, w')" by fastforce
    have "r_status (pending_request D actor debtor a n) = ''pending''" for debtor a n
      by (simp add: pending_request_def)
    with create_request_db [OF run] tx(3) have "request_change (db w) (db w')"
      using request_change_refl by metis
    then show ?thesis by (simp add: CreateRequest run)
  next
    case (AcceptRequest i payload)
    obtain r w' where run: "accept_request P D actor i payload w = (r, w')" by fastforce
    from accept_request_db [OF run] tx(1) only_events_request_change show ?thesis
      by (auto simp: AcceptRequest run)
  next
    case (RejectRequest i)
    obtain r w' where run: "reject_request D actor i w = (r, w')" by fastforce
    from close_services_db(1) [OF run] tx(2) show ?thesis by (auto simp: RejectRequest run)
  next
    case (CancelRequest i)
    obtain r w' where run: "cancel_request D actor i w = (r, w')" by fastforce
    from close_services_db(2) [OF run] tx(2) show ?thesis by (auto simp: CancelRequest run)
  qed
qed

section \<open>Properties\<close>

lemma find_request_resolved:
  assumes "find_request i d = Some x"
    "requests d' = update_where (\<lambda>q. r_id q = i) (resolve_as st now) (requests d)"
  shows "find_request i d' = Some (resolve_as st now x)"
proof -
  have "find_request i d' = map_option (\<lambda>x. if r_id x = i then resolve_as st now x else x) (find_request i d)"
    unfolding find_request_def assms(2) by (rule find_update_where) (simp add: resolve_as_def)
  with assms(1) find_request_Some(2) [OF assms(1)] show ?thesis by simp
qed

lemma accept_request_step:
  assumes b: "books (db w)" and run: "accept_request P D actor i payload w = (r, w')"
  shows "(same_money (db w) (db w') \<and> requests (db w') = requests (db w) \<and> (\<exists>e. r = Inl e)) \<or>
    (\<exists>x. find_request i (db w) = Some x \<and> r_status x = ''pending'' \<and> actor = r_debtor_id x \<and>
       pin_verified P actor (am_pin payload) (db w) \<and>
       moves (payment_of D x (am_idempotency_key payload)) (db w) (db w') \<and>
       find_request i (db w') = Some (resolve_as ''accepted'' (clock D 31) x))"
proof -
  have *: "pin_verified P actor (am_pin payload) (db w) \<Longrightarrow>
      runs (accept_request_tx P D actor i (am_idempotency_key payload)) (db w) x (db w') \<Longrightarrow> ?thesis" for x
    using accept_request_tx_runs [of P D actor i _ "db w" x "db w'"] books_accounts [OF b]
      find_request_resolved [of i "db w" x "db w'" "''accepted''" "clock D 31"] by blast
  have ok: "?thesis" if "r = Inr y" for y
  proof -
    from run that obtain w1 x w2 where 1: "enforce_user_pin P D actor (am_pin payload) w = (Inr (), w1)"
      and 2: "transaction (accept_request_tx P D actor i (am_idempotency_key payload)) w1 = (Inr x, w2)"
      and 3: "db w' = db w2"
      unfolding accept_request_def
      by (auto simp: thn_run bnd_run Let_def mail_run ret_run split: prod.splits sum.splits)
    from * [of x] enforce_user_pin_verified [OF 1] transaction_Ok [OF 2] 3 show ?thesis by simp
  qed
  show ?thesis
  proof (cases r)
    case (Inr y)
    then show ?thesis by (rule ok)
  next
    case (Inl e)
    with accept_request_db [OF run] * show ?thesis by (auto simp: only_events_same_money only_events_eq)
  qed
qed

text \<open>C13: When accepting a request answers Ok, the request was pending, the caller is its debtor and has
given the right PIN, the debtor had the amount, exactly that amount has moved from the debtor to the
requester and no other balance has changed, and the request is now accepted.\<close>

theorem accept_request_pays:
  assumes "books (db w)" "accept_request P D actor i payload w = (Inr y, w')"
  shows "\<exists>x. find_request i (db w) = Some x \<and> r_status x = ''pending'' \<and> actor = r_debtor_id x \<and>
    pin_verified P actor (am_pin payload) (db w) \<and> r_amount_paisa x \<le> balance_of (db w) actor \<and>
    (\<forall>u. balance_of (db w') u = (if u = actor then balance_of (db w) u - r_amount_paisa x
       else if u = r_requester_id x then balance_of (db w) u + r_amount_paisa x else balance_of (db w) u)) \<and>
    find_request i (db w') = Some (resolve_as ''accepted'' (clock D 31) x)"
proof -
  from accept_request_step [OF assms] obtain x where x: "find_request i (db w) = Some x"
    "r_status x = ''pending''" "actor = r_debtor_id x" "pin_verified P actor (am_pin payload) (db w)"
    "find_request i (db w') = Some (resolve_as ''accepted'' (clock D 31) x)"
    and m: "moves (payment_of D x (am_idempotency_key payload)) (db w) (db w')" by blast
  have "t_sender_id (payment_of D x k) = r_debtor_id x" "t_recipient_id (payment_of D x k) = r_requester_id x"
    "t_amount_paisa (payment_of D x k) = r_amount_paisa x" for k by (simp_all add: payment_of_def)
  with moves_balances [OF m books_balances_distinct [OF assms(1)]] x show ?thesis by simp
qed

definition sample_request_world :: "kv world" where
  "sample_request_world = snd (create_request sample_platform (sample_draws 500 4) bob
     \<lparr>cm_debtor = ''PSTU1'', cm_amount_paisa = ''20'', cm_note = None\<rparr> sample_world)"

definition sample_acceptance :: accept_money_request where
  "sample_acceptance = \<lparr>am_pin = ''1234'', am_idempotency_key = Uuid 88\<rparr>"

lemma sample_request_created:
  "db sample_request_world = sample_db\<lparr>requests := requests (db sample_request_world),
     events := events (db sample_request_world)\<rparr>"
  "map r_status (requests (db sample_request_world)) = [''pending'']"
  by code_simp+

lemma books_sample_request: "books (db sample_request_world)"
proof -
  have "same_money sample_db (db sample_request_world)"
    by (subst sample_request_created(1)) (simp add: same_money_def)
  with books_sample show ?thesis by (simp add: sample_world_def same_money_books)
qed

theorem accept_request_pays_witness:
  "\<exists>x. find_request (Uuid 430) (db sample_request_world) = Some x \<and> r_amount_paisa x \<le> 10000000"
proof -
  obtain r w' where run: "accept_request sample_platform (sample_draws 1000 2) alice (Uuid 430)
      sample_acceptance sample_request_world = (r, w')" by fastforce
  have "isl (fst (accept_request sample_platform (sample_draws 1000 2) alice (Uuid 430)
      sample_acceptance sample_request_world)) = False" by code_simp
  then obtain y where "r = Inr y" unfolding run by (cases r) auto
  moreover have "balance_of (db sample_request_world) alice = 10000000" by code_simp
  ultimately show ?thesis
    using accept_request_pays [OF books_sample_request, of sample_platform "sample_draws 1000 2" alice
        "Uuid 430" sample_acceptance y w'] run by auto
qed

subsection \<open>Acceptances in a row\<close>

fun acceptances ::
  "'r platform \<Rightarrow> uuid \<Rightarrow> (draws \<times> uuid \<times> accept_money_request) list \<Rightarrow> 'r world \<Rightarrow>
     (app_error + money_request_dto \<times> transfer_response) list \<times> 'r world" where
  "acceptances P i [] w = ([], w)"
| "acceptances P i ((D, actor, payload) # xs) w =
     (case accept_request P D actor i payload w of (r, w1) \<Rightarrow>
      case acceptances P i xs w1 of (rs, w2) \<Rightarrow> (r # rs, w2))"

lemma acceptances_resolved:
  assumes "books (db w)" "find_request i (db w) = Some x" "r_status x \<noteq> ''pending''"
    "acceptances P i xs w = (rs, w')"
  shows "same_money (db w) (db w') \<and> (\<forall>r \<in> set rs. isl r)"
  using assms
proof (induction xs arbitrary: w rs)
  case Nil
  then show ?case by simp
next
  case (Cons y xs)
  obtain D actor payload where y: "y = (D, actor, payload)" by (cases y)
  obtain r w1 where r: "accept_request P D actor i payload w = (r, w1)" by fastforce
  with Cons.prems(4) y obtain rs' where a: "acceptances P i xs w1 = (rs', w')" and rs: "rs = r # rs'"
    by (auto split: prod.splits)
  from accept_request_step [OF Cons.prems(1) r] Cons.prems(2,3)
  have s: "same_money (db w) (db w1)" "requests (db w1) = requests (db w)" "isl r" by auto
  then have "books (db w1)" "find_request i (db w1) = Some x"
    using Cons.prems(1,2) same_money_books [OF s(1)] by (simp_all add: find_request_def)
  from Cons.IH [OF this Cons.prems(3) a] s rs show ?case by (auto intro: same_money_trans)
qed

text \<open>C7: A money request is paid at most once.  Whoever tries to accept it, how often, with which keys
and through which failures: either its amount has moved from its debtor once, or no balance has changed
and no attempt was told that it succeeded.\<close>

theorem request_paid_at_most_once:
  assumes "books (db w)" "find_request i (db w) = Some x" "acceptances P i xs w = (rs, w')"
  shows "moved_once (r_debtor_id x) (r_amount_paisa x) (db w) (db w') \<or>
    (\<forall>u. balance_of (db w') u = balance_of (db w) u) \<and> (\<forall>r \<in> set rs. isl r)"
  using assms
proof (induction xs arbitrary: w rs)
  case Nil
  then show ?case by simp
next
  case (Cons y xs)
  obtain D actor payload where y: "y = (D, actor, payload)" by (cases y)
  obtain r w1 where r: "accept_request P D actor i payload w = (r, w1)" by fastforce
  with Cons.prems(3) y obtain rs' where a: "acceptances P i xs w1 = (rs', w')" and rs: "rs = r # rs'"
    by (auto split: prod.splits)
  from accept_request_step [OF Cons.prems(1) r] show ?case
  proof (elim disjE exE conjE)
    fix e assume s: "same_money (db w) (db w1)" "requests (db w1) = requests (db w)" and e: "r = Inl e"
    then have "books (db w1)" "find_request i (db w1) = Some x"
      using Cons.prems(1,2) same_money_books [OF s(1)] by (simp_all add: find_request_def)
    moreover note same_money_balances [OF s(1)] moved_once_cong(1) [OF same_money_balances [OF s(1)]]
    ultimately show ?thesis using Cons.IH [OF _ _ a] e rs by auto
  next
    fix x' assume x': "find_request i (db w) = Some x'"
      and m: "moves (payment_of D x' (am_idempotency_key payload)) (db w) (db w1)"
      and f: "find_request i (db w1) = Some (resolve_as ''accepted'' (clock D 31) x')"
    have "books (db w1)" using moves_books [OF m Cons.prems(1)] .
    from acceptances_resolved [OF this f _ a] have "same_money (db w1) (db w')"
      by (simp add: resolve_as_def)
    moreover have "moved_once (r_debtor_id x) (r_amount_paisa x) (db w) (db w1)"
      using moves_moved_once [OF m Cons.prems(1)] x' Cons.prems(2) by (simp add: payment_of_def)
    ultimately show ?thesis by (simp add: moved_once_def same_money_balance_of)
  qed
qed

theorem request_paid_at_most_once_witness:
  "moved_once alice 20 (db sample_request_world)
     (db (snd (acceptances sample_platform (Uuid 430)
        [(sample_draws 1000 2, alice, sample_acceptance), (sample_draws 2000 3, alice, sample_acceptance)]
        sample_request_world)))"
proof -
  let ?xs = "[(sample_draws 1000 2, alice, sample_acceptance), (sample_draws 2000 3, alice, sample_acceptance)]"
  obtain rs w' where run: "acceptances sample_platform (Uuid 430) ?xs sample_request_world = (rs, w')"
    by fastforce
  have "\<not> list_all isl (fst (acceptances sample_platform (Uuid 430) ?xs sample_request_world))" by code_simp
  then have "\<not> (\<forall>r \<in> set rs. isl r)" unfolding run by (simp add: list_all_iff)
  moreover have "map_option (\<lambda>x. (r_debtor_id x, r_amount_paisa x)) (find_request (Uuid 430) (db sample_request_world)) =
      Some (alice, 20)" by code_simp
  ultimately show ?thesis
    using request_paid_at_most_once [OF books_sample_request _ run] unfolding run by auto
qed

end
