(* ===== verification/Links.thy ===== *)
theory Links
  imports Requests
begin

text \<open>
  Payment links (\<open>src/features/links/service.rs\<close>): a creator puts an amount behind a secret token
  with a time to live; whoever holds the token and is not the creator claims it once.  The second
  half proves the life cycle of a link, that a claim is a movement of money, and that a link pays
  at most once.
\<close>

section \<open>Data\<close>

definition MIN_LINK_TTL_SECS :: int where "MIN_LINK_TTL_SECS = 60"
definition MAX_LINK_TTL_SECS :: int where "MAX_LINK_TTL_SECS = 86400"

record create_payment_link_request =
  cl_amount_paisa :: str
  cl_note :: "str option"
  cl_expires_in_seconds :: "int option"
  cl_pin :: str

record claim_payment_link_request =
  cp_pin :: str
  cp_idempotency_key :: uuid

record payment_link_dto =
  pl_id :: uuid
  pl_token :: str
  pl_url :: str
  pl_amount_paisa :: str
  pl_note :: str
  pl_creator_name :: "str option"
  pl_status :: str
  pl_expires_at :: int
  pl_created_at :: int
  pl_claimed_at :: "int option"
  pl_cancelled_at :: "int option"
  pl_claimer :: "event_counterparty option"

definition link_dto ::
  "link_row \<Rightarrow> str \<Rightarrow> str option \<Rightarrow> int option \<Rightarrow> int option \<Rightarrow> event_counterparty option \<Rightarrow> payment_link_dto" where
  "link_dto k status creator claimed_at cancelled_at claimer =
     \<lparr>pl_id = k_id k, pl_token = k_token k, pl_url = ''/l/'' @ k_token k,
      pl_amount_paisa = show_int (k_amount_paisa k), pl_note = k_note k, pl_creator_name = creator,
      pl_status = status, pl_expires_at = k_expires_at k, pl_created_at = k_created_at k,
      pl_claimed_at = claimed_at, pl_cancelled_at = cancelled_at, pl_claimer = claimer\<rparr>"

section \<open>Creating\<close>

text \<open>\<open>hex::encode\<close>: two lower-case digits for each byte.\<close>

definition hex_digit :: "nat \<Rightarrow> char" where
  "hex_digit n = ''0123456789abcdef'' ! n"

definition hex_encode :: "8 word list \<Rightarrow> str" where
  "hex_encode bytes = concat (map (\<lambda>b. [hex_digit (unat b div 16), hex_digit (unat b mod 16)]) bytes)"

definition generate_link_token :: "draws \<Rightarrow> str" where
  "generate_link_token D = hex_encode (rng_fill D 16)"

definition active_link :: "draws \<Rightarrow> uuid \<Rightarrow> int \<Rightarrow> str \<Rightarrow> int \<Rightarrow> link_row" where
  "active_link D creator amount note ttl_secs =
     \<lparr>k_id = new_v4 D 40, k_creator_id = creator, k_amount_paisa = amount, k_note = note,
      k_token = generate_link_token D, k_status = ''active'', k_claimer_id = None, k_transfer_id = None,
      k_expires_at = clock D 41 + ttl_secs * 1000000, k_created_at = clock D 41, k_claimed_at = None,
      k_cancelled_at = None\<rparr>"

definition create_link_tx :: "'r platform \<Rightarrow> draws \<Rightarrow> int \<Rightarrow> link_row \<Rightarrow> unit tx" where
  "create_link_tx P D ttl_secs k =
     thn (execute (insert_link k))
     (log_event_txn (clock D 40) ''link'' (k_id k) ''created'' (Some (k_creator_id k))
        ''Payment link created''
        (JObj [(''creator_id'', JStr (uuid_to_string P (k_creator_id k))),
               (''amount_paisa'', JInt (k_amount_paisa k)), (''ttl_secs'', JInt ttl_secs)]))"

definition create_link ::
  "'r platform \<Rightarrow> draws \<Rightarrow> uuid \<Rightarrow> create_payment_link_request \<Rightarrow> ('r, payment_link_dto) service" where
  "create_link P D creator_id req =
     thn (enforce_user_pin P D creator_id (cl_pin req))
     (bnd (lift (parse_amount (cl_amount_paisa req))) (\<lambda>amount.
      let ttl_secs = var_or (cl_expires_in_seconds req) (default_link_ttl_secs (config P)) in
      if \<not> (MIN_LINK_TTL_SECS \<le> ttl_secs \<and> ttl_secs \<le> MAX_LINK_TTL_SECS)
      then throw (BadRequest (''expires_in_seconds must be between '' @ show_int MIN_LINK_TTL_SECS @
             '' and '' @ show_int MAX_LINK_TTL_SECS @ '' seconds''))
      else (let k = active_link D creator_id (as_paisa amount) (clean_note (cl_note req)) ttl_secs in
       thn (transaction (create_link_tx P D ttl_secs k))
       (ret (link_dto k ''active'' None None None None)))))"

section \<open>Reading\<close>

definition find_link_by_token :: "str \<Rightarrow> database \<Rightarrow> link_row option" where
  "find_link_by_token token d = find (\<lambda>k. k_token k = token) (links d)"

definition find_link :: "uuid \<Rightarrow> database \<Rightarrow> link_row option" where
  "find_link i d = find (\<lambda>k. k_id k = i) (links d)"

definition expire_link :: "link_row \<Rightarrow> link_row" where
  "expire_link k = k\<lparr>k_status := ''expired''\<rparr>"

text \<open>\<open>payment_links pl JOIN users u ON u.id = pl.creator_id\<close>.\<close>

definition link_with_creator :: "str \<Rightarrow> database \<Rightarrow> (link_row \<times> user_row) option" where
  "link_with_creator token d =
     Option.bind (find_link_by_token token d) (\<lambda>k.
     map_option (\<lambda>u. (k, u)) (find_user (k_creator_id k) d))"

definition get_link_by_token :: "draws \<Rightarrow> str \<Rightarrow> ('r, payment_link_dto) service" where
  "get_link_by_token D token =
     bnd (pool_fetch (link_with_creator token)) (\<lambda>row.
     bnd (lift (ok_or row (NotFound ''Payment link not found''))) (\<lambda>(k, u).
     let lapsed = (k_status k = ''active'' \<and> k_expires_at k < clock D 41);
         status = (if lapsed then ''expired'' else k_status k) in
     thn (if lapsed then discard (pool_execute (update_link (k_id k) expire_link)) else ret ())
     (ret (link_dto k status (Some (u_name u)) (k_claimed_at k) (k_cancelled_at k) None))))"

record get_my_links_query =
  lq_status :: "str option"
  lq_cursor :: "int option"
  lq_limit :: "int option"

definition selected_links :: "uuid \<Rightarrow> get_my_links_query \<Rightarrow> database \<Rightarrow> link_row list" where
  "selected_links creator_id q d =
     filter (\<lambda>k. k_creator_id k = creator_id \<and>
               (lq_status q = None \<or> lq_status q = Some (k_status k))) (links d)"

definition claimer_info :: "database \<Rightarrow> link_row \<Rightarrow> event_counterparty option" where
  "claimer_info d k = Option.bind (k_claimer_id k) (\<lambda>c.
     map_option (\<lambda>u. \<lparr>ec_name = u_name u, ec_account_number = u_account_number u\<rparr>) (find_user c d))"

definition get_my_links ::
  "uuid \<Rightarrow> get_my_links_query \<Rightarrow> ('r, payment_link_dto list \<times> int option) service" where
  "get_my_links creator_id q =
     (let limit = clamp_limit (lq_limit q) in
      pool_fetch (\<lambda>d. case keyset_page k_created_at limit (lq_cursor q) (selected_links creator_id q d) of
        (rows, nxt) \<Rightarrow>
          (map (\<lambda>k. link_dto k (k_status k) None (k_claimed_at k) (k_cancelled_at k) (claimer_info d k)) rows,
           nxt)))"

definition get_link_events :: "uuid \<Rightarrow> uuid \<Rightarrow> ('r, process_event_dto list) service" where
  "get_link_events actor_id link_id =
     bnd (pool_fetch (find_link link_id)) (\<lambda>row.
     bnd (lift (ok_or row (NotFound ''Payment link not found''))) (\<lambda>k.
     thn (guard (\<not> (actor_id \<noteq> k_creator_id k \<and> k_claimer_id k \<noteq> Some actor_id))
            (NotFound ''Payment link not found''))
     (pool_fetch (event_trail ''link'' link_id))))"

section \<open>Claiming\<close>

definition lock_link :: "str \<Rightarrow> link_row tx" where
  "lock_link token =
     bnd (fetch (find_link_by_token token)) (\<lambda>row.
     lift (ok_or row (NotFound ''Payment link not found'')))"

text \<open>
  How the transaction of a claim ends: a replay leaves it without a commit, an expired link is
  marked and reported after the commit, and a claim has paid.
\<close>

datatype claim_result =
    Replayed link_row uuid str
  | FoundExpired
  | ClaimedNow link_row

fun leaves_uncommitted :: "claim_result \<Rightarrow> bool" where
  "leaves_uncommitted (Replayed _ _ _) = True"
| "leaves_uncommitted FoundExpired = False"
| "leaves_uncommitted (ClaimedNow _) = False"

definition claim_payment :: "draws \<Rightarrow> uuid \<Rightarrow> link_row \<Rightarrow> uuid \<Rightarrow> transfer_row" where
  "claim_payment D claimer k key =
     \<lparr>t_id = new_v4 D 41, t_reference = generate_trx_reference D, t_sender_id = k_creator_id k,
      t_recipient_id = claimer, t_amount_paisa = k_amount_paisa k, t_note = k_note k,
      t_status = ''completed'', t_idempotency_key = key, t_created_at = clock D 40\<rparr>"

definition mark_claimed :: "uuid \<Rightarrow> uuid \<Rightarrow> int \<Rightarrow> link_row \<Rightarrow> link_row" where
  "mark_claimed claimer transfer_id now k =
     k\<lparr>k_status := ''claimed'', k_claimer_id := Some claimer, k_transfer_id := Some transfer_id,
       k_claimed_at := Some now\<rparr>"

definition replay_claim :: "draws \<Rightarrow> uuid \<Rightarrow> link_row \<Rightarrow> claim_result tx" where
  "replay_claim D claimer_id k =
     (if k_claimer_id k = Some claimer_id
      then (let tid = var_or (k_transfer_id k) (k_id k) in
        bnd (fetch (find_transfer tid)) (\<lambda>t.
        ret (Replayed k tid (var_or (map_option t_reference t) (generate_trx_reference D)))))
      else throw (Conflict ''Payment link was already claimed by another user''))"

definition expire_claim :: "draws \<Rightarrow> uuid \<Rightarrow> str \<Rightarrow> link_row \<Rightarrow> claim_result tx" where
  "expire_claim D claimer_id token k =
     thn (execute (update_link (k_id k) expire_link))
     (thn (log_event_txn (clock D 40) ''link'' (k_id k) ''expired'' (Some claimer_id)
             ''Claim attempted on expired link'' (JObj [(''token'', JStr token)]))
     (ret FoundExpired))"

definition pay_link ::
  "'r platform \<Rightarrow> draws \<Rightarrow> uuid \<Rightarrow> uuid \<Rightarrow> link_row \<Rightarrow> int \<Rightarrow> int \<Rightarrow> unit tx" where
  "pay_link P D claimer key k creator_bal claimer_bal =
     (let creator = k_creator_id k; amount = k_amount_paisa k;
          new_creator_bal = i64_sub creator_bal amount;
          new_claimer_bal = i64_add claimer_bal amount;
          now = clock D 40; transfer_id = new_v4 D 41; reference = generate_trx_reference D
      in thn (execute (update_balance now new_creator_bal creator))
        (thn (execute (update_balance now new_claimer_bal claimer))
        (thn (execute (insert_transfer (claim_payment D claimer k key)))
        (thn (execute (insert_ledger (ledger_entry now transfer_id reference creator (Some claimer)
               (-1) amount new_creator_bal ''link_paid'' (Some key))))
        (thn (execute (insert_ledger (ledger_entry now transfer_id reference claimer (Some creator)
               1 amount new_claimer_bal ''link_paid'' (Some key))))
        (thn (execute (insert_history (history_entry now creator ''completed'' ''link'' ''sent''
               amount new_creator_bal (Some claimer) reference (Some transfer_id) (k_note k) (Some key))))
        (thn (execute (insert_history (history_entry now claimer ''completed'' ''link'' ''received''
               amount new_claimer_bal (Some creator) reference (Some transfer_id) (k_note k) (Some key))))
        (thn (execute (update_link (k_id k) (mark_claimed claimer transfer_id (clock D 42))))
        (log_event_txn now ''link'' (k_id k) ''claimed'' (Some claimer)
           ''Payment link claimed successfully''
           (JObj [(''link_id'', JStr (uuid_to_string P (k_id k))),
                  (''claimer_id'', JStr (uuid_to_string P claimer)),
                  (''transfer_id'', JStr (uuid_to_string P transfer_id)),
                  (''reference'', JStr reference),
                  (''amount_paisa'', JInt amount)]))))))))))"

definition claim_link_tx ::
  "'r platform \<Rightarrow> draws \<Rightarrow> uuid \<Rightarrow> str \<Rightarrow> uuid \<Rightarrow> claim_result tx" where
  "claim_link_tx P D claimer_id token key =
     bnd (lock_link token) (\<lambda>k.
     if k_status k = ''claimed'' then replay_claim D claimer_id k
     else if k_status k = ''expired'' \<or> k_expires_at k < clock D 41
     then expire_claim D claimer_id token k
     else
       thn (guard (\<not> k_status k = ''cancelled'') (Conflict ''Payment link has been cancelled by creator''))
       (thn (guard (\<not> k_creator_id k = claimer_id) (BadRequest ''Cannot claim your own payment link''))
       (bnd (read_balances ''Balances not found'' ''Creator balance missing'' ''Claimer balance missing''
               (k_creator_id k) claimer_id) (\<lambda>(creator_bal, claimer_bal).
        thn (guard (\<not> creator_bal < k_amount_paisa k)
               (Unprocessable ''Creator has insufficient balance to fulfill link''))
        (thn (pay_link P D claimer_id key k creator_bal claimer_bal)
        (ret (ClaimedNow k)))))))"

definition claim_response ::
  "draws \<Rightarrow> uuid \<Rightarrow> link_row \<Rightarrow> uuid \<Rightarrow> str \<Rightarrow> int \<Rightarrow> transfer_response \<times> payment_link_dto" where
  "claim_response D claimer_id k tid tref at_time =
     (\<lparr>tr_id = tid, tr_reference = tref, tr_sender_id = k_creator_id k, tr_recipient_id = claimer_id,
       tr_amount_paisa = show_int (k_amount_paisa k), tr_note = k_note k, tr_status = ''completed'',
       tr_created_at = at_time\<rparr>,
      link_dto k ''claimed'' None (Some at_time) None None)"

definition claim_link ::
  "'r platform \<Rightarrow> draws \<Rightarrow> uuid \<Rightarrow> str \<Rightarrow> claim_payment_link_request \<Rightarrow>
     ('r, transfer_response \<times> payment_link_dto) service" where
  "claim_link P D claimer_id token payload =
     thn (enforce_user_pin P D claimer_id (cp_pin payload))
     (bnd (transaction_unless leaves_uncommitted
             (claim_link_tx P D claimer_id token (cp_idempotency_key payload))) (\<lambda>res.
      case res of
        Replayed k tid tref \<Rightarrow> ret (claim_response D claimer_id k tid tref (k_created_at k))
      | FoundExpired \<Rightarrow> throw (Gone ''Payment link has expired'')
      | ClaimedNow k \<Rightarrow>
          thn (dispatch_email P (uuid_to_string P (k_creator_id k) @ ''@pstupay.local'')
                 (''Payment Link Claimed - '' @ generate_trx_reference D)
                 [Text ''Your payment link for '', TakaAmount (k_amount_paisa k),
                  Text ('' has been claimed.'' @ [CHR 10] @ ''TrxID: '' @ generate_trx_reference D @ [CHR 10] @
                    ''Thank you,'' @ [CHR 10] @ ''PSTU Pay Team'')])
          (ret (claim_response D claimer_id k (new_v4 D 41) (generate_trx_reference D) (clock D 42)))))"

section \<open>Cancelling\<close>

definition mark_cancelled :: "int \<Rightarrow> link_row \<Rightarrow> link_row" where
  "mark_cancelled now k = k\<lparr>k_status := ''cancelled'', k_cancelled_at := Some now\<rparr>"

definition cancel_link_tx :: "draws \<Rightarrow> uuid \<Rightarrow> str \<Rightarrow> link_row tx" where
  "cancel_link_tx D actor_id token =
     bnd (lock_link token) (\<lambda>k.
     thn (guard (\<not> actor_id \<noteq> k_creator_id k) (Forbidden ''Only the link creator can cancel it''))
     (thn (guard (\<not> k_status k = ''claimed'')
             (Conflict ''Cannot cancel a link that is already claimed''))
     (thn (guard (\<not> k_status k = ''expired'') (Gone ''Cannot cancel an expired link''))
     (thn (execute (update_link (k_id k) (mark_cancelled (clock D 41))))
     (thn (log_event_txn (clock D 40) ''link'' (k_id k) ''cancelled'' (Some actor_id)
             ''Payment link cancelled by creator'' (JObj [(''token'', JStr token)]))
     (ret k))))))"

definition cancel_link :: "draws \<Rightarrow> uuid \<Rightarrow> str \<Rightarrow> ('r, payment_link_dto) service" where
  "cancel_link D actor_id token =
     bnd (transaction (cancel_link_tx D actor_id token)) (\<lambda>k.
     ret (link_dto k ''cancelled'' None None (Some (clock D 41)) None))"

section \<open>The life cycle\<close>

text \<open>
  A claimed link is final.  A cancelled link can still be marked expired by a claim that comes
  after its deadline, and cancelled again before it; both are what the code does.
\<close>

inductive link_step :: "link_row \<Rightarrow> link_row \<Rightarrow> bool" where
  claims: "k_status k \<notin> {''claimed'', ''expired'', ''cancelled''} \<Longrightarrow> link_step k (mark_claimed c t now k)"
| expires: "k_status k \<noteq> ''claimed'' \<Longrightarrow> link_step k (expire_link k)"
| cancels: "k_status k \<noteq> ''claimed'' \<Longrightarrow> k_status k \<noteq> ''expired'' \<Longrightarrow> link_step k (mark_cancelled now k)"

inductive_cases link_stepE [elim]: "link_step k k'"

definition is_active :: "link_row \<Rightarrow> bool" where
  "is_active k \<longleftrightarrow> k_status k = ''active''"

interpretation lk: life_cycle link_step k_id
  by unfold_locales (auto simp: mark_claimed_def expire_link_def mark_cancelled_def)

lemma link_step_keeps:
  assumes "link_step k k'"
  shows "k_id k' = k_id k" "k_token k' = k_token k" "k_creator_id k' = k_creator_id k"
    "k_amount_paisa k' = k_amount_paisa k"
  using assms by (auto simp: mark_claimed_def expire_link_def mark_cancelled_def)

interpretation lt: life_cycle link_step k_token
  by unfold_locales (rule link_step_keeps)

lemma link_claimed_terminal: "row_evolves link_step k k' \<Longrightarrow> k_status k = ''claimed'' \<Longrightarrow> k' = k"
  by (rule row_evolves_terminal [where step = link_step]) auto

text \<open>Once expired or cancelled, a link is never claimed any more.\<close>

lemma link_dead:
  assumes "row_evolves link_step k k'" "k_status k = ''expired'' \<or> k_status k = ''cancelled''"
  shows "k_status k' = ''expired'' \<or> k_status k' = ''cancelled''"
  using assms unfolding row_evolves_def
  by (induction rule: rtranclp_induct) (auto simp: mark_claimed_def expire_link_def mark_cancelled_def)

definition link_ids_ok :: "database \<Rightarrow> bool" where
  "link_ids_ok d \<longleftrightarrow> distinct (map k_id (links d)) \<and> distinct (map k_token (links d))"

lemma find_link_by_token_Some:
  assumes "find_link_by_token token d = Some k"
  shows "k \<in> set (links d)" "k_token k = token"
  using assms by (auto simp: find_link_by_token_def dest: find_Some_in)

section \<open>What the handlers do to the database\<close>

lemma runs_lock_link: "runs (lock_link token) d k d' \<longleftrightarrow> d' = d \<and> find_link_by_token token d = Some k"
  by (auto simp: lock_link_def elim!: runs_bndE) (auto simp: runs_def bnd_run fetch_proceeds lift_run
      intro!: exI [of _ "[]"])

text \<open>An update of the link and an event: the tail of a claim and of an expiry.\<close>

lemma link_update_event:
  assumes "runs (thn (execute (update_link i f)) (log_event_txn now et j ev a re m)) d x d'"
  shows "same_money d d'" "links d' = update_where (\<lambda>k. k_id k = i) f (links d)" "requests d' = requests d"
proof -
  from assms obtain d1 where u: "update_link i f d = Inr d1"
    and l: "runs (log_event_txn now et j ev a re m) d1 x d'" by (auto elim!: runs_thnE)
  from update_link_Inr [OF u] runs_log_event_txn [OF l]
  show "same_money d d'" "links d' = update_where (\<lambda>k. k_id k = i) f (links d)" "requests d' = requests d"
    by (simp_all add: same_money_def)
qed

lemma link_update_event_ret:
  assumes "runs (thn (execute (update_link i f)) (thn (log_event_txn now et j ev a re m) (ret y))) d x d'"
  shows "same_money d d'" "links d' = update_where (\<lambda>k. k_id k = i) f (links d)" "requests d' = requests d"
    "x = y"
proof -
  from assms obtain d1 where u: "update_link i f d = Inr d1"
    and l: "runs (log_event_txn now et j ev a re m) d1 () d'" and x: "x = y" by (auto elim!: runs_thnE)
  from update_link_Inr [OF u] runs_log_event_txn [OF l] x
  show "same_money d d'" "links d' = update_where (\<lambda>k. k_id k = i) f (links d)" "requests d' = requests d"
    "x = y" by (simp_all add: same_money_def)
qed

lemma pay_link_moves:
  assumes run: "runs (pay_link P D c key k x y) d z d'" and acc: "accounts_ok d"
    and bal: "\<exists>b \<in> set (balances d). b_user_id b = k_creator_id k \<and> b_amount_paisa b = x"
      "\<exists>b \<in> set (balances d). b_user_id b = c \<and> b_amount_paisa b = y"
    and le: "k_amount_paisa k \<le> x"
  shows "moves (claim_payment D c k key) d d'"
    and "links d' = update_where (\<lambda>q. k_id q = k_id k) (mark_claimed c (new_v4 D 41) (clock D 42)) (links d)"
    and "requests d' = requests d" and "booked_as ''link_paid'' (claim_payment D c k key) d d'"
proof -
  note run' = run [unfolded pay_link_def claim_payment_def Let_def]
  show "moves (claim_payment D c k key) d d'"
    unfolding claim_payment_def
    by (rule movement_moves(1) [OF acc bal(1) le bal(2) run'])
      (simp_all add: link_update_event(1))
  show "booked_as ''link_paid'' (claim_payment D c k key) d d'"
    unfolding claim_payment_def
    by (rule movement_moves(2) [OF acc bal(1) le bal(2) run'])
      (simp_all add: link_update_event(1))
  from link_update_event(2,3) [OF movement_statements(1) [OF run']]
  show "links d' = update_where (\<lambda>q. k_id q = k_id k) (mark_claimed c (new_v4 D 41) (clock D 42)) (links d)"
    "requests d' = requests d" by simp_all
qed

text \<open>The effect of the claim transaction, by the way it ends.\<close>

fun claim_effect ::
  "draws \<Rightarrow> uuid \<Rightarrow> uuid \<Rightarrow> claim_result \<Rightarrow> link_row \<Rightarrow> database \<Rightarrow> database \<Rightarrow> bool" where
  "claim_effect D c key (Replayed k' tid tref) k d d' =
     (k' = k \<and> d' = d \<and> k_status k = ''claimed'' \<and> k_claimer_id k = Some c)"
| "claim_effect D c key FoundExpired k d d' =
     (k_status k \<noteq> ''claimed'' \<and> same_money d d' \<and> requests d' = requests d \<and>
      links d' = update_where (\<lambda>q. k_id q = k_id k) expire_link (links d))"
| "claim_effect D c key (ClaimedNow k') k d d' =
     (k' = k \<and> k_status k \<notin> {''claimed'', ''expired'', ''cancelled''} \<and> \<not> k_expires_at k < clock D 41 \<and>
      k_creator_id k \<noteq> c \<and> moves (claim_payment D c k key) d d' \<and> booked_as ''link_paid'' (claim_payment D c k key) d d' \<and>
      requests d' = requests d \<and> links d' = update_where (\<lambda>q. k_id q = k_id k) (mark_claimed c (new_v4 D 41) (clock D 42)) (links d))"

lemma claim_link_tx_runs:
  assumes run: "runs (claim_link_tx P D c token key) d x d'" and acc: "accounts_ok d"
  shows "\<exists>k. find_link_by_token token d = Some k \<and> claim_effect D c key x k d d'"
proof -
  from run obtain k d0 where l: "runs (lock_link token) d k d0" and
    r: "runs (if k_status k = ''claimed'' then replay_claim D c k
     else if k_status k = ''expired'' \<or> k_expires_at k < clock D 41 then expire_claim D c token k
     else thn (guard (\<not> k_status k = ''cancelled'') (Conflict ''Payment link has been cancelled by creator''))
       (thn (guard (\<not> k_creator_id k = c) (BadRequest ''Cannot claim your own payment link''))
       (bnd (read_balances ''Balances not found'' ''Creator balance missing'' ''Claimer balance missing''
               (k_creator_id k) c) (\<lambda>(creator_bal, claimer_bal).
        thn (guard (\<not> creator_bal < k_amount_paisa k)
               (Unprocessable ''Creator has insufficient balance to fulfill link''))
        (thn (pay_link P D c key k creator_bal claimer_bal)
        (ret (ClaimedNow k))))))) d0 x d'"
    unfolding claim_link_tx_def by (rule runs_bndE)
  from l have f: "find_link_by_token token d = Some k" "d0 = d" by (auto simp: runs_lock_link)
  consider (claimed) "k_status k = ''claimed''"
    | (lapsed) "k_status k \<noteq> ''claimed''" "k_status k = ''expired'' \<or> k_expires_at k < clock D 41"
    | (open_link) "k_status k \<noteq> ''claimed''" "\<not> (k_status k = ''expired'' \<or> k_expires_at k < clock D 41)"
    by blast
  then show ?thesis
  proof cases
    case claimed
    with r f show ?thesis
      by (auto simp: replay_claim_def Let_def elim!: runs_bndE split: if_splits)
  next
    case lapsed
    with r have "runs (expire_claim D c token k) d0 x d'" by simp
    from link_update_event_ret [OF this [unfolded expire_claim_def]] lapsed(1) f show ?thesis by auto
  next
    case open_link
    with r f obtain cb mb d1 where g: "k_status k \<noteq> ''cancelled''" "k_creator_id k \<noteq> c" "\<not> cb < k_amount_paisa k"
      and b: "runs (read_balances ''Balances not found'' ''Creator balance missing'' ''Claimer balance missing''
               (k_creator_id k) c) d (cb, mb) d1"
      and p: "runs (pay_link P D c key k cb mb) d1 () d'" and x: "x = ClaimedNow k"
      by (auto elim!: runs_bndE runs_thnE [of "guard _ _"] runs_thnE [of "pay_link _ _ _ _ _ _ _"] split: prod.splits)
    note rb = runs_read_balances [OF b]
    from pay_link_moves [OF p [unfolded rb(1)] acc rb(2,3)] g open_link f x show ?thesis by simp
  qed
qed

lemma create_link_tx_runs:
  assumes "runs (create_link_tx P D ttl k) d x d'"
  shows "same_money d d'" "requests d' = requests d" "links d' = links d @ [k]"
    "k_id k \<notin> set (map k_id (links d))" "k_token k \<notin> set (map k_token (links d))"
proof -
  from assms obtain d1 where i: "insert_link k d = Inr d1"
    and l: "runs (log_event_txn (clock D 40) ''link'' (k_id k) ''created'' (Some (k_creator_id k))
        ''Payment link created''
        (JObj [(''creator_id'', JStr (uuid_to_string P (k_creator_id k))),
               (''amount_paisa'', JInt (k_amount_paisa k)), (''ttl_secs'', JInt ttl)])) d1 x d'"
    unfolding create_link_tx_def by (auto elim!: runs_thnE)
  from insert_link_Inr [OF i] runs_log_event_txn [OF l]
  show "same_money d d'" "requests d' = requests d" "links d' = links d @ [k]"
    "k_id k \<notin> set (map k_id (links d))" "k_token k \<notin> set (map k_token (links d))"
    by (simp_all add: same_money_def)
qed

lemma cancel_link_tx_runs:
  assumes "runs (cancel_link_tx D actor token) d x d'"
  shows "find_link_by_token token d = Some x" "actor = k_creator_id x" "k_status x \<noteq> ''claimed''"
    "k_status x \<noteq> ''expired''" "same_money d d'" "requests d' = requests d"
    "links d' = update_where (\<lambda>q. k_id q = k_id x) (mark_cancelled (clock D 41)) (links d)"
proof -
  from assms obtain k where f: "find_link_by_token token d = Some k"
    and g: "actor = k_creator_id k" "k_status k \<noteq> ''claimed''" "k_status k \<noteq> ''expired''"
    and r: "runs (thn (execute (update_link (k_id k) (mark_cancelled (clock D 41))))
     (thn (log_event_txn (clock D 40) ''link'' (k_id k) ''cancelled'' (Some actor)
             ''Payment link cancelled by creator'' (JObj [(''token'', JStr token)]))
     (ret k))) d x d'"
    unfolding cancel_link_tx_def
    by (auto elim!: runs_bndE runs_thnE [of "guard _ _"] simp: runs_lock_link)
  from link_update_event_ret [OF r] f g
  show "find_link_by_token token d = Some x" "actor = k_creator_id x" "k_status x \<noteq> ''claimed''"
    "k_status x \<noteq> ''expired''" "same_money d d'" "requests d' = requests d"
    "links d' = update_where (\<lambda>q. k_id q = k_id x) (mark_cancelled (clock D 41)) (links d)" by simp_all
qed

definition link_run ::
  "'r platform \<Rightarrow> draws \<times> uuid \<times> uuid \<times> link_row \<Rightarrow> database \<Rightarrow> claim_result \<Rightarrow> database \<Rightarrow> bool" where
  "link_run P = (\<lambda>(D, c, key, k) d x d'. find_link_by_token (k_token k) d = Some k \<and> x = ClaimedNow k \<and>
     runs (claim_link_tx P D c (k_token k) key) d x d')"

definition link_entry :: "draws \<times> uuid \<times> uuid \<times> link_row \<Rightarrow> database \<Rightarrow> transfer_row" where
  "link_entry = (\<lambda>(D, c, key, k) d. claim_payment D c k key)"

interpretation lm: money_movement "link_run P" link_entry
  by unfold_locales (auto simp: link_run_def link_entry_def dest!: claim_link_tx_runs)

definition link_change :: "database \<Rightarrow> database \<Rightarrow> bool" where
  "link_change d d' \<longleftrightarrow> table_evolves link_step is_active (links d) (links d') \<and> requests d' = requests d \<and>
     (same_money d d' \<or> (\<exists>t. moves t d d')) \<and> (link_ids_ok d \<longrightarrow> link_ids_ok d')"

lemma link_change_refl [simp]: "link_change d d"
  by (simp add: link_change_def)

lemma only_events_link_change: "only_events d d' \<Longrightarrow> link_change d d'"
  by (simp add: link_change_def only_events_eq only_events_same_money link_ids_ok_def)

lemma link_change_books: "link_change d d' \<Longrightarrow> books d \<Longrightarrow> books d'"
  by (auto simp: link_change_def same_money_books moves_books)

text \<open>The update of the link that was found is a step of it.\<close>

lemma link_updated:
  assumes f: "find_link_by_token token d = Some k" and ids: "link_ids_ok d" and step: "link_step k (f k)"
    and keeps: "\<And>k. k_id (f k) = k_id k \<and> k_token (f k) = k_token k"
    and l: "links d' = update_where (\<lambda>q. k_id q = k_id k) f (links d)"
  shows "table_evolves link_step is_active (links d) (links d')" "link_ids_ok d'"
    "find_link_by_token token d' = Some (f k)"
proof -
  show "table_evolves link_step is_active (links d) (links d')"
    unfolding l by (rule table_evolves_update_key)
      (use ids step find_link_by_token_Some(1) [OF f] in \<open>auto simp: link_ids_ok_def\<close>)
  have "map k_id (links d') = map k_id (links d)" "map k_token (links d') = map k_token (links d)"
    unfolding l using keeps by (simp_all add: map_update_where)
  with ids show "link_ids_ok d'" by (simp add: link_ids_ok_def)
  have "find_link_by_token token d' =
      map_option (\<lambda>x. if k_id x = k_id k then f x else x) (find_link_by_token token d)"
    unfolding find_link_by_token_def l by (rule find_update_where) (use keeps in simp)
  with f show "find_link_by_token token d' = Some (f k)" by simp
qed

lemma link_marks_keep:
  "k_id (expire_link k) = k_id k \<and> k_token (expire_link k) = k_token k"
  "k_id (mark_claimed c t now k) = k_id k \<and> k_token (mark_claimed c t now k) = k_token k"
  "k_id (mark_cancelled now k) = k_id k \<and> k_token (mark_cancelled now k) = k_token k"
  by (simp_all add: expire_link_def mark_claimed_def mark_cancelled_def)

lemma claim_effect_change:
  assumes "find_link_by_token token d = Some k" "link_ids_ok d" "claim_effect D c key x k d d'"
  shows "link_change d d'"
proof (cases x)
  case (Replayed k' tid tref)
  with assms(3) show ?thesis by simp
next
  case FoundExpired
  with assms(3) have e: "k_status k \<noteq> ''claimed''" "same_money d d'" "requests d' = requests d"
    "links d' = update_where (\<lambda>q. k_id q = k_id k) expire_link (links d)" by simp_all
  from link_updated [OF assms(1,2) link_step.expires [OF e(1)] link_marks_keep(1) e(4)] e(2,3)
  show ?thesis by (simp add: link_change_def)
next
  case (ClaimedNow k')
  with assms(3) have e: "k_status k \<notin> {''claimed'', ''expired'', ''cancelled''}"
    "moves (claim_payment D c k key) d d'" "requests d' = requests d"
    "links d' = update_where (\<lambda>q. k_id q = k_id k) (mark_claimed c (new_v4 D 41) (clock D 42)) (links d)"
    by simp_all
  from link_updated [OF assms(1,2) link_step.claims [OF e(1)] link_marks_keep(2) e(4)] e(2,3)
  show ?thesis by (auto simp: link_change_def)
qed

section \<open>The services\<close>

lemma create_link_db:
  assumes "create_link P D me req w = (r, w')"
  shows "only_events (db w) (db w') \<or> pin_verified P me (cl_pin req) (db w) \<and>
    (\<exists>a ttl x. MIN_LINK_TTL_SECS \<le> ttl \<and> ttl \<le> MAX_LINK_TTL_SECS \<and>
       runs (create_link_tx P D ttl (active_link D me a (clean_note (cl_note req)) ttl)) (db w) x (db w'))"
  using assms unfolding create_link_def thn_def [of "enforce_user_pin P D me (cl_pin req)"]
proof (cases rule: bnd_cases)
  case (failed e)
  then show ?thesis using enforce_user_pin_db by blast
next
  case (passed x w1)
  note pin = enforce_user_pin_verified [OF passed(1)]
  from passed(2) show ?thesis
  proof (cases rule: bnd_cases)
    case (failed e)
    with pin show ?thesis by (simp add: lift_run)
  next
    case (passed amount w2)
    then have w2: "w2 = w1" by (simp add: lift_run)
    let ?ttl = "var_or (cl_expires_in_seconds req) (default_link_ttl_secs (config P))"
    let ?k = "active_link D me (as_paisa amount) (clean_note (cl_note req)) ?ttl"
    show ?thesis
    proof (cases "MIN_LINK_TTL_SECS \<le> ?ttl \<and> ?ttl \<le> MAX_LINK_TTL_SECS")
      case True
      with passed(2) w2 have "bnd (transaction (create_link_tx P D ?ttl ?k))
          (\<lambda>_. ret (link_dto ?k ''active'' None None None None)) w1 = (r, w')"
        by (simp add: thn_def Let_def)
      from transaction_bnd [OF this] pin True show ?thesis by (auto simp: ret_run)
    next
      case False
      with passed(2) w2 pin show ?thesis
        by (auto simp: throw_run Let_def)
    qed
  qed
qed

lemma claim_link_step:
  assumes b: "books (db w)" and run: "claim_link P D c token payload w = (r, w')"
  shows "only_events (db w) (db w') \<and> isl r \<or> pin_verified P c (cp_pin payload) (db w) \<and>
    (\<exists>k x. find_link_by_token token (db w) = Some k \<and>
       claim_effect D c (cp_idempotency_key payload) x k (db w) (db w') \<and>
       (x = FoundExpired \<longrightarrow> isl r))"
  using run unfolding claim_link_def thn_def [of "enforce_user_pin P D c (cp_pin payload)"]
proof (cases rule: bnd_cases)
  case (failed e)
  with enforce_user_pin_db [OF failed(1)] show ?thesis by simp
next
  case (passed x w1)
  note pin = enforce_user_pin_verified [OF passed(1)]
  have acc: "accounts_ok (db w1)" using books_accounts [OF b] pin(2) by simp
  from passed(2) show ?thesis
  proof (cases rule: bnd_cases)
    case (failed e)
    from transaction_unless_atomic [OF failed(1)] show ?thesis
    proof (elim disjE exE conjE)
      assume "db w' = db w1"
      with pin failed(2) show ?thesis by simp
    next
      fix x assume "runs (claim_link_tx P D c token (cp_idempotency_key payload)) (db w1) x (db w')"
      from claim_link_tx_runs [OF this acc] pin failed(2) show ?thesis by auto
    qed
  next
    case (passed x w2)
    from transaction_unless_Ok [OF passed(1)] obtain d' where
      d': "runs (claim_link_tx P D c token (cp_idempotency_key payload)) (db w1) x d'"
      and w2: "db w2 = (if leaves_uncommitted x then db w1 else d')" by blast
    from claim_link_tx_runs [OF d' acc] obtain k where
      k: "find_link_by_token token (db w1) = Some k"
      "claim_effect D c (cp_idempotency_key payload) x k (db w1) d'" by blast
    have "claim_effect D c (cp_idempotency_key payload) x k (db w1) (db w2)"
      using k(2) w2 by (cases x) simp_all
    moreover have "db w' = db w2" "x = FoundExpired \<Longrightarrow> isl r"
      using passed(2) by (auto simp: ret_run throw_run thn_run mail_run split: claim_result.splits)
    ultimately show ?thesis using k(1) pin by auto
  qed
qed

lemma cancel_link_db:
  assumes "cancel_link D actor token w = (r, w')"
  shows "db w' = db w \<or> (\<exists>x. runs (cancel_link_tx D actor token) (db w) x (db w'))"
  using assms unfolding cancel_link_def by (rule transaction_bnd) (simp add: ret_run)

lemma get_link_by_token_db:
  assumes "get_link_by_token D token w = (r, w')"
  shows "db w' = db w \<or> (\<exists>k. find_link_by_token token (db w) = Some k \<and> k_status k = ''active'' \<and>
     db w' = (db w)\<lparr>links := update_where (\<lambda>q. k_id q = k_id k) expire_link (links (db w))\<rparr>)"
  using assms unfolding get_link_by_token_def
proof (cases rule: bnd_cases)
  case (failed e)
  then show ?thesis using pool_fetch_db' by blast
next
  case (passed row w1)
  note f = pool_fetch_Ok [OF passed(1)]
  show ?thesis
  proof (cases row)
    case None
    with passed(2) f show ?thesis by (simp add: bnd_run lift_run)
  next
    case (Some p)
    then obtain k u where p: "row = Some (k, u)" by (cases p) auto
    with f have k: "find_link_by_token token (db w) = Some k" "db w1 = db w"
      by (auto simp: link_with_creator_def bind_eq_Some_conv)
    let ?lapsed = "k_status k = ''active'' \<and> k_expires_at k < clock D 41"
    from passed(2) p have w': "w' = (if ?lapsed then snd (pool_execute (update_link (k_id k) expire_link) w1) else w1)"
      by (auto simp: bnd_run lift_run Let_def thn_run discard_run ret_run split: if_splits)
    have "db w' = db w \<or> ?lapsed \<and> update_link (k_id k) expire_link (db w) = Inr (db w')"
      using w' k(2) pool_atomic [of "no_rows (update_link (k_id k) expire_link)" w1]
      unfolding pool_execute_def by (metis no_rows_Inr prod.collapse)
    with k(1) show ?thesis by (auto dest!: update_link_Inr)
  qed
qed

datatype link_action =
    CreateLink create_payment_link_request
  | ViewLink str
  | ClaimLink str claim_payment_link_request
  | CancelLink str

fun link_op :: "'r platform \<Rightarrow> draws \<Rightarrow> uuid \<Rightarrow> link_action \<Rightarrow> 'r world \<Rightarrow> 'r world" where
  "link_op P D actor (CreateLink req) w = snd (create_link P D actor req w)"
| "link_op P D actor (ViewLink token) w = snd (get_link_by_token D token w)"
| "link_op P D actor (ClaimLink token payload) w = snd (claim_link P D actor token payload w)"
| "link_op P D actor (CancelLink token) w = snd (cancel_link D actor token w)"

lemma link_op_change:
  assumes ids: "link_ids_ok (db w)" and b: "books (db w)"
  shows "link_change (db w) (db (link_op P D actor act w))"
proof (cases act)
  case (CreateLink req)
  obtain r w' where run: "create_link P D actor req w = (r, w')" by fastforce
  have st: "is_active (active_link D actor a n ttl)" for a n ttl
    by (simp add: is_active_def active_link_def)
  have "link_change (db w) (db w')" if "runs (create_link_tx P D ttl (active_link D actor a n ttl)) (db w) x (db w')"
    for a n ttl x
    using create_link_tx_runs [OF that] ids
      table_evolves_append [of is_active "active_link D actor a n ttl" link_step "links (db w)", OF st]
    by (auto simp: link_change_def link_ids_ok_def)
  with create_link_db [OF run] only_events_link_change have "link_change (db w) (db w')" by blast
  then show ?thesis by (simp add: CreateLink run)
next
  case (ViewLink token)
  obtain r w' where run: "get_link_by_token D token w = (r, w')" by fastforce
  from get_link_by_token_db [OF run] show ?thesis
  proof (elim disjE exE conjE)
    fix k assume k: "find_link_by_token token (db w) = Some k" "k_status k = ''active''"
      and d: "db w' = (db w)\<lparr>links := update_where (\<lambda>q. k_id q = k_id k) expire_link (links (db w))\<rparr>"
    from link_updated [OF k(1) ids link_step.expires link_marks_keep(1), of "db w'"] k(2) d
    show ?thesis by (simp add: ViewLink run link_change_def)
  qed (simp add: ViewLink run)
next
  case (ClaimLink token payload)
  obtain r w' where run: "claim_link P D actor token payload w = (r, w')" by fastforce
  from claim_link_step [OF b run] claim_effect_change [OF _ ids] only_events_link_change
  have "link_change (db w) (db w')" by blast
  then show ?thesis by (simp add: ClaimLink run)
next
  case (CancelLink token)
  obtain r w' where run: "cancel_link D actor token w = (r, w')" by fastforce
  have "link_change (db w) (db w')" if c: "runs (cancel_link_tx D actor token) (db w) x (db w')" for x
  proof -
    note e = cancel_link_tx_runs [OF c]
    from link_updated [OF e(1) ids link_step.cancels [OF e(3,4)] link_marks_keep(3) e(7)] e(5,6)
    show ?thesis by (simp add: link_change_def)
  qed
  with cancel_link_db [OF run] have "link_change (db w) (db w')" by auto
  then show ?thesis by (simp add: CancelLink run)
qed

section \<open>Properties\<close>

lemma hex_pair_inj:
  fixes a b :: "8 word"
  assumes "hex_digit (unat a div 16) = hex_digit (unat b div 16)"
    "hex_digit (unat a mod 16) = hex_digit (unat b mod 16)"
  shows "a = b"
proof -
  have dist: "distinct ''0123456789abcdef''" by simp
  have len: "length ''0123456789abcdef'' = 16" by simp
  have inj: "m = n" if "hex_digit m = hex_digit n" "m < 16" "n < 16" for m n
    using that nth_eq_iff_index_eq [OF dist] unfolding hex_digit_def len by blast
  have "unat a < 2 ^ LENGTH(8)" "unat b < 2 ^ LENGTH(8)" by (rule unsigned_less)+
  then have "unat a div 16 < 16" "unat b div 16 < 16" by simp_all
  with assms inj have "unat a div 16 = unat b div 16" "unat a mod 16 = unat b mod 16" by auto
  then have "unat a = unat b" by (metis div_mod_decomp)
  then show ?thesis by (rule unsigned_word_eqI)
qed

lemma hex_encode_inj: "hex_encode xs = hex_encode ys \<Longrightarrow> xs = ys"
proof (induction xs arbitrary: ys)
  case Nil
  then show ?case by (cases ys) (auto simp: hex_encode_def)
next
  case (Cons x xs)
  then obtain y zs where ys: "ys = y # zs" by (cases ys) (auto simp: hex_encode_def)
  with Cons.prems have "hex_encode xs = hex_encode zs" "x = y"
    by (auto simp: hex_encode_def intro: hex_pair_inj)
  with Cons.IH ys show ?case by simp
qed

text \<open>The token of a link is 32 characters of lower-case hex, and it encodes its sixteen random
bytes without loss: two links share a token only if all their random bytes agree.\<close>

theorem link_token_faithful:
  "length (generate_link_token D) = 32 \<and>
   set (generate_link_token D) \<subseteq> set ''0123456789abcdef'' \<and>
   (generate_link_token D = generate_link_token D' \<longleftrightarrow> rng_fill D 16 = rng_fill D' 16)"
proof (intro conjI)
  have "length (hex_encode bs) = 2 * length bs" for bs by (induction bs) (auto simp: hex_encode_def)
  then show "length (generate_link_token D) = 32" by (simp add: generate_link_token_def rng_fill_def)
  have digit: "hex_digit n \<in> set ''0123456789abcdef''" if "n < 16" for n
    unfolding hex_digit_def by (rule nth_mem) (use that in simp)
  have byte: "unat (b :: 8 word) div 16 < 16" for b
  proof -
    have "unat b < 2 ^ LENGTH(8)" by (rule unsigned_less)
    then show ?thesis by simp
  qed
  have "set (hex_encode bs) \<subseteq> set ''0123456789abcdef''" for bs
  proof
    fix x assume "x \<in> set (hex_encode bs)"
    then obtain b where "x = hex_digit (unat (b :: 8 word) div 16) \<or> x = hex_digit (unat b mod 16)"
      by (auto simp: hex_encode_def)
    with digit [of "unat b div 16"] digit [of "unat b mod 16"] byte [of b]
    show "x \<in> set ''0123456789abcdef''" by (elim disjE) simp_all
  qed
  then show "set (generate_link_token D) \<subseteq> set ''0123456789abcdef''" by (simp only: generate_link_token_def)
  show "generate_link_token D = generate_link_token D' \<longleftrightarrow> rng_fill D 16 = rng_fill D' 16"
    by (auto simp: generate_link_token_def dest: hex_encode_inj)
qed

lemma claim_parts:
  "t_sender_id (claim_payment D c k key) = k_creator_id k" "t_recipient_id (claim_payment D c k key) = c"
  "t_amount_paisa (claim_payment D c k key) = k_amount_paisa k"
  by (simp_all add: claim_payment_def)

text \<open>C14: A claim moves money only if the link was open (neither claimed, expired nor cancelled) and its
deadline had not passed at the clock reading of the check, the claimer is not its creator and has given the
right PIN; then exactly the link's amount has moved from the creator, who had it, to the claimer.\<close>

theorem claim_moves_only_open_links:
  assumes "books (db w)" "link_ids_ok (db w)" "claim_link P D c token payload w = (r, w')"
    "balances (db w') \<noteq> balances (db w)"
  shows "\<exists>k. find_link_by_token token (db w) = Some k \<and>
    k_status k \<notin> {''claimed'', ''expired'', ''cancelled''} \<and> clock D 41 \<le> k_expires_at k \<and>
    c \<noteq> k_creator_id k \<and> pin_verified P c (cp_pin payload) (db w) \<and>
    k_amount_paisa k \<le> balance_of (db w) (k_creator_id k) \<and>
    (\<forall>u. balance_of (db w') u = (if u = k_creator_id k then balance_of (db w) u - k_amount_paisa k
       else if u = c then balance_of (db w) u + k_amount_paisa k else balance_of (db w) u)) \<and>
    find_link_by_token token (db w') = Some (mark_claimed c (new_v4 D 41) (clock D 42) k)"
proof -
  from claim_link_step [OF assms(1,3)] assms(4) obtain k x where
    k: "find_link_by_token token (db w) = Some k" "pin_verified P c (cp_pin payload) (db w)"
    and e: "claim_effect D c (cp_idempotency_key payload) x k (db w) (db w')" by (auto simp: only_events_eq)
  from e assms(4) have x: "x = ClaimedNow k" by (cases x) (auto simp: same_money_def)
  note e' = e [unfolded x, simplified]
  have st: "k_status k \<notin> {''claimed'', ''expired'', ''cancelled''}" using e' by simp
  have l: "links (db w') = update_where (\<lambda>q. k_id q = k_id k)
      (mark_claimed c (new_v4 D 41) (clock D 42)) (links (db w))"
    and m: "moves (claim_payment D c k (cp_idempotency_key payload)) (db w) (db w')" using e' by simp_all
  from moves_balances [OF m books_balances_distinct [OF assms(1)], unfolded claim_parts] e' k
    link_updated(3) [OF k(1) assms(2) link_step.claims [OF st] link_marks_keep(2) l]
  show ?thesis by auto
qed

subsection \<open>Claims in a row\<close>

fun claims_in_a_row ::
  "'r platform \<Rightarrow> str \<Rightarrow> (draws \<times> uuid \<times> claim_payment_link_request) list \<Rightarrow> 'r world \<Rightarrow> 'r world" where
  "claims_in_a_row P token [] w = w"
| "claims_in_a_row P token ((D, c, payload) # xs) w =
     claims_in_a_row P token xs (snd (claim_link P D c token payload w))"

lemma claims_after_claimed:
  assumes "books (db w)" "find_link_by_token token (db w) = Some k" "k_status k = ''claimed''"
  shows "same_money (db w) (db (claims_in_a_row P token xs w))"
  using assms
proof (induction xs arbitrary: w)
  case Nil
  then show ?case by simp
next
  case (Cons y xs)
  obtain D c payload where y: "y = (D, c, payload)" by (cases y)
  obtain r w1 where r: "claim_link P D c token payload w = (r, w1)" by fastforce
  have s: "same_money (db w) (db w1) \<and> links (db w1) = links (db w)"
    using claim_link_step [OF Cons.prems(1) r]
  proof (elim disjE conjE exE)
    fix k' x assume "find_link_by_token token (db w) = Some k'"
      and e: "claim_effect D c (cp_idempotency_key payload) x k' (db w) (db w1)"
    with Cons.prems(2,3) e show ?thesis by (cases x) auto
  qed (simp add: only_events_same_money only_events_eq)
  then have "books (db w1)" "find_link_by_token token (db w1) = Some k"
    using Cons.prems(1,2) same_money_books [of "db w" "db w1"] by (simp_all add: find_link_by_token_def)
  from Cons.IH [OF this Cons.prems(3)] s show ?case by (auto simp: y r intro: same_money_trans)
qed

lemma claim_cases:
  assumes b: "books (db w)" and ids: "link_ids_ok (db w)" and k: "find_link_by_token token (db w) = Some k"
    and run: "claim_link P D c token payload w = (r, w1)"
  obtains (still) k' where "same_money (db w) (db w1)" "link_ids_ok (db w1)"
      "find_link_by_token token (db w1) = Some k'" "k_creator_id k' = k_creator_id k" "k_amount_paisa k' = k_amount_paisa k"
  | (paid) k' where "moves (claim_payment D c k (cp_idempotency_key payload)) (db w) (db w1)"
      "find_link_by_token token (db w1) = Some k'" "k_status k' = ''claimed''"
  using claim_link_step [OF b run]
proof (elim disjE conjE exE)
  assume "only_events (db w) (db w1)"
  with ids k show thesis
    by (intro still [of k]) (simp_all add: only_events_same_money only_events_eq link_ids_ok_def find_link_by_token_def)
next
  fix k' x assume "find_link_by_token token (db w) = Some k'"
    and "claim_effect D c (cp_idempotency_key payload) x k' (db w) (db w1)"
  with k have e: "claim_effect D c (cp_idempotency_key payload) x k (db w) (db w1)" by simp
  show thesis
  proof (cases x)
    case (Replayed _ _ _)
    with e ids k show thesis by (intro still [of k]) simp_all
  next
    case FoundExpired
    with e have st: "k_status k \<noteq> ''claimed''" and same: "same_money (db w) (db w1)"
      and l: "links (db w1) = update_where (\<lambda>q. k_id q = k_id k) expire_link (links (db w))" by simp_all
    note u = link_updated [OF k ids link_step.expires [OF st] link_marks_keep(1) l]
    show thesis by (rule still [OF same u(2,3)]) (simp_all add: expire_link_def)
  next
    case (ClaimedNow _)
    with e have st: "k_status k \<notin> {''claimed'', ''expired'', ''cancelled''}"
      and m: "moves (claim_payment D c k (cp_idempotency_key payload)) (db w) (db w1)"
      and l: "links (db w1) = update_where (\<lambda>q. k_id q = k_id k)
          (mark_claimed c (new_v4 D 41) (clock D 42)) (links (db w))" by simp_all
    from link_updated(3) [OF k ids link_step.claims [OF st] link_marks_keep(2) l]
    show thesis by (rule paid [OF m]) (simp add: mark_claimed_def)
  qed
qed

text \<open>C6: A payment link pays at most once: whoever claims it, however often, with whichever keys and
through whichever failures, its amount leaves the creator once or not at all.\<close>

theorem link_pays_at_most_once:
  assumes "books (db w)" "link_ids_ok (db w)" "find_link_by_token token (db w) = Some k"
  shows "moved_once (k_creator_id k) (k_amount_paisa k) (db w) (db (claims_in_a_row P token xs w)) \<or>
    (\<forall>u. balance_of (db (claims_in_a_row P token xs w)) u = balance_of (db w) u)"
  using assms
proof (induction xs arbitrary: w k)
  case Nil
  then show ?case by simp
next
  case (Cons y xs)
  obtain D c payload where y: "y = (D, c, payload)" by (cases y)
  obtain r w1 where r: "claim_link P D c token payload w = (r, w1)" by fastforce
  have next_w: "claims_in_a_row P token (y # xs) w = claims_in_a_row P token xs w1" by (simp add: y r)
  from Cons.prems r show ?case
  proof (cases rule: claim_cases)
    case (still k')
    have "books (db w1)" using Cons.prems(1) same_money_books [OF still(1)] by simp
    from Cons.IH [OF this still(2,3)] still(4,5) same_money_balances [OF still(1)]
      moved_once_cong(1) [OF same_money_balances [OF still(1)]]
    show ?thesis unfolding next_w by auto
  next
    case (paid k')
    have "same_money (db w1) (db (claims_in_a_row P token xs w1))"
      by (rule claims_after_claimed [OF moves_books [OF paid(1) Cons.prems(1)] paid(2,3)])
    then have "balance_of (db w1) = balance_of (db (claims_in_a_row P token xs w1))"
      by (simp add: same_money_balances)
    from moves_moved_once [OF paid(1) Cons.prems(1), unfolded claim_parts] moved_once_cong(2) [OF this]
    show ?thesis unfolding next_w by simp
  qed
qed

subsection \<open>A concrete link\<close>

definition sample_link_world :: "kv world" where
  "sample_link_world = snd (create_link sample_platform (sample_draws 500 4) alice
     \<lparr>cl_amount_paisa = ''20'', cl_note = None, cl_expires_in_seconds = Some 60, cl_pin = ''1234''\<rparr> sample_world)"

definition sample_token :: str where
  "sample_token = generate_link_token (sample_draws 500 4)"

definition sample_claim :: claim_payment_link_request where
  "sample_claim = \<lparr>cp_pin = ''1234'', cp_idempotency_key = Uuid 99\<rparr>"

lemma sample_link_created:
  "db sample_link_world = sample_db\<lparr>links := links (db sample_link_world),
     events := events (db sample_link_world)\<rparr>"
  "map k_amount_paisa (links (db sample_link_world)) = [20]"
  "map_option (\<lambda>k. (k_creator_id k, k_amount_paisa k)) (find_link_by_token sample_token (db sample_link_world)) =
     Some (alice, 20)"
  "map b_amount_paisa (balances (db (snd (claim_link sample_platform (sample_draws 1000 2) bob sample_token
     sample_claim sample_link_world)))) = [9999980, 10000020]"
  by code_simp+

lemma books_sample_link: "books (db sample_link_world)" and link_ids_sample: "link_ids_ok (db sample_link_world)"
proof -
  have "same_money sample_db (db sample_link_world)"
    by (subst sample_link_created(1)) (simp add: same_money_def)
  with books_sample show "books (db sample_link_world)" by (simp add: sample_world_def same_money_books)
  obtain k where "links (db sample_link_world) = [k]" using sample_link_created(2) by auto
  then show "link_ids_ok (db sample_link_world)" by (simp add: link_ids_ok_def)
qed

theorem claim_moves_only_open_links_witness:
  "\<exists>k. find_link_by_token sample_token (db sample_link_world) = Some k \<and> 1000 \<le> k_expires_at k"
proof -
  obtain r w' where run: "claim_link sample_platform (sample_draws 1000 2) bob sample_token
     sample_claim sample_link_world = (r, w')" by fastforce
  have "balances (db sample_link_world) = balances sample_db" by (subst sample_link_created(1)) simp
  moreover have "map b_amount_paisa (balances sample_db) = [10000000, 10000000]" by code_simp
  moreover have "map b_amount_paisa (balances (db w')) = [9999980, 10000020]"
    using sample_link_created(4) by (simp add: run)
  ultimately have "balances (db w') \<noteq> balances (db sample_link_world)" by auto
  from claim_moves_only_open_links [OF books_sample_link link_ids_sample run this] show ?thesis
    by (auto simp: sample_draws_def)
qed

theorem link_pays_at_most_once_witness:
  "moved_once alice 20 (db sample_link_world) (db (claims_in_a_row sample_platform sample_token
     [(sample_draws 1000 2, bob, sample_claim), (sample_draws 2000 3, bob, sample_claim)]
     sample_link_world))"
proof -
  let ?w = "claims_in_a_row sample_platform sample_token
     [(sample_draws 1000 2, bob, sample_claim), (sample_draws 2000 3, bob, sample_claim)] sample_link_world"
  have "balance_of (db ?w) alice = 9999980" "balance_of (db sample_link_world) alice = 10000000"
    by code_simp+
  then have "balance_of (db ?w) alice \<noteq> balance_of (db sample_link_world) alice" by simp
  then have "\<not> (\<forall>u. balance_of (db ?w) u = balance_of (db sample_link_world) u)" by blast
  moreover obtain k where "find_link_by_token sample_token (db sample_link_world) = Some k"
    "k_creator_id k = alice" "k_amount_paisa k = 20" using sample_link_created(3) by auto
  ultimately show ?thesis
    using link_pays_at_most_once [OF books_sample_link link_ids_sample, of sample_token k sample_platform
      "[(sample_draws 1000 2, bob, sample_claim), (sample_draws 2000 3, bob, sample_claim)]"] by metis
qed

end
