(* ===== verification/Progress.thy ===== *)
theory Progress
  imports Links
begin

text \<open>
  Progress: what a request may expect when nothing fails.  The safety properties of the movers say what
  happens if money moves; here it is shown that it does move, for a transfer, an acceptance of a request and a
  claim of a link that are authorised, funded, within the limits and fresh, over a connection that works.
\<close>

section \<open>The statements of a movement succeed\<close>

text \<open>A movement whose rows violate no constraint of the schema.\<close>

definition postable :: "transfer_row \<Rightarrow> database \<Rightarrow> balance_row \<Rightarrow> balance_row \<Rightarrow> bool" where
  "postable t d bp bq \<longleftrightarrow> movable t d bp bq \<and> length (t_note t) \<le> 200 \<and>
     t_reference t \<notin> set (map t_reference (transfers d)) \<and> t_id t \<notin> set (map l_txn_id (ledger d)) \<and>
     Some (t_idempotency_key t) \<notin> set (map l_idempotency_key (ledger d)) \<and>
     (\<forall>b \<in> set (balances d). b_version b < i64_max)"

lemma execute_ok: "u d = Inr d' \<Longrightarrow> thn (execute u) k (d, []) = k (d', [])"
  by (simp add: thn_run execute_proceeds)

lemma movement_proceeds:
  assumes ok: "postable \<lparr>t_id = x, t_reference = ref, t_sender_id = p, t_recipient_id = q,
        t_amount_paisa = a, t_note = note, t_status = ''completed'', t_idempotency_key = key, t_created_at = now\<rparr> d bp bq"
      (is "postable ?t d bp bq")
    and u: "is_user d p" "is_user d q" and v: "0 \<le> vp" "0 \<le> vq"
    and kinds: "kd \<in> {''transfer_sent'', ''transfer_received'', ''request_paid'', ''link_paid''}"
      "kc \<in> {''transfer_sent'', ''transfer_received'', ''request_paid'', ''link_paid''}"
      "hk \<in> {''transfer'', ''request'', ''link''}"
  shows "thn (execute (update_balance now vp p))
     (thn (execute (update_balance now vq q))
     (thn (execute (insert_transfer ?t))
     (thn (execute (insert_ledger (ledger_entry now x ref p (Some q) (-1) a vp kd (Some key))))
     (thn (execute (insert_ledger (ledger_entry now x ref q (Some p) 1 a vq kc (Some key))))
     (thn (execute (insert_history
        (history_entry now p ''completed'' hk ''sent'' a vp (Some q) ref (Some x) note (Some key))))
     (thn (execute (insert_history
        (history_entry now q ''completed'' hk ''received'' a vq (Some p) ref (Some x) note (Some key))))
     k)))))) (d, []) = k (post_movement now ?t kd kc hk vp vq d, [])"
proof -
  note o = ok [unfolded postable_def movable_def, simplified]
  let ?d1 = "d\<lparr>balances := update_where (\<lambda>b. b_user_id b = p) (set_balance now vp) (balances d)\<rparr>"
  let ?d2 = "?d1\<lparr>balances := update_where (\<lambda>b. b_user_id b = q) (set_balance now vq) (balances ?d1)\<rparr>"
  let ?d3 = "?d2\<lparr>transfers := transfers d @ [?t]\<rparr>"
  let ?l = "\<lambda>u v dir w k i. (ledger_entry now x ref u (Some v) dir a w k (Some key))\<lparr>l_id := i\<rparr>"
  let ?d4 = "?d3\<lparr>ledger := ledger d @ [?l p q (-1) vp kd (next_serial (ledger d))]\<rparr>"
  let ?d5 = "?d4\<lparr>ledger := (ledger d @ [?l p q (-1) vp kd (next_serial (ledger d))]) @
    [?l q p 1 vq kc (next_serial (ledger d) + 1)]\<rparr>"
  let ?h = "\<lambda>u v dir w i. (history_entry now u ''completed'' hk dir a w (Some v) ref (Some x) note (Some key))\<lparr>h_id := i\<rparr>"
  let ?d6 = "?d5\<lparr>history := history d @ [?h p q ''sent'' vp (next_serial (history d))]\<rparr>"
  have u1: "update_balance now vp p d = Inr ?d1"
    unfolding update_balance_def Let_def constrained_Inr_iff set_balance_def [abs_def]
    using o v by (auto simp: list_all_iff)
  have u2: "update_balance now vq q ?d1 = Inr ?d2"
    unfolding update_balance_def Let_def constrained_Inr_iff set_balance_def [abs_def]
    using o v by (auto simp: list_all_iff dest!: set_update_where split: if_splits)
  have t3: "insert_transfer ?t ?d2 = Inr ?d3"
    unfolding insert_transfer_def constrained_Inr_iff using o u by (simp add: is_user_def)
  have l4: "insert_ledger (ledger_entry now x ref p (Some q) (-1) a vp kd (Some key)) ?d3 = Inr ?d4"
    unfolding insert_ledger_def constrained_Inr_iff
    using o u v kinds by (auto simp: is_user_def opt_user_def ledger_entry_def)
  have l5: "insert_ledger (ledger_entry now x ref q (Some p) 1 a vq kc (Some key)) ?d4 = Inr ?d5"
    unfolding insert_ledger_def constrained_Inr_iff
    using o u v kinds by (auto simp: is_user_def opt_user_def ledger_entry_def)
  have h6: "insert_history (history_entry now p ''completed'' hk ''sent'' a vp (Some q) ref (Some x) note (Some key)) ?d5
      = Inr ?d6"
    unfolding insert_history_def constrained_Inr_iff
    using o u kinds by (auto simp: is_user_def opt_user_def history_entry_def)
  have h7: "insert_history (history_entry now q ''completed'' hk ''received'' a vq (Some p) ref (Some x) note (Some key)) ?d6
      = Inr (post_movement now ?t kd kc hk vp vq d)"
    unfolding insert_history_def constrained_Inr_iff
    using o u kinds by (auto simp: is_user_def opt_user_def history_entry_def post_movement_def)
  show ?thesis
    by (subst execute_ok, rule u1, subst execute_ok, rule u2, subst execute_ok, rule t3,
        subst execute_ok, rule l4, subst execute_ok, rule l5, subst execute_ok, rule h6,
        subst execute_ok, rule h7, rule refl)
qed

lemma read_balances_proceeds:
  assumes acc: "accounts_ok d" and b: "bp \<in> set (balances d)" "b_user_id bp = p"
    "bq \<in> set (balances d)" "b_user_id bq = q" and pq: "p \<noteq> q"
  shows "read_balances s1 s2 s3 p q (d, []) = (Inr (b_amount_paisa bp, b_amount_paisa bq), (d, []))"
proof -
  have dist: "distinct (map b_user_id (balances d))" using acc by (simp add: accounts_ok_def)
  obtain x y where xy: "(if p < q then (p, q) else (q, p)) = (x, y)" by fastforce
  then have set: "set (balances_for_update x y d) = {b \<in> set (balances d). b_user_id b = p \<or> b_user_id b = q}"
    unfolding set_balances_for_update by (auto split: if_splits)
  have len: "length (balances_for_update x y d) = 2"
    using xy pq b by (intro length_balances_for_update [OF dist]) (auto split: if_splits)
  obtain v v' where pick: "pick_balances p q (balances_for_update x y d) = (Some v, Some v')"
    using pick_balances_complete [of "balances_for_update x y d" p q] set b pq by blast
  have unique: "c = c'" if "c \<in> set (balances d)" "c' \<in> set (balances d)" "b_user_id c = b_user_id c'" for c c'
    using dist that by (metis distinct_map inj_onD)
  from pick_balances_sound(1) [OF pick, of v] pick_balances_sound(2) [OF pick, of v'] set b unique
  have "v = b_amount_paisa bp" "v' = b_amount_paisa bq" by auto
  with pick show ?thesis
    unfolding read_balances_def xy by (simp add: Let_def bnd_run thn_run guard_run lift_run ret_run fetch_proceeds len)
qed

section \<open>A transfer that nothing stands against\<close>

definition recipient_of :: "'r platform \<Rightarrow> str \<Rightarrow> database \<Rightarrow> app_error + uuid" where
  "recipient_of P s d =
     (let t = trim s; by_text = (case select_recipient t (normalize_phone t) d of
            Some r \<Rightarrow> active_id r | None \<Rightarrow> Inl (NotFound ''Recipient not found'')) in
      case uuid_from_str P t of None \<Rightarrow> by_text
      | Some i \<Rightarrow> (case find_user i d of Some r \<Rightarrow> active_id r | None \<Rightarrow> by_text))"

lemma resolve_recipient_proceeds:
  "fates w = [] \<Longrightarrow> resolve_recipient P s w = (recipient_of P s (db w), w)"
  by (auto simp: resolve_recipient_def resolve_recipient_user_def resolve_by_text_def recipient_of_def Let_def
      find_user_def bnd_run pool_fetch_proceeds lift_run throw_run split: option.splits)

lemma enforce_user_pin_proceeds:
  assumes "fates w = []" "pin_verified P u pin (db w)"
    "\<not> var_or (rd_get_i64 (rds P) (clock D 0) (pin_key P u) (redis w)) 0 \<ge> MAX_PIN_FAILURES"
  shows "enforce_user_pin P D u pin w = (Inr (), w\<lparr>redis := rd_del (rds P) (clock D 4) (pin_key P u) (redis w)\<rparr>)"
  using assms
  by (auto simp: enforce_user_pin_def pin_verified_def verify_pin_hash_def find_user_def bnd_run thn_run guard_run
      lift_run redis_run pool_fetch_proceeds split: option.splits)

text \<open>What the draws of a request must not collide with; the key is the client's.\<close>

definition fresh_entry :: "uuid \<Rightarrow> str \<Rightarrow> uuid \<Rightarrow> database \<Rightarrow> bool" where
  "fresh_entry x ref key d \<longleftrightarrow> x \<notin> set (map t_id (transfers d)) \<and> x \<notin> set (map l_txn_id (ledger d)) \<and>
     ref \<notin> set (map t_reference (transfers d)) \<and>
     key \<notin> set (map t_idempotency_key (transfers d)) \<and> Some key \<notin> set (map l_idempotency_key (ledger d)) \<and>
     (\<forall>b \<in> set (balances d). b_version b < i64_max)"

text \<open>The two parties of a payment that the payer can afford.\<close>

definition affordable :: "uuid \<Rightarrow> uuid \<Rightarrow> int \<Rightarrow> str \<Rightarrow> database \<Rightarrow> bool" where
  "affordable p q a note d \<longleftrightarrow> is_user d p \<and> is_user d q \<and> p \<noteq> q \<and> 0 < a \<and> a \<le> balance_of d p \<and>
     balance_of d q + a \<le> i64_max \<and> length note \<le> 200"

lemma affordable_rows:
  assumes acc: "accounts_ok d" and fresh: "fresh_entry x ref key d" and a: "affordable p q a note d"
  obtains bp bq where "bp \<in> set (balances d)" "b_user_id bp = p" "bq \<in> set (balances d)" "b_user_id bq = q"
    "balance_of d p = b_amount_paisa bp" "balance_of d q = b_amount_paisa bq"
    "postable \<lparr>t_id = x, t_reference = ref, t_sender_id = p, t_recipient_id = q, t_amount_paisa = a, t_note = note,
        t_status = ''completed'', t_idempotency_key = key, t_created_at = now\<rparr> d bp bq"
    "i64_sub (b_amount_paisa bp) a = b_amount_paisa bp - a" "i64_add (b_amount_paisa bq) a = b_amount_paisa bq + a"
    "0 \<le> b_amount_paisa bp - a" "0 \<le> b_amount_paisa bq + a" "\<not> b_amount_paisa bp < a"
proof -
  have keys: "set (map b_user_id (balances d)) = set (map u_id (users d))"
    and dist: "distinct (map b_user_id (balances d))" using acc by (simp_all add: accounts_ok_def)
  have row: "\<exists>b \<in> set (balances d). b_user_id b = v" if "is_user d v" for v
    using that [unfolded is_user_def, folded keys] by auto
  note a' = a [unfolded affordable_def]
  obtain bp where bp: "bp \<in> set (balances d)" "b_user_id bp = p" using row a' by blast
  obtain bq where bq: "bq \<in> set (balances d)" "b_user_id bq = q" using row a' by blast
  have bal: "balance_of d p = b_amount_paisa bp" "balance_of d q = b_amount_paisa bq"
    using balance_of_row [OF dist bp(1)] balance_of_row [OF dist bq(1)] bp(2) bq(2) by simp_all
  have range: "b_amount_paisa bp \<le> i64_max" "0 \<le> b_amount_paisa bq" "b_amount_paisa bq \<le> i64_max"
    using acc bp(1) bq(1) by (auto simp: accounts_ok_def account_ok_def)
  show thesis
    by (rule that [OF bp bq bal])
      (use fresh a' bp bq bal range in \<open>auto simp: postable_def movable_def fresh_entry_def i64_sub_nonneg i64_add_nonneg_wraps\<close>)
qed

lemma event_proceeds:
  assumes "is_user d u"
    "et \<in> {''transfer'', ''request'', ''link''}" "ev \<in> {''completed'', ''accepted'', ''claimed''}"
  shows "\<exists>d'. log_event_txn now et i ev (Some u) r m (d, []) = (Inr (), (d', []))"
  using assms by (auto simp: log_event_txn_def execute_proceeds insert_event_def event_of_def opt_user_def is_user_def)

lemma is_user_post_movement [simp]: "is_user (post_movement now t kd kc hk vp vq d) u = is_user d u"
  by (simp add: is_user_def)

lemma execute_transfer_proceeds:
  assumes acc: "accounts_ok d" and fresh: "fresh_entry (new_v4 D 10) ref key d" and a: "affordable s rc a note d"
  shows "\<exists>d'. execute_transfer P D ref s rc a note key (d, []) = (Inr (), (d', []))"
proof -
  have u: "is_user d s" "is_user d rc" "s \<noteq> rc" using a by (simp_all add: affordable_def)
  from affordable_rows [OF acc fresh a, where now = "clock D 12"] obtain bp bq where
    b: "bp \<in> set (balances d)" "b_user_id bp = s" "bq \<in> set (balances d)" "b_user_id bq = rc"
    and post: "postable (transfer_of D ref s rc a note ''completed'' key) d bp bq"
    and arith: "i64_sub (b_amount_paisa bp) a = b_amount_paisa bp - a"
      "i64_add (b_amount_paisa bq) a = b_amount_paisa bq + a"
    and v: "0 \<le> b_amount_paisa bp - a" "0 \<le> b_amount_paisa bq + a" and le: "\<not> b_amount_paisa bp < a"
    unfolding transfer_of_def by metis
  show ?thesis
    unfolding execute_transfer_def read_transfer_balances_def
    using le event_proceeds [where et = "''transfer''" and ev = "''completed''" and u = s] u(1)
    by (simp add: bnd_run [where s = "(d, [])"] thn_run [where s = "(d, [])" and m = "guard _ _"] guard_run
      read_balances_proceeds [OF acc b u(3)] arith Let_def transfer_of_def
      movement_proceeds [OF post [unfolded transfer_of_def] u(1,2) v])
qed

definition unobstructed ::
  "'r platform \<Rightarrow> draws \<Rightarrow> uuid \<Rightarrow> create_transfer_request \<Rightarrow> int \<Rightarrow> uuid \<Rightarrow> 'r world \<Rightarrow> bool" where
  "unobstructed P D s req a rc w \<longleftrightarrow> fates w = [] \<and>
     var_or (rd_get_i64 (rds P) (clock D 0) (pin_key P s) (redis w)) 0 < MAX_PIN_FAILURES \<and>
     pin_verified P s (ct_pin req) (db w) \<and> parse_amount (ct_amount_paisa req) = Inr (Paisa a) \<and>
     recipient_of P (ct_recipient req) (db w) = Inr rc \<and> rc \<noteq> s \<and> a \<le> PER_TRANSFER_CAP_PAISA \<and>
     var_or (fst (rd_incr (rds P) (clock D 11) (velocity_key P D s) a
       (rd_del (rds P) (clock D 4) (pin_key P s) (redis w)))) 0 \<le> DAILY_OUTFLOW_CAP_PAISA \<and>
     a \<le> balance_of (db w) s \<and> balance_of (db w) rc + a \<le> i64_max \<and>
     length (clean_note (ct_note req)) \<le> 200 \<and>
     fresh_entry (new_v4 D 10) (generate_trx_reference D) (ct_idempotency_key req) (db w)"

lemma find_key_None: "key \<notin> set (map t_idempotency_key (transfers d)) \<Longrightarrow> find_transfer_by_key key d = None"
  by (auto simp: find_transfer_by_key_def find_None_iff)

lemma recipient_of_user: "recipient_of P x d = Inr rc \<Longrightarrow> is_user d rc"
  by (auto simp: recipient_of_def Let_def active_id_Inr is_user_def find_user_def dest: select_recipient_Some(1)
      find_Some_in split: option.splits)

lemma process_transfer_proceeds:
  assumes b: "books (db w)" and un: "unobstructed P D s req a rc w"
  shows "\<exists>w'. process_transfer P D s req w = (Inr (fresh_response D (transfer_of D (generate_trx_reference D) s rc a
     (clean_note (ct_note req)) ''completed'' (ct_idempotency_key req)), False), w')"
proof -
  note un' = un [unfolded unobstructed_def]
  let ?key = "ct_idempotency_key req" and ?note = "clean_note (ct_note req)" and ?ref = "generate_trx_reference D"
  obtain u where "find_user s (db w) = Some u" using un' by (auto simp: pin_verified_def split: option.splits)
  then have users: "is_user (db w) s" "is_user (db w) rc"
    using recipient_of_user un' by (auto simp: is_user_def find_user_def dest: find_Some_in)
  have ne: "s \<noteq> rc" using un' by blast
  have "0 < a" using un' parse_positive_bounds(1) by (fastforce simp: parse_amount_def)
  have new: "find_transfer_by_key ?key (db w) = None"
    using un' by (intro find_key_None) (simp add: fresh_entry_def)
  let ?w1 = "w\<lparr>redis := rd_del (rds P) (clock D 4) (pin_key P s) (redis w)\<rparr>"
  have pin: "enforce_user_pin P D s (ct_pin req) w = (Inr (), ?w1)"
    using un' by (intro enforce_user_pin_proceeds) auto
  have res: "resolve_recipient P (ct_recipient req) ?w1 = (Inr rc, ?w1)"
    using un' by (simp add: resolve_recipient_proceeds)
  have look: "pool_fetch (find_transfer_by_key ?key) ?w1 = (Inr None, ?w1)"
    using un' new by (simp add: pool_fetch_proceeds)
  obtain tot w2 where out: "add_daily_outflow P D s a ?w1 = (Inr tot, w2)" "tot \<le> DAILY_OUTFLOW_CAP_PAISA"
    "db w2 = db w" "fates w2 = []"
    using un' by (simp add: add_daily_outflow_def bnd_run thn_run ret_run redis_run)
  obtain d' where exec: "execute_transfer P D ?ref s rc a ?note ?key (db w, []) = (Inr (), (d', []))"
    using execute_transfer_proceeds [OF books_accounts [OF b], of D ?ref ?key s rc a ?note P] un' \<open>0 < a\<close> users ne
    by (auto simp: affordable_def)
  have tx: "transaction (execute_transfer P D ?ref s rc a ?note ?key) w2 = (Inr (), w2\<lparr>db := d', fates := []\<rparr>)"
    using out(3,4) exec by (simp add: transaction_proceeds)
  have "fresh_transfer P D s rc a ?note ?key ?w1 =
      announce_transfer P D ?ref s rc a ?note (w2\<lparr>db := d', fates := []\<rparr>)"
    using un' out(2) by (simp add: fresh_transfer_def Let_def bnd_run [where s = ?w1] out(1) thn_run [where s = w2] tx)
  moreover have "process_transfer P D s req w = fresh_transfer P D s rc a ?note ?key ?w1"
    unfolding process_transfer_def
    using un' ne by (simp add: thn_run [where s = w] pin bnd_run [where s = ?w1] lift_run res
      thn_run [where s = ?w1 and m = "guard _ _"] guard_run look check_replay_def)
  ultimately show ?thesis
    using announce_run [of P D ?ref s rc a ?note "w2\<lparr>db := d', fates := []\<rparr>" ?key] by metis
qed

text \<open>C17: A transfer that nothing stands against completes: with the right PIN and no lock, an amount the sender
owns within both limits, an active recipient with room for it, a new key and a working connection, the request
is answered "completed", and the money has moved.\<close>

theorem transfer_completes:
  assumes "books (db w)" "unobstructed P D s req a rc w"
  shows "\<exists>resp w'. process_transfer P D s req w = (Inr (resp, False), w') \<and> tr_status resp = ''completed'' \<and>
    tr_amount_paisa resp = show_int a \<and> (\<forall>u. balance_of (db w') u = (if u = s then balance_of (db w) u - a
       else if u = rc then balance_of (db w) u + a else balance_of (db w) u))"
proof -
  let ?t = "\<lambda>st. transfer_of D (generate_trx_reference D) s rc a (clean_note (ct_note req)) st (ct_idempotency_key req)"
  obtain w' where run: "process_transfer P D s req w = (Inr (fresh_response D (?t ''completed''), False), w')"
    using process_transfer_proceeds [OF assms] by blast
  have parse: "parse_amount (ct_amount_paisa req) = Inr (Paisa a)" using assms(2) by (simp add: unobstructed_def)
  from process_transfer_cases [OF run books_accounts [OF assms(1)]] parse
  obtain rc' out where out: "out \<in> set (possible_outcomes D s rc' a (clean_note (ct_note req)) (ct_idempotency_key req))"
      "outcome_effect out (db w) (db w')" "outcome_answer D out (Inr (fresh_response D (?t ''completed''), False))"
    by (auto simp: replayed_def authorised_def)
  from out(3) obtain t where t: "out = Moved t" "fresh_response D t = fresh_response D (?t ''completed'')"
    by (cases out) (auto simp: fresh_response_def response_of_row_def transfer_of_def)
  then have "moves t (db w) (db w')" "t_sender_id t = s" "t_amount_paisa t = a" "t_recipient_id t = rc"
    using out(2) possible_outcome_entry [OF out(1) disjI1 [OF t(1)]]
    by (auto simp: fresh_response_def response_of_row_def transfer_of_def)
  with moves_balances(1) [OF _ books_balances_distinct [OF assms(1)], of t "db w'"] run show ?thesis
    by (simp add: fresh_response_def response_of_row_def transfer_of_def)
qed

theorem transfer_completes_witness:
  "\<exists>resp w'. process_transfer sample_platform (sample_draws 1000 2) alice sample_transfer sample_world =
     (Inr (resp, False), w') \<and> balance_of (db w') bob = 10001250"
proof -
  have "unobstructed sample_platform (sample_draws 1000 2) alice sample_transfer 1250 bob sample_world"
    by code_simp
  moreover have "balance_of (db sample_world) bob = 10000000" "bob \<noteq> alice" by code_simp+
  ultimately show ?thesis using transfer_completes [OF books_sample] by fastforce
qed

section \<open>Requests and links that nothing stands against\<close>

definition acceptable ::
  "'r platform \<Rightarrow> draws \<Rightarrow> uuid \<Rightarrow> uuid \<Rightarrow> accept_money_request \<Rightarrow> request_row \<Rightarrow> 'r world \<Rightarrow> bool" where
  "acceptable P D actor i payload r w \<longleftrightarrow> fates w = [] \<and>
     var_or (rd_get_i64 (rds P) (clock D 0) (pin_key P actor) (redis w)) 0 < MAX_PIN_FAILURES \<and>
     pin_verified P actor (am_pin payload) (db w) \<and> find_request i (db w) = Some r \<and>
     r_status r = ''pending'' \<and> actor = r_debtor_id r \<and>
     affordable (r_debtor_id r) (r_requester_id r) (r_amount_paisa r) (r_note r) (db w) \<and>
     fresh_entry (new_v4 D 31) (generate_trx_reference D) (am_idempotency_key payload) (db w)"

lemma lock_request_proceeds: "find_request i d = Some r \<Longrightarrow> lock_request i (d, []) = (Inr r, (d, []))"
  by (simp add: lock_request_def bnd_run fetch_proceeds lift_run)

lemma accept_request_tx_proceeds:
  assumes acc: "accounts_ok d" and r: "find_request i d = Some r" "r_status r = ''pending''"
    and a: "affordable (r_debtor_id r) (r_requester_id r) (r_amount_paisa r) (r_note r) d"
    and fresh: "fresh_entry (new_v4 D 31) (generate_trx_reference D) key d"
  shows "\<exists>d'. accept_request_tx P D (r_debtor_id r) i key (d, []) = (Inr r, (d', []))"
proof -
  have u: "is_user d (r_debtor_id r)" "is_user d (r_requester_id r)" "r_debtor_id r \<noteq> r_requester_id r"
    using a by (simp_all add: affordable_def)
  from affordable_rows [OF acc fresh a, where now = "clock D 30"] obtain bp bq where
    b: "bp \<in> set (balances d)" "b_user_id bp = r_debtor_id r" "bq \<in> set (balances d)" "b_user_id bq = r_requester_id r"
    and post: "postable (payment_of D r key) d bp bq"
    and arith: "i64_sub (b_amount_paisa bp) (r_amount_paisa r) = b_amount_paisa bp - r_amount_paisa r"
      "i64_add (b_amount_paisa bq) (r_amount_paisa r) = b_amount_paisa bq + r_amount_paisa r"
    and v: "0 \<le> b_amount_paisa bp - r_amount_paisa r" "0 \<le> b_amount_paisa bq + r_amount_paisa r"
    and le: "\<not> b_amount_paisa bp < r_amount_paisa r"
    unfolding payment_of_def by metis
  have upd: "\<exists>d'. update_request i (resolve_as ''accepted'' now) d1 = Inr d' \<and> users d' = users d1" for d1 now
    by (simp add: update_request_def list_all_iff resolve_as_def)
  have "\<exists>d'. pay_request P D (r_debtor_id r) key r (b_amount_paisa bp) (b_amount_paisa bq) (d, []) = (Inr (), (d', []))"
  proof -
    let ?d1 = "post_movement (clock D 30) (payment_of D r key) ''request_paid'' ''request_paid'' ''request''
      (b_amount_paisa bp - r_amount_paisa r) (b_amount_paisa bq + r_amount_paisa r) d"
    from upd [of "clock D 31" ?d1] obtain d2 where d2: "update_request i (resolve_as ''accepted'' (clock D 31)) ?d1 = Inr d2"
      "users d2 = users ?d1" by blast
    have "is_user d2 (r_debtor_id r)" using d2(2) u(1) by (simp add: is_user_def)
    with d2(1) find_request_Some(2) [OF r(1)] show ?thesis
      unfolding pay_request_def
      using event_proceeds [where et = "''request''" and ev = "''accepted''" and u = "r_debtor_id r"]
      by (simp add: arith Let_def payment_of_def movement_proceeds [OF post [unfolded payment_of_def] u(1,2) v] execute_ok)
  qed
  then show ?thesis
    unfolding accept_request_tx_def
    using r(2) le
    by (auto simp: bnd_run [where s = "(d, [])"] thn_run [where s = "(d, [])"] guard_run ret_run
      lock_request_proceeds [OF r(1)] read_balances_proceeds [OF acc b u(3)])
qed

text \<open>C18: An acceptance that nothing stands against completes: the debtor of a pending request who gives the right
PIN, is not locked and owns the amount pays it, over a working connection, and is answered with the accepted
request.\<close>

theorem acceptance_completes:
  assumes "books (db w)" "acceptable P D actor i payload r w"
  shows "\<exists>dto tr w'. accept_request P D actor i payload w = (Inr (dto, tr), w') \<and> mr_status dto = ''accepted'' \<and>
    tr_status tr = ''completed'' \<and> find_request i (db w') = Some (resolve_as ''accepted'' (clock D 31) r) \<and>
    (\<forall>u. balance_of (db w') u = (if u = actor then balance_of (db w) u - r_amount_paisa r
       else if u = r_requester_id r then balance_of (db w) u + r_amount_paisa r else balance_of (db w) u))"
proof -
  note a = assms(2) [unfolded acceptable_def]
  let ?key = "am_idempotency_key payload" and ?w1 = "w\<lparr>redis := rd_del (rds P) (clock D 4) (pin_key P actor) (redis w)\<rparr>"
  have acc: "accounts_ok (db w)" by (rule books_accounts [OF assms(1)])
  from a accept_request_tx_proceeds [OF acc, of i r D ?key P] obtain d' where
    tx: "accept_request_tx P D actor i ?key (db w, []) = (Inr r, (d', []))" by auto
  then have run: "runs (accept_request_tx P D actor i ?key) (db w) r d'" unfolding runs_def by blast
  have "enforce_user_pin P D actor (am_pin payload) w = (Inr (), ?w1)"
    using a by (intro enforce_user_pin_proceeds) auto
  moreover have "transaction (accept_request_tx P D actor i ?key) ?w1 = (Inr r, ?w1\<lparr>db := d', fates := []\<rparr>)"
    using a tx by (simp add: transaction_proceeds)
  ultimately obtain w' where w': "accept_request P D actor i payload w =
      (Inr (request_dto r ''accepted'' (Some (clock D 31)) None None,
        (response_of_row (payment_of D r ?key))\<lparr>tr_created_at := clock D 31\<rparr>), w')" "db w' = d'"
    by (simp add: accept_request_def thn_run bnd_run Let_def mail_run ret_run)
  note t = accept_request_tx_runs [OF run acc]
  have "find_request i d' = Some (resolve_as ''accepted'' (clock D 31) r)"
    by (rule find_request_resolved [OF t(1,6)])
  with w' moves_balances(1) [OF t(4) books_balances_distinct [OF assms(1)]] t(3) show ?thesis
    by (simp add: request_dto_def response_of_row_def payment_of_def)
qed

theorem acceptance_completes_witness:
  "\<exists>dto tr w'. accept_request sample_platform (sample_draws 1000 2) alice (Uuid 430) sample_acceptance
     sample_request_world = (Inr (dto, tr), w') \<and> balance_of (db w') alice = 9999980"
proof -
  let ?r = "the (find_request (Uuid 430) (db sample_request_world))"
  have "acceptable sample_platform (sample_draws 1000 2) alice (Uuid 430) sample_acceptance ?r sample_request_world"
    "balance_of (db sample_request_world) alice = 10000000" "r_amount_paisa ?r = 20" by code_simp+
  then show ?thesis using acceptance_completes [OF books_sample_request] by fastforce
qed

definition claimable ::
  "'r platform \<Rightarrow> draws \<Rightarrow> uuid \<Rightarrow> str \<Rightarrow> claim_payment_link_request \<Rightarrow> link_row \<Rightarrow> 'r world \<Rightarrow> bool" where
  "claimable P D c token payload k w \<longleftrightarrow> fates w = [] \<and>
     var_or (rd_get_i64 (rds P) (clock D 0) (pin_key P c) (redis w)) 0 < MAX_PIN_FAILURES \<and>
     pin_verified P c (cp_pin payload) (db w) \<and> find_link_by_token token (db w) = Some k \<and>
     is_active k \<and> clock D 41 \<le> k_expires_at k \<and>
     affordable (k_creator_id k) c (k_amount_paisa k) (k_note k) (db w) \<and>
     fresh_entry (new_v4 D 41) (generate_trx_reference D) (cp_idempotency_key payload) (db w)"

lemma lock_link_proceeds: "find_link_by_token token d = Some k \<Longrightarrow> lock_link token (d, []) = (Inr k, (d, []))"
  by (simp add: lock_link_def bnd_run fetch_proceeds lift_run)

lemma claim_link_tx_proceeds:
  assumes acc: "accounts_ok d" and k: "find_link_by_token token d = Some k" "is_active k" "clock D 41 \<le> k_expires_at k"
    and a: "affordable (k_creator_id k) c (k_amount_paisa k) (k_note k) d"
    and fresh: "fresh_entry (new_v4 D 41) (generate_trx_reference D) key d"
  shows "\<exists>d'. claim_link_tx P D c token key (d, []) = (Inr (ClaimedNow k), (d', []))"
proof -
  have u: "is_user d (k_creator_id k)" "is_user d c" "k_creator_id k \<noteq> c" using a by (simp_all add: affordable_def)
  have st: "k_status k = ''active''" using k(2) by (simp add: is_active_def)
  from affordable_rows [OF acc fresh a, where now = "clock D 40"] obtain bp bq where
    b: "bp \<in> set (balances d)" "b_user_id bp = k_creator_id k" "bq \<in> set (balances d)" "b_user_id bq = c"
    and post: "postable (claim_payment D c k key) d bp bq"
    and arith: "i64_sub (b_amount_paisa bp) (k_amount_paisa k) = b_amount_paisa bp - k_amount_paisa k"
      "i64_add (b_amount_paisa bq) (k_amount_paisa k) = b_amount_paisa bq + k_amount_paisa k"
    and v: "0 \<le> b_amount_paisa bp - k_amount_paisa k" "0 \<le> b_amount_paisa bq + k_amount_paisa k"
    and le: "\<not> b_amount_paisa bp < k_amount_paisa k"
    unfolding claim_payment_def by metis
  let ?d1 = "post_movement (clock D 40) (claim_payment D c k key) ''link_paid'' ''link_paid'' ''link''
      (b_amount_paisa bp - k_amount_paisa k) (b_amount_paisa bq + k_amount_paisa k) d"
  have "\<exists>d'. update_link (k_id k) (mark_claimed c (new_v4 D 41) (clock D 42)) ?d1 = Inr d' \<and> users d' = users d"
    using u(2) by (simp add: update_link_def list_all_iff mark_claimed_def opt_user_def claim_payment_def)
  then obtain d2 where d2: "update_link (k_id k) (mark_claimed c (new_v4 D 41) (clock D 42)) ?d1 = Inr d2"
    "users d2 = users d" by blast
  have "is_user d2 c" using d2(2) u(2) by (simp add: is_user_def)
  with d2(1) have "\<exists>d'. pay_link P D c key k (b_amount_paisa bp) (b_amount_paisa bq) (d, []) = (Inr (), (d', []))"
    unfolding pay_link_def
    using event_proceeds [where et = "''link''" and ev = "''claimed''" and u = c]
    by (simp add: arith Let_def claim_payment_def movement_proceeds [OF post [unfolded claim_payment_def] u(1,2) v] execute_ok)
  then show ?thesis
    unfolding claim_link_tx_def
    using st le k(3) u(3)
    by (auto simp: bnd_run [where s = "(d, [])"] thn_run [where s = "(d, [])"] guard_run ret_run
      lock_link_proceeds [OF k(1)] read_balances_proceeds [OF acc b u(3)])
qed

text \<open>C19: A claim that nothing stands against completes: whoever opens an active link before its deadline, not being
its creator, gives the right PIN and is not locked is paid its amount, if the creator still owns it and the
connection works, and the link names the claimer from then on.\<close>

theorem claim_completes:
  assumes "books (db w)" "link_ids_ok (db w)" "claimable P D c token payload k w"
  shows "\<exists>tr dto w'. claim_link P D c token payload w = (Inr (tr, dto), w') \<and> tr_status tr = ''completed'' \<and>
    find_link_by_token token (db w') = Some (mark_claimed c (new_v4 D 41) (clock D 42) k) \<and>
    (\<forall>u. balance_of (db w') u = (if u = k_creator_id k then balance_of (db w) u - k_amount_paisa k
       else if u = c then balance_of (db w) u + k_amount_paisa k else balance_of (db w) u))"
proof -
  note a = assms(3) [unfolded claimable_def]
  let ?key = "cp_idempotency_key payload" and ?w1 = "w\<lparr>redis := rd_del (rds P) (clock D 4) (pin_key P c) (redis w)\<rparr>"
  have acc: "accounts_ok (db w)" by (rule books_accounts [OF assms(1)])
  from a claim_link_tx_proceeds [OF acc, of token k D c ?key P] obtain d' where
    tx: "claim_link_tx P D c token ?key (db w, []) = (Inr (ClaimedNow k), (d', []))" by auto
  then have run: "runs (claim_link_tx P D c token ?key) (db w) (ClaimedNow k) d'" unfolding runs_def by blast
  have "enforce_user_pin P D c (cp_pin payload) w = (Inr (), ?w1)"
    using a by (intro enforce_user_pin_proceeds) auto
  moreover have "transaction_unless leaves_uncommitted (claim_link_tx P D c token ?key) ?w1 =
      (Inr (ClaimedNow k), ?w1\<lparr>db := d', fates := []\<rparr>)"
    using a tx by (simp add: transaction_unless_def)
  ultimately obtain w' where w': "claim_link P D c token payload w = (Inr (claim_response D c k (new_v4 D 41)
      (generate_trx_reference D) (clock D 42)), w')" "db w' = d'"
    by (simp add: claim_link_def thn_run bnd_run Let_def mail_run ret_run)
  from claim_link_tx_runs [OF run acc] a have m: "moves (claim_payment D c k ?key) (db w) d'"
    and l: "links d' = update_where (\<lambda>q. k_id q = k_id k) (mark_claimed c (new_v4 D 41) (clock D 42)) (links (db w))"
    and st: "k_status k \<notin> {''claimed'', ''expired'', ''cancelled''}" and f: "find_link_by_token token (db w) = Some k" by auto
  from link_updated(3) [OF f assms(2) link_step.claims [OF st] link_marks_keep(2) l] w'
    moves_balances(1) [OF m books_balances_distinct [OF assms(1)]]
  show ?thesis by (simp add: claim_response_def claim_payment_def)
qed

theorem claim_completes_witness:
  "\<exists>tr dto w'. claim_link sample_platform (sample_draws 1000 2) bob sample_token sample_claim
     sample_link_world = (Inr (tr, dto), w') \<and> balance_of (db w') bob = 10000020"
proof -
  let ?k = "the (find_link_by_token sample_token (db sample_link_world))"
  have "claimable sample_platform (sample_draws 1000 2) bob sample_token sample_claim ?k sample_link_world"
    "balance_of (db sample_link_world) bob = 10000000" "k_amount_paisa ?k = 20" "k_creator_id ?k \<noteq> bob" by code_simp+
  then show ?thesis using claim_completes [OF books_sample_link link_ids_sample] by fastforce
qed

end
