(* ===== verification/Auth.thy ===== *)
theory Auth
  imports Links
begin

text \<open>
  Accounts and sessions (\<open>src/features/auth\<close>): registration with its seed funding, login with its
  lockout, the extraction of the authenticated user from a request, logout, and the change and the
  reset of the transaction PIN.  Cookies are association lists; the cookies a handler sets are part of
  its answer.
\<close>

section \<open>Data\<close>

definition MAX_LOGIN_FAILURES :: int where "MAX_LOGIN_FAILURES = 5"
definition LOCKOUT_DURATION_SECS :: int where "LOCKOUT_DURATION_SECS = 900"

record register_request =
  rr_name :: str
  rr_phone :: str
  rr_password :: str
  rr_pin :: str

record register_response =
  rs_id :: uuid
  rs_account_number :: str
  rs_name :: str
  rs_phone :: str
  rs_balance :: str
  rs_created_at :: int

record login_request =
  lg_phone :: str
  lg_password :: str

record user_dto =
  ud_id :: uuid
  ud_account_number :: str
  ud_name :: str
  ud_phone :: str
  ud_created_at :: int

record login_response =
  lr_user :: user_dto
  lr_balance :: str

record cookie =
  ck_name :: str
  ck_value :: str
  ck_http_only :: bool
  ck_path :: str
  ck_same_site :: str
  ck_max_age :: int

record pin_change_req =
  pc_current_pin :: str
  pc_new_pin :: str

record pin_reset_req =
  pr_password :: str
  pr_new_pin :: str

type_synonym cookies = "(str \<times> str) list"

section \<open>Secrets\<close>

text \<open>\<open>random_range\<close> is uniform on its argument, which is the interval below.\<close>

definition generate_account_number :: "draws \<Rightarrow> str" where
  "generate_account_number D = show_int (1000000000 + random_range D mod 9000000000)"

definition generate_session_token :: "draws \<Rightarrow> str" where
  "generate_session_token D = hex_encode (rng_fill D 32)"

definition hash_password :: "'r platform \<Rightarrow> str \<Rightarrow> str \<Rightarrow> app_error + str" where
  "hash_password P slt password =
     map_err (\<lambda>e. Internal (''Failed to hash password: '' @ e)) (argon2_hash P slt password)"

definition verify_password :: "'r platform \<Rightarrow> str \<Rightarrow> str \<Rightarrow> app_error + bool" where
  "verify_password P password password_hash_str =
     (case phc_new P password_hash_str of
        Some e \<Rightarrow> Inl (Internal (''Invalid password hash format: '' @ e))
      | None \<Rightarrow> Inr (argon2_verify P password password_hash_str))"

section \<open>Registration\<close>

definition new_user :: "draws \<Rightarrow> str \<Rightarrow> str \<Rightarrow> str \<Rightarrow> str \<Rightarrow> user_row" where
  "new_user D name phone password_hash pin_hash =
     \<lparr>u_id = new_v4 D 50, u_account_number = generate_account_number D, u_name = name, u_phone = phone,
      u_password_hash = password_hash, u_pin_hash = pin_hash, u_pin_updated_at = clock D 50,
      u_status = ''active'', u_created_at = clock D 50, u_updated_at = clock D 50\<rparr>"

definition register_tx :: "draws \<Rightarrow> user_row \<Rightarrow> unit tx" where
  "register_tx D u =
     (let now = clock D 50; funding_ref = generate_funding_reference D; funding_txn_id = new_v4 D 51
      in thn (execute (insert_user u))
        (thn (execute (insert_balance \<lparr>b_user_id = u_id u, b_amount_paisa = SEED_BALANCE_PAISA,
               b_version = 0, b_updated_at = now\<rparr>))
        (thn (execute (insert_ledger (ledger_entry now funding_txn_id funding_ref (u_id u) None 1
               SEED_BALANCE_PAISA SEED_BALANCE_PAISA ''funding'' None)))
        (thn (execute (insert_history (history_entry now (u_id u) ''completed'' ''funding'' ''received''
               SEED_BALANCE_PAISA SEED_BALANCE_PAISA None funding_ref (Some funding_txn_id)
               ''Initial account registration seed'' None)))
        (log_event_txn (clock D 51) ''auth'' (u_id u) ''registered'' (Some (u_id u))
           ''Initial user registration and 10M seed funding''
           (JObj [(''account_number'', JStr (u_account_number u)),
                  (''seed_paisa'', JInt SEED_BALANCE_PAISA)]))))))"

definition register_user ::
  "'r platform \<Rightarrow> draws \<Rightarrow> register_request \<Rightarrow> ('r, register_response) service" where
  "register_user P D req =
     (let phone_clean = trim (rr_phone req); name_clean = trim (rr_name req) in
      bnd (pool_fetch (\<lambda>d. find (\<lambda>u. u_phone u = phone_clean) (users d))) (\<lambda>existing.
      thn (guard (existing = None) (Conflict ''Phone number is already registered''))
      (bnd (lift (hash_password P (salt D 0) (rr_password req))) (\<lambda>password_hash.
       bnd (lift (hash_pin P (salt D 1) (rr_pin req))) (\<lambda>pin_hash.
       let u = new_user D name_clean phone_clean password_hash pin_hash in
       thn (transaction (register_tx D u))
       (thn (dispatch_email P (phone_clean @ ''@pstupay.local'') ''Welcome to PSTU Pay''
               [Text (''Hello '' @ name_clean @ '','' @ [CHR 10, CHR 10] @ ''Your account '' @
                  u_account_number u @ '' has been created with initial seed funding of ''),
                TakaAmount SEED_BALANCE_PAISA,
                Text (''.'' @ [CHR 10] @ ''Funding TrxID: '' @ generate_funding_reference D @
                  [CHR 10, CHR 10] @ ''Thank you,'' @ [CHR 10] @ ''PSTU Pay Team'')])
       (ret \<lparr>rs_id = u_id u, rs_account_number = u_account_number u, rs_name = name_clean,
             rs_phone = phone_clean, rs_balance = show_int SEED_BALANCE_PAISA,
             rs_created_at = clock D 50\<rparr>)))))))"

section \<open>Login\<close>

definition login_key :: "str \<Rightarrow> str" where
  "login_key phone = ''lf:'' @ phone"

definition session_key :: "str \<Rightarrow> str" where
  "session_key token = ''session:'' @ token"

definition user_sessions_key :: "'r platform \<Rightarrow> uuid \<Rightarrow> str" where
  "user_sessions_key P user_id = ''sids:'' @ uuid_to_string P user_id"

definition login_locked :: app_error where
  "login_locked = RateLimited
     ''Account temporarily locked due to too many failed attempts. Please try again in 15 minutes.''"

definition login_invalid :: app_error where
  "login_invalid = Unauthorized ''Invalid phone number or password''"

text \<open>\<open>INCR\<close> and \<open>EXPIRE\<close> of the failure counter; a Redis error counts as one failure.\<close>

definition count_login_failure :: "'r platform \<Rightarrow> draws \<Rightarrow> str \<Rightarrow> ('r, int) service" where
  "count_login_failure P D phone =
     bnd (redis_call (rd_incr (rds P) (clock D 52) (login_key phone) 1)) (\<lambda>reply.
     thn (redis_write (rd_expire (rds P) (clock D 52) (login_key phone) LOCKOUT_DURATION_SECS))
     (ret (var_or reply 1)))"

definition user_with_balance :: "str \<Rightarrow> database \<Rightarrow> (user_row \<times> balance_row) option" where
  "user_with_balance phone d =
     Option.bind (find (\<lambda>u. u_phone u = phone) (users d)) (\<lambda>u.
     map_option (\<lambda>b. (u, b)) (find (\<lambda>b. b_user_id b = u_id u) (balances d)))"

definition wrong_password :: "'r platform \<Rightarrow> draws \<Rightarrow> str \<Rightarrow> uuid \<Rightarrow> ('r, 'a) service" where
  "wrong_password P D phone user_id =
     bnd (count_login_failure P D phone) (\<lambda>new_failures.
     thn (discard (log_event (clock D 53) ''auth'' user_id ''login_failed'' (Some user_id)
            ''Failed login attempt (incorrect password)''
            (JObj [(''failure_count'', JInt new_failures)])))
     (if new_failures \<ge> MAX_LOGIN_FAILURES then throw login_locked else throw login_invalid))"

definition unknown_phone :: "'r platform \<Rightarrow> draws \<Rightarrow> str \<Rightarrow> ('r, 'a) service" where
  "unknown_phone P D phone =
     bnd (count_login_failure P D phone) (\<lambda>new_failures.
     if new_failures \<ge> MAX_LOGIN_FAILURES then throw login_locked else throw login_invalid)"

definition open_session :: "'r platform \<Rightarrow> draws \<Rightarrow> str \<Rightarrow> user_row \<Rightarrow> balance_row \<Rightarrow>
    ('r, login_response \<times> cookie) service" where
  "open_session P D phone u b =
     (let token = generate_session_token D; ttl = session_ttl_secs (config P) in
      thn (redis_write (rd_del (rds P) (clock D 54) (login_key phone)))
      (thn (redis_write (rd_set_ex (rds P) (clock D 55) (session_key token) (uuid_to_string P (u_id u)) ttl))
      (thn (redis_write (rd_sadd (rds P) (clock D 56) (user_sessions_key P (u_id u)) token))
      (thn (discard (log_event (clock D 57) ''auth'' (u_id u) ''login_success'' (Some (u_id u))
              ''Successful user login'' (JObj [])))
      (ret (\<lparr>lr_user = \<lparr>ud_id = u_id u, ud_account_number = u_account_number u, ud_name = u_name u,
                        ud_phone = u_phone u, ud_created_at = u_created_at u\<rparr>,
             lr_balance = show_int (b_amount_paisa b)\<rparr>,
            \<lparr>ck_name = ''sid'', ck_value = token, ck_http_only = True,
             ck_path = ''/'', ck_same_site = ''Lax'', ck_max_age = ttl\<rparr>))))))"

definition login_user ::
  "'r platform \<Rightarrow> draws \<Rightarrow> login_request \<Rightarrow> ('r, login_response \<times> cookie) service" where
  "login_user P D req =
     (let phone = trim (lg_phone req) in
      bnd (redis_read (\<lambda>r. var_or (rd_get_i64 (rds P) (clock D 50) (login_key phone) r) 0)) (\<lambda>failures.
      thn (guard (\<not> failures \<ge> MAX_LOGIN_FAILURES) login_locked)
      (bnd (pool_fetch (user_with_balance phone)) (\<lambda>row.
       case row of
         None \<Rightarrow> unknown_phone P D phone
       | Some (u, b) \<Rightarrow>
           thn (guard (\<not> u_status u \<noteq> ''active'') (Forbidden ''Account is suspended or locked''))
           (bnd (lift (verify_password P (lg_password req) (u_password_hash u))) (\<lambda>password_ok.
            if \<not> password_ok then wrong_password P D phone (u_id u)
            else open_session P D phone u b))))))"

section \<open>The authenticated user\<close>

definition strip_prefix :: "str \<Rightarrow> str \<Rightarrow> str option" where
  "strip_prefix p s = (if starts_with s p then Some (drop (length p) s) else None)"

record authenticated_user =
  au_user_id :: uuid
  au_session_token :: str

text \<open>\<open>header\<close>: the \<open>Authorization\<close> header, when it is there and readable.\<close>

definition request_token :: "str option \<Rightarrow> cookies \<Rightarrow> str option" where
  "request_token header cookies =
     (let bearer_token = Option.bind header (\<lambda>h. map_option trim (strip_prefix ''Bearer '' h));
          cookie_token = or_else (map_of cookies ''sid'') (map_of cookies ''pstu_session'')
      in or_else bearer_token cookie_token)"

definition from_request_parts ::
  "'r platform \<Rightarrow> draws \<Rightarrow> str option \<Rightarrow> cookies \<Rightarrow> ('r, authenticated_user) service" where
  "from_request_parts P D header cookies =
     bnd (lift (ok_or (request_token header cookies) (Unauthorized ''Authentication required''))) (\<lambda>token.
     thn (guard (\<not> trim token = []) (Unauthorized ''Authentication required''))
     (bnd (redis_read (rd_get_str (rds P) (clock D 60) (session_key token))) (\<lambda>reply.
      bnd (lift (ok_or reply (ServiceUnavailable ''Session cache temporarily unavailable''))) (\<lambda>stored.
      bnd (lift (ok_or stored (Unauthorized ''Session expired or invalid''))) (\<lambda>user_id_str.
      bnd (lift (ok_or (uuid_from_str P user_id_str) (Unauthorized ''Malformed session state''))) (\<lambda>user_id.
      ret \<lparr>au_user_id = user_id, au_session_token = token\<rparr>))))))"

section \<open>Logout\<close>

definition logout_user :: "'r platform \<Rightarrow> draws \<Rightarrow> uuid \<Rightarrow> cookies \<Rightarrow> ('r, cookie list) service" where
  "logout_user P D user_id cookies =
     bnd (case map_of cookies ''sid'' of
            None \<Rightarrow> ret []
          | Some session_token \<Rightarrow>
              thn (redis_write (rd_del (rds P) (clock D 61) (session_key session_token)))
              (thn (redis_write (rd_srem (rds P) (clock D 62) (user_sessions_key P user_id) session_token))
              (ret [\<lparr>ck_name = ''sid'', ck_value = [], ck_http_only = False,
                    ck_path = ''/'', ck_same_site = ''Lax'', ck_max_age = 0\<rparr>]))) (\<lambda>set_cookies.
     thn (discard (log_event (clock D 63) ''auth'' user_id ''logout'' (Some user_id) ''User logged out''
            (JObj [])))
     (ret set_cookies))"

section \<open>The transaction PIN\<close>

definition change_pin ::
  "'r platform \<Rightarrow> draws \<Rightarrow> uuid \<Rightarrow> pin_change_req \<Rightarrow> ('r, int) service" where
  "change_pin P D user_id req =
     thn (enforce_user_pin P D user_id (pc_current_pin req))
     (bnd (lift (hash_pin P (salt D 2) (pc_new_pin req))) (\<lambda>new_pin_hash.
      thn (pool_execute (update_user_pin new_pin_hash (clock D 64) user_id))
      (thn (discard (log_event (clock D 65) ''auth'' user_id ''pin_changed'' (Some user_id)
              ''Transaction PIN changed successfully'' (JObj [])))
      (ret (clock D 64)))))"

text \<open>The loop over the other sessions of the user.\<close>

fun drop_sessions :: "'r platform \<Rightarrow> draws \<Rightarrow> str \<Rightarrow> str option \<Rightarrow> str list \<Rightarrow> ('r, unit) service" where
  "drop_sessions P D sessions_key current [] = ret ()"
| "drop_sessions P D sessions_key current (sid # sids) =
     (if Some sid \<noteq> current
      then thn (redis_write (rd_del (rds P) (clock D 67) (session_key sid)))
          (thn (redis_write (rd_srem (rds P) (clock D 67) sessions_key sid))
          (drop_sessions P D sessions_key current sids))
      else drop_sessions P D sessions_key current sids)"

definition reset_pin ::
  "'r platform \<Rightarrow> draws \<Rightarrow> uuid \<Rightarrow> pin_reset_req \<Rightarrow> cookies \<Rightarrow> ('r, int) service" where
  "reset_pin P D user_id req cookies =
     bnd (pool_fetch (\<lambda>d. map_option u_password_hash (find_user user_id d))) (\<lambda>row.
     bnd (lift (ok_or row (NotFound ''User not found''))) (\<lambda>pass_hash.
     bnd (lift (verify_password P (pr_password req) pass_hash)) (\<lambda>pass_ok.
     thn (guard pass_ok (Unauthorized ''Incorrect login password for PIN reset''))
     (bnd (lift (hash_pin P (salt D 2) (pr_new_pin req))) (\<lambda>new_pin_hash.
      thn (pool_execute (update_user_pin new_pin_hash (clock D 64) user_id))
      (bnd (redis_read (\<lambda>r. var_or (rd_smembers (rds P) (clock D 66) (user_sessions_key P user_id) r) []))
        (\<lambda>all_sids.
      thn (drop_sessions P D (user_sessions_key P user_id) (map_of cookies ''sid'') all_sids)
      (thn (discard (log_event (clock D 68) ''auth'' user_id ''pin_reset'' (Some user_id)
              ''Transaction PIN reset via password; secondary sessions invalidated'' (JObj [])))
      (thn (dispatch_email P (uuid_to_string P user_id @ ''@pstupay.local'')
              ''Security Alert: Transaction PIN Reset''
              [Text (''Your transaction PIN was recently reset using your account password. '' @
                 ''All secondary active sessions have been invalidated.'' @ [CHR 10] @
                 ''If you did not perform this action, please contact support immediately.'')])
      (ret (clock D 64)))))))))))"

section \<open>What the handlers do to the database\<close>

text \<open>\<open>books\<close> depends on the users through their ids alone.\<close>

lemma books_ids:
  assumes "map u_id (users d') = map u_id (users d)" "balances d' = balances d"
    "transfers d' = transfers d" "ledger d' = ledger d" "history d' = history d"
  shows "books d' = books d"
proof -
  have "length (users d') = length (users d)" using assms(1) map_eq_imp_length_eq by blast
  with assms show ?thesis
    by (simp add: books_def accounts_ok_def account_ok_def user_ledger_def is_user_def
      total_balance_def transfers_agree_def history_agrees_def serial_ok_def del: set_map)
qed

definition registered :: "user_row \<Rightarrow> database \<Rightarrow> database \<Rightarrow> bool" where
  "registered u d d' \<longleftrightarrow> u_id u \<notin> set (map u_id (users d)) \<and> u_phone u \<notin> set (map u_phone (users d)) \<and>
     u_account_number u \<notin> set (map u_account_number (users d)) \<and>
     users d' = users d @ [u] \<and> transfers d' = transfers d \<and> requests d' = requests d \<and> links d' = links d \<and>
     (\<exists>now. balances d' = balances d @ [\<lparr>b_user_id = u_id u, b_amount_paisa = SEED_BALANCE_PAISA,
        b_version = 0, b_updated_at = now\<rparr>]) \<and>
     (\<exists>l h. ledger d' = ledger d @ [l] \<and> history d' = history d @ [h] \<and>
        l_user_id l = u_id u \<and> l_kind l = ''funding'' \<and> l_direction l = 1 \<and> l_counterparty_id l = None \<and>
        l_amount_paisa l = SEED_BALANCE_PAISA \<and> l_running_balance l = SEED_BALANCE_PAISA \<and>
        l_id l = next_serial (ledger d) \<and> h_id h = next_serial (history d) \<and>
        h_status h = ''completed'' \<and> history_facts h = ledger_facts l)"

lemma register_tx_runs:
  assumes "runs (register_tx D u) d x d'"
  shows "registered u d d'"
proof -
  let ?l = "ledger_entry (clock D 50) (new_v4 D 51) (generate_funding_reference D) (u_id u) None 1
               SEED_BALANCE_PAISA SEED_BALANCE_PAISA ''funding'' None"
  let ?h = "history_entry (clock D 50) (u_id u) ''completed'' ''funding'' ''received''
               SEED_BALANCE_PAISA SEED_BALANCE_PAISA None (generate_funding_reference D) (Some (new_v4 D 51))
               ''Initial account registration seed'' None"
  from assms obtain d1 d2 d3 d4 where 1: "insert_user u d = Inr d1"
    and 2: "insert_balance \<lparr>b_user_id = u_id u, b_amount_paisa = SEED_BALANCE_PAISA,
               b_version = 0, b_updated_at = clock D 50\<rparr> d1 = Inr d2"
    and 3: "insert_ledger ?l d2 = Inr d3" and 4: "insert_history ?h d3 = Inr d4"
    and 5: "runs (log_event_txn (clock D 51) ''auth'' (u_id u) ''registered'' (Some (u_id u))
           ''Initial user registration and 10M seed funding''
           (JObj [(''account_number'', JStr (u_account_number u)),
                  (''seed_paisa'', JInt SEED_BALANCE_PAISA)])) d4 x d'"
    unfolding register_tx_def Let_def by (elim runs_thnE) (auto simp only: runs_execute)
  from insert_user_Inr [OF 1] insert_balance_Inr(1) [OF 2] insert_ledger_Inr(1) [OF 3]
    insert_history_Inr(1) [OF 4] runs_log_event_txn [OF 5]
  show ?thesis
    by (simp add: registered_def ledger_entry_def history_entry_def history_facts_def ledger_facts_def)
qed

lemma registered_user_ledger:
  assumes "accounts_ok d" "registered u d d'"
  shows "\<exists>l. l_running_balance l = SEED_BALANCE_PAISA \<and> delta l = SEED_BALANCE_PAISA \<and>
     (\<forall>v. user_ledger d' v = (if v = u_id u then [l] else user_ledger d v))"
proof -
  from assms(2) obtain l where l: "ledger d' = ledger d @ [l]" "l_user_id l = u_id u" "l_direction l = 1"
    "l_amount_paisa l = SEED_BALANCE_PAISA" "l_running_balance l = SEED_BALANCE_PAISA"
    by (auto simp: registered_def)
  have "\<forall>r \<in> set (ledger d). is_user d (l_user_id r)" using assms(1) by (simp add: accounts_ok_def)
  moreover have "\<not> is_user d (u_id u)" using assms(2) by (simp add: registered_def is_user_def)
  ultimately have "user_ledger d (u_id u) = []"
    unfolding user_ledger_def by (auto simp: filter_empty_conv)
  with l show ?thesis by (intro exI [of _ l]) (auto simp: user_ledger_def delta_def)
qed

lemma registered_accounts:
  assumes acc: "accounts_ok d" and reg: "registered u d d'"
  shows "accounts_ok d'"
proof -
  from registered_user_ledger [OF acc reg] obtain l where l: "l_running_balance l = SEED_BALANCE_PAISA"
    "delta l = SEED_BALANCE_PAISA" "\<And>v. user_ledger d' v = (if v = u_id u then [l] else user_ledger d v)"
    by blast
  from reg obtain now where b: "balances d' = balances d @ [\<lparr>b_user_id = u_id u,
      b_amount_paisa = SEED_BALANCE_PAISA, b_version = 0, b_updated_at = now\<rparr>]"
    and us: "users d' = users d @ [u]" by (auto simp: registered_def)
  have sets: "set (map b_user_id (balances d)) = set (map u_id (users d))" using acc by (simp add: accounts_ok_def)
  have new: "u_id u \<notin> set (map u_id (users d))" using reg by (simp add: registered_def)
  then have new': "u_id u \<notin> set (map b_user_id (balances d))" using sets by simp
  have "account_ok d' r" if "r \<in> set (balances d')" for r
  proof (cases "r \<in> set (balances d)")
    case True
    with new' have "b_user_id r \<noteq> u_id u" by (metis image_eqI set_map)
    moreover have "account_ok d r" using acc True by (simp add: accounts_ok_def)
    ultimately show ?thesis by (simp add: account_ok_def l(3))
  next
    case False
    with that b have "b_user_id r = u_id u" "b_amount_paisa r = SEED_BALANCE_PAISA" by auto
    with l show ?thesis by (simp add: account_ok_def SEED_BALANCE_PAISA_def i64_max_def)
  qed
  moreover have "\<forall>r \<in> set (ledger d'). is_user d' (l_user_id r)"
    using acc reg by (auto simp: accounts_ok_def registered_def is_user_def)
  moreover have "distinct (map u_id (users d'))" "distinct (map b_user_id (balances d'))"
    "set (map b_user_id (balances d')) = set (map u_id (users d'))"
    using acc new new' sets by (simp_all add: us b accounts_ok_def)
  ultimately show ?thesis by (simp add: accounts_ok_def)
qed

lemma registered_books:
  assumes "books d" "registered u d d'"
  shows "books d'"
proof -
  from assms(2) obtain l h now where r: "users d' = users d @ [u]" "transfers d' = transfers d"
    "balances d' = balances d @ [\<lparr>b_user_id = u_id u, b_amount_paisa = SEED_BALANCE_PAISA, b_version = 0,
       b_updated_at = now\<rparr>]" "ledger d' = ledger d @ [l]" "history d' = history d @ [h]"
    "l_kind l = ''funding''" "l_direction l = 1" "l_counterparty_id l = None" "h_status h = ''completed''"
    "history_facts h = ledger_facts l" "l_id l = next_serial (ledger d)" "h_id h = next_serial (history d)"
    by (auto simp: registered_def)
  have "paired (ledger d')" unfolding r(4) by (rule paired_append) (use assms(1) r in \<open>simp_all add: books_def\<close>)
  with registered_accounts [OF books_accounts [OF assms(1)] assms(2)] assms(1) r show ?thesis
    by (simp add: books_def total_balance_def transfers_agree_def history_agrees_def serial_ok_def
        next_serial_def algebra_simps)
qed

text \<open>A PIN update: only the PIN columns of one user change.\<close>

definition pin_updated :: "uuid \<Rightarrow> database \<Rightarrow> database \<Rightarrow> bool" where
  "pin_updated i d d' \<longleftrightarrow> (\<exists>h now d1.
     d1 = d\<lparr>users := update_where (\<lambda>u. u_id u = i) (\<lambda>u. u\<lparr>u_pin_hash := h, u_pin_updated_at := now\<rparr>) (users d)\<rparr> \<and>
     only_events d1 d')"

lemma pin_updated_books: "pin_updated i d d' \<Longrightarrow> books d' = books d"
  by (rule books_ids) (auto simp: pin_updated_def only_events_eq map_update_where)

lemma pin_updated_tables: "pin_updated i d d' \<Longrightarrow> requests d' = requests d \<and> links d' = links d"
  by (auto simp: pin_updated_def only_events_eq)

definition auth_change :: "database \<Rightarrow> database \<Rightarrow> bool" where
  "auth_change d d' \<longleftrightarrow> only_events d d' \<or> (\<exists>i. pin_updated i d d') \<or>
     (\<exists>u. u_status u = ''active'' \<and> registered u d d')"

lemma auth_change_books: "auth_change d d' \<Longrightarrow> books d \<Longrightarrow> books d'"
  unfolding auth_change_def
  using only_events_same_money same_money_books pin_updated_books registered_books by blast

lemma auth_change_tables: "auth_change d d' \<Longrightarrow> requests d' = requests d \<and> links d' = links d"
  by (auto simp: auth_change_def only_events_eq registered_def dest: pin_updated_tables)

lemma register_user_db:
  assumes "register_user P D req w = (r, w')"
  shows "db w' = db w \<or> (\<exists>ph qh. u_status (new_user D (trim (rr_name req)) (trim (rr_phone req)) ph qh) = ''active'' \<and>
     registered (new_user D (trim (rr_name req)) (trim (rr_phone req)) ph qh) (db w) (db w'))"
  using assms unfolding register_user_def Let_def
proof (cases rule: bnd_cases)
  case (failed e)
  then show ?thesis using pool_fetch_db' by blast
next
  case (passed existing w1)
  note f = pool_fetch_Ok [OF passed(1)]
  show ?thesis
  proof (cases "hash_password P (salt D 0) (rr_password req)")
    case (Inl e)
    with passed(2) f show ?thesis by (auto simp: thn_run bnd_run guard_run lift_run split: if_splits)
  next
    case ph: (Inr ph)
    show ?thesis
    proof (cases "hash_pin P (salt D 1) (rr_pin req)")
      case (Inl e)
      with passed(2) ph f show ?thesis by (auto simp: thn_run bnd_run guard_run lift_run split: if_splits)
    next
      case (Inr qh)
      let ?u = "new_user D (trim (rr_name req)) (trim (rr_phone req)) ph qh"
      obtain res w2 where t: "transaction (register_tx D ?u) w1 = (res, w2)" by fastforce
      from passed(2) ph Inr t f have "db w' = db w \<or> db w' = db w2"
        by (auto simp: thn_run bnd_run guard_run lift_run mail_run ret_run split: if_splits sum.splits)
      moreover have "db w2 = db w \<or> registered ?u (db w) (db w2)"
        using transaction_atomic [OF t] register_tx_runs f by metis
      moreover have "u_status ?u = ''active''" by (simp add: new_user_def)
      ultimately show ?thesis by metis
    qed
  qed
qed

lemma log_event_discarded: "only_events (db w) (db (snd (discard (log_event now et i ev a re m) w)))"
proof -
  obtain r w' where "log_event now et i ev a re m w = (r, w')" by fastforce
  from log_event_frame [OF this] show ?thesis by (simp add: discard_run \<open>log_event now et i ev a re m w = (r, w')\<close>)
qed

text \<open>Programs that, as far as the database is concerned, only append to the log.\<close>

definition logs_only :: "('r, 'a) service \<Rightarrow> bool" where
  "logs_only m \<longleftrightarrow> (\<forall>d0. keeps (\<lambda>w. only_events d0 (db w)) m)"

lemma logs_onlyD: "logs_only m \<Longrightarrow> m w = (r, w') \<Longrightarrow> only_events (db w) (db w')"
  unfolding logs_only_def keeps_def by (metis only_events_refl snd_conv)

lemma only_events_more: "only_events d0 d \<Longrightarrow> only_events d0 (d\<lparr>events := events d @ new\<rparr>)"
  unfolding only_events_def by (metis append_assoc database.surjective
      database.select_convs(7) database.update_convs(7))

lemma keeps_only_events_log [keeps_rules]:
  "keeps (\<lambda>w. only_events d0 (db w)) (log_event now et i ev a re m)"
  by (rule keeps_db_log_event) (rule only_events_more)

lemma keeps_only_events_pin [keeps_rules]:
  "keeps (\<lambda>w. only_events d0 (db w)) (enforce_user_pin P D u pin)"
  by (rule keeps_db_pin) (rule only_events_more)

lemma logs_only_login: "logs_only (login_user P D req)"
  unfolding logs_only_def login_user_def Let_def unknown_phone_def wrong_password_def open_session_def
    count_login_failure_def
  by (intro allI keeps_rules)

lemma logs_only_logout: "logs_only (logout_user P D u cookies)"
  unfolding logs_only_def logout_user_def by (intro allI keeps_rules)

lemma keeps_drop_sessions [keeps_rules]: "keeps (\<lambda>w. I (db w)) (drop_sessions P D k c sids)"
  by (induction sids) (auto intro!: keeps_rules)

text \<open>A PIN update through the pool, and what follows it.\<close>

lemma pin_update_db:
  assumes "thn (pool_execute (update_user_pin h now i)) k w = (r, w')"
    and "\<And>d0. keeps (\<lambda>w. only_events d0 (db w)) k"
  shows "only_events (db w) (db w') \<or> pin_updated i (db w) (db w')"
proof -
  obtain x w1 where p: "pool_execute (update_user_pin h now i) w = (x, w1)" by fastforce
  let ?d1 = "(db w)\<lparr>users := update_where (\<lambda>u. u_id u = i)
     (\<lambda>u. u\<lparr>u_pin_hash := h, u_pin_updated_at := now\<rparr>) (users (db w))\<rparr>"
  have "db w1 = db w \<or> db w1 = ?d1"
    using pool_atomic [OF p [unfolded pool_execute_def]] by (auto simp: update_user_pin_def)
  moreover have "only_events (db w1) (db w')"
  proof (cases x)
    case (Inl e)
    with assms(1) p show ?thesis by (simp add: thn_run)
  next
    case (Inr y)
    with assms(1) p have "k w1 = (r, w')" by (simp add: thn_run)
    with keepsD [OF assms(2) [of "db w1"], of w1] show ?thesis by simp
  qed
  ultimately show ?thesis unfolding pin_updated_def by metis
qed

lemma change_pin_db:
  assumes "change_pin P D i req w = (r, w')"
  shows "only_events (db w) (db w') \<or>
    pin_verified P i (pc_current_pin req) (db w) \<and> pin_updated i (db w) (db w')"
  using assms unfolding change_pin_def thn_def [of "enforce_user_pin P D i (pc_current_pin req)"]
proof (cases rule: bnd_cases)
  case (failed e)
  with enforce_user_pin_db [OF failed(1)] show ?thesis by simp
next
  case (passed x w1)
  note pin = enforce_user_pin_verified [OF passed(1)]
  from passed(2) show ?thesis
  proof (cases rule: bnd_cases)
    case (failed e)
    with pin show ?thesis by (simp add: lift_run)
  next
    case (passed h w2)
    then have "w2 = w1" by (simp add: lift_run)
    from pin_update_db [OF passed(2)] pin this show ?thesis
      by (auto intro!: keeps_rules)
  qed
qed

lemma reset_pin_db:
  assumes "reset_pin P D i req cookies w = (r, w')"
  shows "only_events (db w) (db w') \<or> pin_updated i (db w) (db w') \<and>
    (\<exists>u. find_user i (db w) = Some u \<and> verify_password P (pr_password req) (u_password_hash u) = Inr True)"
  using assms unfolding reset_pin_def
proof (cases rule: bnd_cases)
  case (failed e)
  then have "db w' = db w" using pool_fetch_db' by blast
  then show ?thesis by simp
next
  case (passed row w1)
  note f = pool_fetch_Ok [OF passed(1)]
  show ?thesis
  proof (cases row)
    case None
    with passed(2) f show ?thesis by (simp add: bnd_run lift_run)
  next
    case (Some ph)
    with f obtain u where u: "find_user i (db w) = Some u" "ph = u_password_hash u" by auto
    show ?thesis
    proof (cases "verify_password P (pr_password req) ph = Inr True")
      case False
      with passed(2) Some f show ?thesis
        by (cases "verify_password P (pr_password req) ph")
          (auto simp: bnd_run thn_run lift_run guard_run)
    next
      case ok: True
      show ?thesis
      proof (cases "hash_pin P (salt D 2) (pr_new_pin req)")
        case (Inl e)
        with passed(2) Some ok f show ?thesis by (simp add: bnd_run thn_run lift_run guard_run)
      next
        case (Inr h)
        with passed(2) Some ok have "thn (pool_execute (update_user_pin h (clock D 64) i))
          (bnd (redis_read (\<lambda>r. var_or (rd_smembers (rds P) (clock D 66) (user_sessions_key P i) r) []))
            (\<lambda>all_sids.
          thn (drop_sessions P D (user_sessions_key P i) (map_of cookies ''sid'') all_sids)
          (thn (discard (log_event (clock D 68) ''auth'' i ''pin_reset'' (Some i)
                  ''Transaction PIN reset via password; secondary sessions invalidated'' (JObj [])))
          (thn (dispatch_email P (uuid_to_string P i @ ''@pstupay.local'')
                  ''Security Alert: Transaction PIN Reset''
                  [Text (''Your transaction PIN was recently reset using your account password. '' @
                     ''All secondary active sessions have been invalidated.'' @ [CHR 10] @
                     ''If you did not perform this action, please contact support immediately.'')])
          (ret (clock D 64)))))) w1 = (r, w')"
          by (simp add: bnd_run [of "lift _"] thn_def [of "guard _ _"] bnd_run [of "guard _ _"] lift_run guard_run)
        from pin_update_db [OF this] f u ok show ?thesis
          by (auto intro!: keeps_rules)
      qed
    qed
  qed
qed

datatype auth_action =
    Register register_request
  | Login login_request
  | Logout uuid cookies
  | ChangePin uuid pin_change_req
  | ResetPin uuid pin_reset_req cookies

fun auth_op :: "'r platform \<Rightarrow> draws \<Rightarrow> auth_action \<Rightarrow> 'r world \<Rightarrow> 'r world" where
  "auth_op P D (Register req) w = snd (register_user P D req w)"
| "auth_op P D (Login req) w = snd (login_user P D req w)"
| "auth_op P D (Logout u cookies) w = snd (logout_user P D u cookies w)"
| "auth_op P D (ChangePin u req) w = snd (change_pin P D u req w)"
| "auth_op P D (ResetPin u req cookies) w = snd (reset_pin P D u req cookies w)"

lemma auth_op_change: "auth_change (db w) (db (auth_op P D act w))"
proof (cases act)
  case (Register req)
  obtain r w' where run: "register_user P D req w = (r, w')" by fastforce
  from register_user_db [OF run] show ?thesis by (auto simp: Register run auth_change_def)
next
  case (Login req)
  obtain r w' where run: "login_user P D req w = (r, w')" by fastforce
  from logs_onlyD [OF logs_only_login run] show ?thesis by (simp add: Login run auth_change_def)
next
  case (Logout u cookies)
  obtain r w' where run: "logout_user P D u cookies w = (r, w')" by fastforce
  from logs_onlyD [OF logs_only_logout run] show ?thesis by (simp add: Logout run auth_change_def)
next
  case (ChangePin u req)
  obtain r w' where run: "change_pin P D u req w = (r, w')" by fastforce
  from change_pin_db [OF run] show ?thesis by (auto simp: ChangePin run auth_change_def)
next
  case (ResetPin u req cookies)
  obtain r w' where run: "reset_pin P D u req cookies w = (r, w')" by fastforce
  from reset_pin_db [OF run] show ?thesis by (auto simp: ResetPin run auth_change_def)
qed

section \<open>Properties\<close>

lemma find_user_snoc:
  assumes "u_id u \<notin> set (map u_id (users d))" "users d' = users d @ [u]"
  shows "find_user i d' = (if i = u_id u then Some u else find_user i d)"
proof -
  have "find (\<lambda>v. u_id v = u_id u) (users d) = None"
    using assms(1) unfolding find_None_all by (metis image_eqI set_map)
  then show ?thesis
    unfolding find_user_def assms(2) find_snoc
    by (cases "find (\<lambda>v. u_id v = i) (users d)") auto
qed

lemma register_user_run_Ok:
  assumes "register_user P D req w = (Inr y, w')"
  shows "\<exists>ph qh. hash_password P (salt D 0) (rr_password req) = Inr ph \<and>
    hash_pin P (salt D 1) (rr_pin req) = Inr qh \<and>
    registered (new_user D (trim (rr_name req)) (trim (rr_phone req)) ph qh) (db w) (db w') \<and>
    rs_id y = new_v4 D 50 \<and> rs_phone y = trim (rr_phone req) \<and> rs_account_number y = generate_account_number D"
proof -
  from assms obtain ex w1 ph qh w2 where f: "pool_fetch (\<lambda>d. find (\<lambda>u. u_phone u = trim (rr_phone req)) (users d)) w = (Inr ex, w1)"
    and h: "hash_password P (salt D 0) (rr_password req) = Inr ph" "hash_pin P (salt D 1) (rr_pin req) = Inr qh"
    and t: "transaction (register_tx D (new_user D (trim (rr_name req)) (trim (rr_phone req)) ph qh)) w1 = (Inr (), w2)"
    and y: "rs_id y = new_v4 D 50" "rs_phone y = trim (rr_phone req)" "rs_account_number y = generate_account_number D"
    and d: "db w' = db w2"
    unfolding register_user_def Let_def
    by (auto simp: prog_Inr_iff mail_run new_user_def)
  from register_tx_runs [OF transaction_Ok [OF t]] pool_fetch_Ok [OF f] d h y show ?thesis by auto
qed

text \<open>C21: When registration answers Ok, the phone, the account number and the id were all free; the new
user is active and holds exactly the seed money, the stored hashes are those of the given password and PIN,
and nobody else's balance has changed.\<close>

theorem register_user_creates:
  assumes "books (db w)" "register_user P D req w = (Inr y, w')"
  shows "\<exists>u. find_user (rs_id y) (db w') = Some u \<and> u_status u = ''active'' \<and>
    u_phone u = trim (rr_phone req) \<and> u_phone u \<notin> set (map u_phone (users (db w))) \<and>
    u_account_number u = rs_account_number y \<and>
    u_account_number u \<notin> set (map u_account_number (users (db w))) \<and>
    hash_password P (salt D 0) (rr_password req) = Inr (u_password_hash u) \<and>
    hash_pin P (salt D 1) (rr_pin req) = Inr (u_pin_hash u) \<and>
    (\<forall>v. balance_of (db w') v = (if v = rs_id y then SEED_BALANCE_PAISA else balance_of (db w) v))"
proof -
  from register_user_run_Ok [OF assms(2)] obtain u where reg: "registered u (db w) (db w')"
    and u: "u_status u = ''active''" "u_phone u = trim (rr_phone req)" "u_account_number u = rs_account_number y"
      "hash_password P (salt D 0) (rr_password req) = Inr (u_password_hash u)"
      "hash_pin P (salt D 1) (rr_pin req) = Inr (u_pin_hash u)" "u_id u = rs_id y"
    by (fastforce simp: new_user_def)
  have "set (map b_user_id (balances (db w))) = set (map u_id (users (db w)))"
    using assms(1) by (simp add: books_def accounts_ok_def)
  then have new: "u_id u \<notin> set (map b_user_id (balances (db w)))" using reg by (simp add: registered_def)
  from reg obtain now where b: "balances (db w') = balances (db w) @ [\<lparr>b_user_id = u_id u,
      b_amount_paisa = SEED_BALANCE_PAISA, b_version = 0, b_updated_at = now\<rparr>]" by (auto simp: registered_def)
  from new have "find (\<lambda>b. b_user_id b = u_id u) (balances (db w)) = None"
    unfolding find_None_all by (metis image_eqI set_map)
  then have "balance_of (db w') v = (if v = rs_id y then SEED_BALANCE_PAISA else balance_of (db w) v)" for v
    using u(6) by (auto simp: balance_of_def b find_snoc split: option.splits)
  with u reg find_user_snoc [of u "db w" "db w'" "rs_id y"] show ?thesis
    by (auto simp: registered_def)
qed

definition sample_registration :: register_request where
  "sample_registration = \<lparr>rr_name = ''Carol'', rr_phone = '' 01700000003 '', rr_password = ''password'',
     rr_pin = ''4321''\<rparr>"

theorem register_user_creates_witness:
  "\<exists>u. u_phone u = ''01700000003'' \<and>
     find_user (Uuid 250) (db (snd (register_user sample_platform (sample_draws 1000 2) sample_registration sample_world))) = Some u"
proof -
  obtain r w' where run: "register_user sample_platform (sample_draws 1000 2) sample_registration sample_world = (r, w')"
    by fastforce
  have "map_sum (\<lambda>_. ()) rs_id (fst (register_user sample_platform (sample_draws 1000 2) sample_registration
      sample_world)) = Inr (Uuid 250)" by code_simp
  then obtain y where y: "r = Inr y" "rs_id y = Uuid 250" unfolding run by (cases r) auto
  have "trim (rr_phone sample_registration) = ''01700000003''" by code_simp
  with register_user_creates [OF books_sample run [unfolded y(1)]] y show ?thesis by (auto simp: run)
qed

end
