(* ===== verification/Lockout.thy ===== *)
theory Lockout
  imports Auth
begin

text \<open>
  The two brute-force locks (\<open>core/pin.rs\<close> and the login of \<open>features/auth/service.rs\<close>) over the
  interface \<open>redis_counters\<close>: within the lifetime of a counter at most five wrong guesses are ever
  compared with the secret, whatever else fails, and after the fifth even the right one is refused.
\<close>

section \<open>Runs of guesses\<close>

fun run_all :: "('x \<Rightarrow> 'w \<Rightarrow> 'a \<times> 'w) \<Rightarrow> 'x list \<Rightarrow> 'w \<Rightarrow> 'a list \<times> 'w" where
  "run_all f [] w = ([], w)"
| "run_all f (x # xs) w =
     (case f x w of (a, w1) \<Rightarrow> case run_all f xs w1 of (as, w2) \<Rightarrow> (a # as, w2))"

text \<open>The answers of a PIN check that has compared the guess with the stored hash and found it wrong.\<close>

definition pin_compared :: "app_error + 'a \<Rightarrow> bool" where
  "pin_compared a \<longleftrightarrow> a = Inl pin_incorrect \<or> a = Inl pin_locked_now"

lemma pin_compared_simps [simp]:
  "pin_compared (Inl pin_incorrect)" "pin_compared (Inl pin_locked_now)" "\<not> pin_compared (Inl pin_locked)"
  "\<not> pin_compared (Inl (Database d))" "\<not> pin_compared (Inl (NotFound m))"
  "\<not> pin_compared (Inl (Internal m))" "\<not> pin_compared (Inr x)"
  by (simp_all add: pin_compared_def pin_incorrect_def pin_locked_now_def pin_locked_def)

text \<open>
  A login compares the password with the stored hash when the lock is open, the phone is known and the
  account is active; \<open>login_guess\<close> records whether it does, and \<open>login_right\<close> says that it would succeed.
\<close>

definition login_compares :: "'r platform \<Rightarrow> draws \<Rightarrow> login_request \<Rightarrow> 'r world \<Rightarrow> bool" where
  "login_compares P D req w \<longleftrightarrow> (let phone = trim (lg_phone req) in
     \<not> var_or (rd_get_i64 (rds P) (clock D 50) (login_key phone) (redis w)) 0 \<ge> MAX_LOGIN_FAILURES \<and>
     (case pool_fetch (user_with_balance phone) w of
        (Inr (Some (u, b)), _) \<Rightarrow> u_status u = ''active'' \<and>
          \<not> isl (verify_password P (lg_password req) (u_password_hash u))
      | _ \<Rightarrow> False))"

definition login_guess ::
  "'r platform \<Rightarrow> draws \<times> login_request \<Rightarrow> 'r world \<Rightarrow>
     (bool \<times> (app_error + login_response \<times> cookie)) \<times> 'r world" where
  "login_guess P = (\<lambda>(D, req) w. case login_user P D req w of
     (a, w') \<Rightarrow> ((login_compares P D req w, a), w'))"

definition login_right :: "'r platform \<Rightarrow> login_request \<Rightarrow> database \<Rightarrow> bool" where
  "login_right P req d \<longleftrightarrow> (case user_with_balance (trim (lg_phone req)) d of None \<Rightarrow> False
     | Some (u, b) \<Rightarrow> u_status u = ''active'' \<and>
         verify_password P (lg_password req) (u_password_hash u) = Inr True)"

lemma instant_clock: "instant D \<Longrightarrow> clock D (numeral n) = clock D 0"
  by (simp add: instant_def)

lemma discard_log_redis: "discard (log_event now et i ev ac re m) w = (y, w') \<Longrightarrow> redis w' = redis w"
  using log_event_frame [of now et i ev ac re m w] by (cases "log_event now et i ev ac re m w") (simp add: discard_run)

lemma discard_log_Ok: "discard (log_event now et i ev ac re m) w = (y, w') \<Longrightarrow> y = Inr ()"
  by (simp add: discard_run)

text \<open>The ways a login can go.\<close>

lemma login_path:
  fixes req :: login_request
  defines "phone \<equiv> trim (lg_phone req)"
  assumes "login_user P D req w = (b, w')"
  obtains (locked) "MAX_LOGIN_FAILURES \<le> var_or (rd_get_i64 (rds P) (clock D 50) (login_key phone) (redis w)) 0" "w' = w"
  | (broken) e where "pool_fetch (user_with_balance phone) w = (Inl e, w')"
  | (unknown) w1 where "\<not> MAX_LOGIN_FAILURES \<le> var_or (rd_get_i64 (rds P) (clock D 50) (login_key phone) (redis w)) 0"
      "pool_fetch (user_with_balance phone) w = (Inr None, w1)" "unknown_phone P D phone w1 = (b, w')"
  | (mistaken) u bal w1 where "\<not> MAX_LOGIN_FAILURES \<le> var_or (rd_get_i64 (rds P) (clock D 50) (login_key phone) (redis w)) 0"
      "pool_fetch (user_with_balance phone) w = (Inr (Some (u, bal)), w1)" "wrong_password P D phone (u_id u) w1 = (b, w')"
  | (opened) u bal w1 where "pool_fetch (user_with_balance phone) w = (Inr (Some (u, bal)), w1)"
      "u_status u = ''active''" "verify_password P (lg_password req) (u_password_hash u) = Inr True"
  | (turned_away) u bal w1 where "pool_fetch (user_with_balance phone) w = (Inr (Some (u, bal)), w1)" "w' = w1"
      "u_status u \<noteq> ''active'' \<or> (\<exists>e. verify_password P (lg_password req) (u_password_hash u) = Inl e)"
proof (cases "MAX_LOGIN_FAILURES \<le> var_or (rd_get_i64 (rds P) (clock D 50) (login_key phone) (redis w)) 0")
  note run1 = assms(2) [unfolded login_user_def Let_def phone_def [symmetric] bnd_run [of "redis_read _"] redis_run(1)
    prod.case sum.case thn_run [where s = w] guard_run [where s = w]]
  case True
  with run1 have "w' = w" by simp
  with True show thesis by (rule locked)
next
  note run1 = assms(2) [unfolded login_user_def Let_def phone_def [symmetric] bnd_run [of "redis_read _"] redis_run(1)
    prod.case sum.case thn_run [where s = w] guard_run [where s = w]]
  case few: False
  have run: "bnd (pool_fetch (user_with_balance phone)) (\<lambda>row. case row of
       None \<Rightarrow> unknown_phone P D phone
     | Some (u, bal) \<Rightarrow>
         thn (guard (\<not> u_status u \<noteq> ''active'') (Forbidden ''Account is suspended or locked''))
         (bnd (lift (verify_password P (lg_password req) (u_password_hash u))) (\<lambda>password_ok.
          if \<not> password_ok then wrong_password P D phone (u_id u)
          else open_session P D phone u bal))) w = (b, w')"
    using run1 by (simp only: few not_False_eq_True if_True sum.case)
  then show thesis
  proof (cases rule: bnd_cases)
    case (failed e)
    with broken show thesis by blast
  next
    case (passed row w1)
    show thesis
    proof (cases row)
      case None
      with passed few unknown show thesis by simp
    next
      case (Some ub)
      obtain us bal where ub: "ub = (us, bal)" by (cases ub)
      note f = passed(1) [unfolded Some ub] and k = passed(2) [unfolded Some ub]
      show thesis
        by (cases "u_status us = ''active''"; cases "verify_password P (lg_password req) (u_password_hash us)")
          (use f k few mistaken opened turned_away in
            \<open>auto simp: thn_run guard_run bnd_run [of "lift _"] lift_run split: if_splits\<close>)
    qed
  qed
qed

context redis_counters
begin

text \<open>
  What one guess does to its counter: either it found fewer than \<open>m\<close> failures and has counted one more,
  or it left the store as it was, and then it was not compared with the secret.
\<close>

definition counts_guess ::
  "str \<Rightarrow> int \<Rightarrow> int \<Rightarrow> ('a \<Rightarrow> bool) \<Rightarrow> int \<Rightarrow> 'a \<Rightarrow> 'r \<Rightarrow> 'r \<Rightarrow> bool" where
  "counts_guess k m s compared t a r r' \<longleftrightarrow>
     var_or (count t r k) 0 < m \<and> r' = rd_expire R t k s (snd (rd_incr R t k 1 r)) \<or>
     \<not> compared a \<and> r' = r"

lemma counts_guess_step:
  assumes "counts_guess k m s compared t a r r'" "up r" "0 \<le> n" "n \<le> m" "m \<le> i64_max"
    and "\<And>x. t \<le> x \<Longrightarrow> x < t0 + s * 1000000 \<Longrightarrow> n \<le> var_or (count x r k) 0"
    and "t0 \<le> t" "t < t0 + s * 1000000"
  shows "up r' \<and> n + (if compared a then 1 else 0) \<le> m \<and>
    (\<forall>x. t \<le> x \<and> x < t0 + s * 1000000 \<longrightarrow> n + (if compared a then 1 else 0) \<le> var_or (count x r' k) 0)"
  using assms(1) unfolding counts_guess_def
proof (elim disjE conjE)
  assume "\<not> compared a" "r' = r"
  with assms show ?thesis by simp
next
  assume v: "var_or (count t r k) 0 < m" and r': "r' = rd_expire R t k s (snd (rd_incr R t k 1 r))"
  have n: "n \<le> var_or (count t r k) 0" using assms(6-8) by simp
  with v assms(3,5) have "in_i64 (var_or (count t r k) 0 + 1)"
    by (simp add: in_i64_def i64_min_def)
  then have "count x r' k = Some (var_or (count t r k) 0 + 1)" if "t \<le> x" "x < t0 + s * 1000000" for x
    using incr_expire_count [OF assms(2) _ that(1), of k 1 s] that assms(7) unfolding r' by simp
  with n v assms(2) show ?thesis by (simp add: r' incr_expire_up var_or_def)
qed

lemma guesses_bounded:
  assumes step: "\<And>x w a w'. x \<in> set xs \<Longrightarrow> I w \<Longrightarrow> up (redis w) \<Longrightarrow> guess x w = (a, w') \<Longrightarrow>
      I w' \<and> counts_guess k m s compared (at x) a (redis w) (redis w')"
    and "I w" "up (redis w)" "0 \<le> n" "n \<le> m" "m \<le> i64_max"
    and "sorted (map at xs)" "\<forall>x \<in> set xs. now \<le> at x \<and> t0 \<le> at x \<and> at x < t0 + s * 1000000"
    and "\<And>x. now \<le> x \<Longrightarrow> x < t0 + s * 1000000 \<Longrightarrow> n \<le> var_or (count x (redis w) k) 0"
    and run: "run_all guess xs w = (as, w')"
  shows "I w' \<and> up (redis w') \<and> n + int (length (filter compared as)) \<le> m \<and>
    (\<forall>x. now \<le> x \<and> (\<forall>y \<in> set xs. at y \<le> x) \<and> x < t0 + s * 1000000 \<longrightarrow>
       n + int (length (filter compared as)) \<le> var_or (count x (redis w') k) 0)"
  using assms
proof (induction xs arbitrary: w n now as)
  case Nil
  then show ?case by auto
next
  case (Cons x xs)
  obtain a w1 where g: "guess x w = (a, w1)" by fastforce
  obtain as1 where r: "run_all guess xs w1 = (as1, w')" and as: "as = a # as1"
    using Cons.prems(10) g by (auto split: prod.splits)
  note s = Cons.prems(1) [OF _ Cons.prems(2,3) g]
  let ?n = "n + (if compared a then 1 else 0)"
  have c: "counts_guess k m s compared (at x) a (redis w) (redis w1)" using s by simp
  have nx: "at x < t0 + s * 1000000" "now \<le> at x" "t0 \<le> at x" using Cons.prems(8) by auto
  have st: "up (redis w1)" "?n \<le> m"
    "\<And>y. at x \<le> y \<Longrightarrow> y < t0 + s * 1000000 \<Longrightarrow> ?n \<le> var_or (count y (redis w1) k) 0"
    using counts_guess_step [OF c Cons.prems(3-6) _ nx(3,1)] Cons.prems(9) nx(2) by auto
  have "I w' \<and> up (redis w') \<and> ?n + int (length (filter compared as1)) \<le> m \<and>
    (\<forall>y. at x \<le> y \<and> (\<forall>z \<in> set xs. at z \<le> y) \<and> y < t0 + s * 1000000 \<longrightarrow>
       ?n + int (length (filter compared as1)) \<le> var_or (count y (redis w') k) 0)"
  proof (rule Cons.IH [OF _ _ st(1) _ _ Cons.prems(6) _ _ st(3) r])
    show "I w1" using s by simp
    show "0 \<le> ?n" "?n \<le> m" using Cons.prems(4) st(2) by auto
    show "sorted (map at xs)" using Cons.prems(7) by simp
    show "\<forall>z \<in> set xs. at x \<le> at z \<and> t0 \<le> at z \<and> at z < t0 + s * 1000000"
      using Cons.prems(7,8) by auto
  qed (use Cons.prems(1) in auto)
  then show ?case unfolding as by (auto simp: algebra_simps split: if_splits)
qed

text \<open>The branch of a wrong PIN.\<close>

lemma pin_failure_counts:
  assumes R: "rds P = R" and inst: "instant D" and run: "pin_failure P D u w = (a, w')"
  shows "pin_compared a \<and> redis w' = rd_expire R (clock D 0) (pin_key P u) PIN_LOCKOUT_SECONDS
     (snd (rd_incr R (clock D 0) (pin_key P u) 1 (redis w)))"
proof -
  have t: "clock D 1 = clock D 0" "clock D 2 = clock D 0" using inst by (simp_all add: instant_def)
  let ?i = "rd_incr R (clock D 0) (pin_key P u) 1 (redis w)"
  let ?log = "discard (log_event (clock D 3) ''auth'' u ''pin_failed'' (Some u)
     ''Incorrect transaction PIN entered'' (JObj [(''failure_count'', JInt (var_or (fst ?i) 1))]))"
  let ?w1 = "w\<lparr>redis := rd_expire R (clock D 0) (pin_key P u) PIN_LOCKOUT_SECONDS (snd ?i)\<rparr>"
  obtain y w2 where l: "?log ?w1 = (y, w2)" by fastforce
  note r2 = discard_log_redis [OF l] and y = discard_log_Ok [OF l]
  note run1 = run [unfolded pin_failure_def bnd_run [of "redis_call _"] redis_run(3) prod.case sum.case
    R t Let_def thn_run redis_run(2) prod.case sum.case]
  have "a = (if var_or (fst ?i) 1 \<ge> MAX_PIN_FAILURES then Inl pin_locked_now else Inl pin_incorrect) \<and> w' = w2"
    using run1 l y by (auto simp: throw_run split: if_splits)
  with r2 show ?thesis by simp
qed

text \<open>One PIN check.\<close>

lemma pin_counts_guess:
  assumes R: "rds P = R" and inst: "instant D" and u: "up (redis w)"
    and wrong: "\<not> pin_verified P u pin (db w)"
    and run: "enforce_user_pin P D u pin w = (a, w')"
  shows "counts_guess (pin_key P u) MAX_PIN_FAILURES PIN_LOCKOUT_SECONDS pin_compared (clock D 0) a
     (redis w) (redis w')"
proof -
  let ?q = "\<lambda>d. map_option u_pin_hash (find (\<lambda>x. u_id x = u) (users d))"
  let ?c = "count (clock D 0) (redis w) (pin_key P u)"
  have get: "rd_get_i64 (rds P) (clock D 0) (pin_key P u) (redis w) = ?c" using u by (simp add: R get)
  note run1 = run [unfolded enforce_user_pin_def bnd_run [of "redis_read _"] redis_run(1) prod.case sum.case get
    thn_run guard_run]
  show ?thesis
  proof (cases "MAX_PIN_FAILURES \<le> var_or ?c 0")
    case True
    from run1 True have "a = Inl pin_locked" "w' = w" by simp_all
    then show ?thesis by (simp add: counts_guess_def)
  next
    case few: False
    have run2: "bnd (pool_fetch ?q) (\<lambda>row. bnd (lift (ok_or row (NotFound ''User not found''))) (\<lambda>pin_hash.
        bnd (lift (verify_pin_hash P pin pin_hash)) (\<lambda>is_valid.
          if \<not> is_valid then pin_failure P D u
          else redis_write (rd_del (rds P) (clock D 4) (pin_key P u))))) w = (a, w')"
      using run1 few by simp
    then show ?thesis
    proof (cases rule: bnd_cases)
      case (failed e)
      then have "redis w' = redis w" "\<exists>d. e = Database d"
        using pool_frame unfolding pool_fetch_def
        by (blast, auto simp: pool_def split: prod.splits if_splits sum.splits)
      with failed show ?thesis by (auto simp: counts_guess_def)
    next
      case (passed hash w1)
      have r1: "redis w1 = redis w" using passed(1) pool_frame unfolding pool_fetch_def by blast
      have h: "hash = ?q (db w)" using pool_fetch_Ok [OF passed(1)] by simp
      show ?thesis
      proof (cases "hash = None \<or> (\<exists>e ph. hash = Some ph \<and> verify_pin_hash P pin ph = Inl e)")
        case True
        with passed(2) r1 show ?thesis
          by (auto simp: bnd_run lift_run counts_guess_def verify_pin_hash_def split: option.splits)
      next
        case False
        then obtain ph b where ph: "hash = Some ph" "verify_pin_hash P pin ph = Inr b"
          by (cases hash) (auto, metis sum.exhaust)
        with h wrong have "\<not> b"
          by (auto simp: pin_verified_def find_user_def verify_pin_hash_def split: option.splits)
        with passed(2) ph have "pin_failure P D u w1 = (a, w')" by (simp add: bnd_run lift_run)
        from pin_failure_counts [OF R inst this] few r1 show ?thesis by (simp add: counts_guess_def)
      qed
    qed
  qed
qed

text \<open>One login.\<close>

lemma count_login_failure_run:
  assumes "rds P = R" "count_login_failure P D phone w = (a, w')"
  shows "redis w' = rd_expire R (clock D 52) (login_key phone) LOCKOUT_DURATION_SECS
     (snd (rd_incr R (clock D 52) (login_key phone) 1 (redis w)))" and "db w' = db w" and "\<exists>n. a = Inr n"
  using assms by (auto simp: count_login_failure_def bnd_run thn_run redis_run ret_run)

lemma login_failure_counts:
  assumes R: "rds P = R" and inst: "instant D"
    and run: "unknown_phone P D phone w = (a, w') \<or> wrong_password P D phone i w = (a, w')"
  shows "redis w' = rd_expire R (clock D 0) (login_key phone) LOCKOUT_DURATION_SECS
     (snd (rd_incr R (clock D 0) (login_key phone) 1 (redis w)))"
proof -
  obtain x w1 where c: "count_login_failure P D phone w = (x, w1)" by fastforce
  note f = count_login_failure_run [OF R c]
  then obtain n where n: "x = Inr n" by blast
  have "redis w' = redis w1"
    using run
  proof
    assume "unknown_phone P D phone w = (a, w')"
    then show ?thesis unfolding unknown_phone_def bnd_run [of "count_login_failure _ _ _"] c n
      by (auto simp: throw_run split: if_splits)
  next
    assume run: "wrong_password P D phone i w = (a, w')"
    obtain y w2 where l: "discard (log_event (clock D 53) ''auth'' i ''login_failed'' (Some i)
            ''Failed login attempt (incorrect password)''
            (JObj [(''failure_count'', JInt n)])) w1 = (y, w2)" by fastforce
    from run have "w' = w2" unfolding wrong_password_def bnd_run [of "count_login_failure _ _ _"] c n
      using l discard_log_Ok [OF l] by (auto simp: thn_run throw_run split: if_splits)
    with discard_log_redis [OF l] show ?thesis by simp
  qed
  moreover have "clock D 52 = clock D 0" using inst by (simp add: instant_def)
  ultimately show ?thesis using f(1) by simp
qed

lemma login_counts_guess:
  assumes R: "rds P = R" and inst: "instant D" and u: "up (redis w)"
    and wrong: "\<not> login_right P req (db w)"
    and run: "login_guess P (D, req) w = (a, w')"
  shows "counts_guess (login_key (trim (lg_phone req))) MAX_LOGIN_FAILURES LOCKOUT_DURATION_SECS fst (clock D 0) a
     (redis w) (redis w')"
proof -
  let ?phone = "trim (lg_phone req)"
  have "clock D 50 = clock D 0" using inst by (simp add: instant_def)
  then have get: "rd_get_i64 (rds P) (clock D 50) (login_key ?phone) (redis w) = count (clock D 0) (redis w) (login_key ?phone)"
    using u by (simp add: R get)
  have frame: "redis w1 = redis w" if "pool_fetch q w = (x, w1)" for q :: "database \<Rightarrow> 'c" and x w1
    using that pool_frame unfolding pool_fetch_def by blast
  obtain b where a: "a = (login_compares P D req w, b)" and run0: "login_user P D req w = (b, w')"
    using run by (auto simp: login_guess_def split: prod.splits)
  from run0 show ?thesis
  proof (cases rule: login_path)
    case locked
    then show ?thesis by (simp add: counts_guess_def a login_compares_def get Let_def)
  next
    case (broken e)
    with frame [OF broken] show ?thesis by (simp add: counts_guess_def a login_compares_def Let_def)
  next
    case (unknown w1)
    with login_failure_counts [OF R inst disjI1 [OF unknown(3)]] frame [OF unknown(2)] get show ?thesis
      by (simp add: counts_guess_def)
  next
    case (mistaken us bal w1)
    with login_failure_counts [OF R inst disjI2 [OF mistaken(3)]] frame [OF mistaken(2)] get show ?thesis
      by (simp add: counts_guess_def)
  next
    case (opened us bal w1)
    with wrong pool_fetch_Ok [OF opened(1)] show ?thesis by (auto simp: login_right_def)
  next
    case (turned_away us bal w1)
    with frame [OF turned_away(1)] show ?thesis
      by (auto simp: counts_guess_def a login_compares_def Let_def)
  qed
qed

end

section \<open>The sample store\<close>

lemma sample_counters: "redis_counters (rds sample_platform) (\<lambda>_. True) kv_count"
  using kvc.redis_counters_axioms by (simp add: sample_platform_def)

lemma sample_count: "0 \<le> var_or (kv_count t (redis sample_world) k) 0"
  by (simp add: sample_world_def kv_empty_def kv_count_def var_or_def)

section \<open>The PIN\<close>

definition pin_guess :: "'r platform \<Rightarrow> uuid \<Rightarrow> draws \<times> str \<Rightarrow> 'r world \<Rightarrow> (app_error + unit) \<times> 'r world" where
  "pin_guess P u = (\<lambda>(D, pin) w. enforce_user_pin P D u pin w)"

definition in_lifetime :: "int \<Rightarrow> int \<Rightarrow> (draws \<times> 'x) list \<Rightarrow> bool" where
  "in_lifetime T secs xs \<longleftrightarrow> sorted (map (\<lambda>x. clock (fst x) 0) xs) \<and>
     (\<forall>x \<in> set xs. instant (fst x) \<and> T \<le> clock (fst x) 0 \<and> clock (fst x) 0 < T + secs * 1000000)"

lemma pin_verified_users: "users d' = users d \<Longrightarrow> pin_verified P u pin d' = pin_verified P u pin d"
  by (simp add: pin_verified_def find_user_def)

lemma pin_locked_run:
  assumes "rd_get_i64 (rds P) (clock D 0) (pin_key P u) (redis w) = c" "MAX_PIN_FAILURES \<le> var_or c 0"
  shows "enforce_user_pin P D u pin w = (Inl pin_locked, w)"
  using assms
  unfolding enforce_user_pin_def bnd_run [of "redis_read _"] redis_run prod.case sum.case thn_run guard_run
  by simp

lemma pin_guesses_counted:
  assumes "redis_counters (rds P) up count" "up (redis w)"
    "\<And>t. T \<le> t \<Longrightarrow> 0 \<le> var_or (count t (redis w) (pin_key P u)) 0"
    "in_lifetime T PIN_LOCKOUT_SECONDS gs"
    "\<forall>g \<in> set gs. \<not> pin_verified P u (snd g) (db w)"
    "run_all (pin_guess P u) gs w = (as, w')"
  shows "up (redis w') \<and> length (filter pin_compared as) \<le> 5 \<and>
    (\<forall>x. T \<le> x \<and> (\<forall>y \<in> set gs. clock (fst y) 0 \<le> x) \<and> x < T + PIN_LOCKOUT_SECONDS * 1000000 \<longrightarrow>
       int (length (filter pin_compared as)) \<le> var_or (count x (redis w') (pin_key P u)) 0)"
proof -
  let ?at = "\<lambda>g. clock (fst g) 0" and ?I = "\<lambda>v. users (db v) = users (db w)"
  note rc = assms(1)
  have life: "sorted (map ?at gs)" "\<forall>g \<in> set gs. instant (fst g) \<and> T \<le> ?at g \<and> ?at g < T + PIN_LOCKOUT_SECONDS * 1000000"
    using assms(4) by (auto simp: in_lifetime_def)
  have step: "?I v' \<and> redis_counters.counts_guess (rds P) count (pin_key P u) MAX_PIN_FAILURES
      PIN_LOCKOUT_SECONDS pin_compared (?at g) a (redis v) (redis v')"
    if "g \<in> set gs" "?I v" "up (redis v)" "pin_guess P u g v = (a, v')" for g v a v'
  proof -
    from that(4) have run: "enforce_user_pin P (fst g) u (snd g) v = (a, v')"
      by (simp add: pin_guess_def split: prod.splits)
    have wrong: "\<not> pin_verified P u (snd g) (db v)"
      using assms(5) that(1) pin_verified_users [OF that(2), of P u "snd g"] by simp
    have "instant (fst g)" using life(2) that(1) by blast
    from redis_counters.pin_counts_guess [OF rc refl this that(3) wrong run] that(2)
      only_events_eq(1) [OF enforce_user_pin_db [OF run]] show ?thesis by simp
  qed
  have times: "\<forall>g \<in> set gs. T \<le> ?at g \<and> T \<le> ?at g \<and> ?at g < T + PIN_LOCKOUT_SECONDS * 1000000"
    using life(2) by blast
  have max: "MAX_PIN_FAILURES \<le> i64_max" "(0::int) \<le> MAX_PIN_FAILURES"
    by (simp_all add: MAX_PIN_FAILURES_def i64_max_def)
  have "?I w' \<and> up (redis w') \<and> 0 + int (length (filter pin_compared as)) \<le> MAX_PIN_FAILURES \<and>
    (\<forall>x. T \<le> x \<and> (\<forall>y \<in> set gs. ?at y \<le> x) \<and> x < T + PIN_LOCKOUT_SECONDS * 1000000 \<longrightarrow>
       0 + int (length (filter pin_compared as)) \<le> var_or (count x (redis w') (pin_key P u)) 0)"
    by (rule redis_counters.guesses_bounded [where I = ?I and at = ?at and n = 0 and guess = "pin_guess P u",
          OF rc step refl assms(2) order_refl max(2,1) life(1) times _ assms(6)]) (assumption | rule assms(3))+
  then show ?thesis by (simp add: MAX_PIN_FAILURES_def)
qed

text \<open>C27: The PIN cannot be guessed by trying: in any 900 seconds, over any sequence of wrong guesses made
one after the other and any failures of the database in between, while Redis answers, at most five of them are compared
with the stored hash; and once five have been, every further check, even one with the right PIN, is refused until the
time is over.\<close>

theorem pin_guesses_bounded:
  assumes "redis_counters (rds P) up count" "up (redis w)"
    "\<And>t. T \<le> t \<Longrightarrow> 0 \<le> var_or (count t (redis w) (pin_key P u)) 0"
    "in_lifetime T PIN_LOCKOUT_SECONDS (gs @ [(D, pin)])"
    "\<forall>g \<in> set gs. \<not> pin_verified P u (snd g) (db w)"
    "run_all (pin_guess P u) gs w = (as, w')"
  shows "length (filter pin_compared as) \<le> 5 \<and>
    (length (filter pin_compared as) = 5 \<longrightarrow> fst (enforce_user_pin P D u pin w') = Inl pin_locked)"
proof (intro conjI impI)
  have life: "in_lifetime T PIN_LOCKOUT_SECONDS gs" "T \<le> clock D 0" "clock D 0 < T + PIN_LOCKOUT_SECONDS * 1000000"
    "\<forall>g \<in> set gs. clock (fst g) 0 \<le> clock D 0"
    using assms(4) by (auto simp: in_lifetime_def sorted_append)
  note b = pin_guesses_counted [OF assms(1-3) life(1) assms(5,6)]
  then show "length (filter pin_compared as) \<le> 5" by blast
  assume "length (filter pin_compared as) = 5"
  with b life(2-4) have "MAX_PIN_FAILURES \<le> var_or (count (clock D 0) (redis w') (pin_key P u)) 0"
    by (simp add: MAX_PIN_FAILURES_def)
  moreover have "rd_get_i64 (rds P) (clock D 0) (pin_key P u) (redis w') = count (clock D 0) (redis w') (pin_key P u)"
    using b by (simp add: redis_counters.get [OF assms(1)])
  ultimately show "fst (enforce_user_pin P D u pin w') = Inl pin_locked" by (simp add: pin_locked_run)
qed

theorem pin_guesses_bounded_witness:
  "fst (enforce_user_pin sample_platform (sample_draws 900 3) alice ''1234''
     (snd (run_all (pin_guess sample_platform alice) (replicate 6 (sample_draws 800 2, ''0000'')) sample_world))) =
   Inl pin_locked"
proof -
  let ?gs = "replicate 6 (sample_draws 800 2, ''0000'')"
  obtain as w' where run: "run_all (pin_guess sample_platform alice) ?gs sample_world = (as, w')" by fastforce
  have "length (filter pin_compared (fst (run_all (pin_guess sample_platform alice) ?gs sample_world))) = 5"
    by code_simp
  then have five: "length (filter pin_compared as) = 5" unfolding run by simp
  have wrong: "\<forall>g \<in> set ?gs. \<not> pin_verified sample_platform alice (snd g) (db sample_world)" by code_simp
  have life: "in_lifetime 0 PIN_LOCKOUT_SECONDS (?gs @ [(sample_draws 900 3, ''1234'')])"
    by (simp add: in_lifetime_def instant_def sample_draws_def PIN_LOCKOUT_SECONDS_def numeral_eq_Suc)
  from pin_guesses_bounded [OF sample_counters _ sample_count life wrong run] five show ?thesis by (simp add: run)
qed

section \<open>The password\<close>

lemma login_locked_run:
  assumes "rd_get_i64 (rds P) (clock D 50) (login_key (trim (lg_phone req))) (redis w) = c" "MAX_LOGIN_FAILURES \<le> var_or c 0"
  shows "login_user P D req w = (Inl login_locked, w)"
  using assms
  unfolding login_user_def Let_def bnd_run [of "redis_read _"] redis_run prod.case sum.case
    thn_run [where s = w] guard_run
  by simp

lemma login_right_money:
  "users d' = users d \<Longrightarrow> balances d' = balances d \<Longrightarrow> login_right P req d' = login_right P req d"
  by (simp add: login_right_def user_with_balance_def)

text \<open>C28: A password cannot be guessed by trying: in any 900 seconds, over any sequence of wrong logins to
one phone number made one after the other and any failures of the database in between, while Redis answers, at most five
passwords are compared with the stored hash; and once five have been, every further login to that number, even one with the right
password, is refused until the time is over.\<close>

theorem password_guesses_bounded:
  assumes "redis_counters (rds P) up count" "up (redis w)"
    "\<And>t. T \<le> t \<Longrightarrow> 0 \<le> var_or (count t (redis w) (login_key phone)) 0"
    "in_lifetime T LOCKOUT_DURATION_SECS (gs @ [(D, req)])"
    "\<forall>g \<in> set (gs @ [(D, req)]). trim (lg_phone (snd g)) = phone"
    "\<forall>g \<in> set gs. \<not> login_right P (snd g) (db w)"
    "run_all (login_guess P) gs w = (as, w')"
  shows "length (filter fst as) \<le> 5 \<and>
    (length (filter fst as) = 5 \<longrightarrow> fst (login_user P D req w') = Inl login_locked)"
proof -
  let ?at = "\<lambda>g. clock (fst g) 0"
  let ?I = "\<lambda>v. users (db v) = users (db w) \<and> balances (db v) = balances (db w)"
  note rc = assms(1)
  have life: "sorted (map ?at gs)" "\<forall>g \<in> set gs. instant (fst g) \<and> T \<le> ?at g \<and> ?at g < T + LOCKOUT_DURATION_SECS * 1000000"
    "T \<le> clock D 0" "clock D 0 < T + LOCKOUT_DURATION_SECS * 1000000" "\<forall>g \<in> set gs. ?at g \<le> clock D 0" "instant D"
    using assms(4) by (auto simp: in_lifetime_def sorted_append)
  have step: "?I v' \<and> redis_counters.counts_guess (rds P) count (login_key phone) MAX_LOGIN_FAILURES
      LOCKOUT_DURATION_SECS fst (?at g) a (redis v) (redis v')"
    if "g \<in> set gs" "?I v" "up (redis v)" "login_guess P g v = (a, v')" for g v a v'
  proof -
    have run: "login_guess P (fst g, snd g) v = (a, v')" using that(4) by simp
    then obtain b where "login_user P (fst g) (snd g) v = (b, v')"
      by (auto simp: login_guess_def split: prod.splits)
    from logs_onlyD [OF logs_only_login this] have ev: "only_events (db v) (db v')" .
    have wrong: "\<not> login_right P (snd g) (db v)"
      using assms(6) that(1) login_right_money [of "db v" "db w" P "snd g"] that(2) by simp
    have "instant (fst g)" "trim (lg_phone (snd g)) = phone" using life(2) assms(5) that(1) by auto
    from redis_counters.login_counts_guess [OF rc refl this(1) that(3) wrong run] this(2) that(2)
      only_events_eq(1,2) [OF ev] show ?thesis by simp
  qed
  have times: "\<forall>g \<in> set gs. T \<le> ?at g \<and> T \<le> ?at g \<and> ?at g < T + LOCKOUT_DURATION_SECS * 1000000"
    using life(2) by blast
  have max: "MAX_LOGIN_FAILURES \<le> i64_max" "(0::int) \<le> MAX_LOGIN_FAILURES"
    by (simp_all add: MAX_LOGIN_FAILURES_def i64_max_def)
  have I0: "?I w" by simp
  have b: "?I w' \<and> up (redis w') \<and> 0 + int (length (filter fst as)) \<le> MAX_LOGIN_FAILURES \<and>
    (\<forall>x. T \<le> x \<and> (\<forall>y \<in> set gs. ?at y \<le> x) \<and> x < T + LOCKOUT_DURATION_SECS * 1000000 \<longrightarrow>
       0 + int (length (filter fst as)) \<le> var_or (count x (redis w') (login_key phone)) 0)"
    by (rule redis_counters.guesses_bounded [where I = ?I and at = ?at and n = 0 and guess = "login_guess P",
          OF rc step I0 assms(2) order_refl max(2,1) life(1) times _ assms(7)]) (assumption | rule assms(3))+
  show ?thesis
  proof (intro conjI impI)
    show "length (filter fst as) \<le> 5" using b by (simp add: MAX_LOGIN_FAILURES_def)
    assume "length (filter fst as) = 5"
    with b life(3-5) have "MAX_LOGIN_FAILURES \<le> var_or (count (clock D 0) (redis w') (login_key phone)) 0"
      by (simp add: MAX_LOGIN_FAILURES_def)
    moreover have "rd_get_i64 (rds P) (clock D 50) (login_key (trim (lg_phone req))) (redis w') =
        count (clock D 0) (redis w') (login_key phone)"
      using b assms(5) by (simp add: redis_counters.get [OF rc] instant_clock [OF life(6)])
    ultimately show "fst (login_user P D req w') = Inl login_locked" by (simp add: login_locked_run)
  qed
qed

definition sample_login :: "str \<Rightarrow> login_request" where
  "sample_login pw = \<lparr>lg_phone = ''01700000001'', lg_password = pw\<rparr>"

theorem password_guesses_bounded_witness:
  "fst (login_user sample_platform (sample_draws 900 3) (sample_login ''secret'')
     (snd (run_all (login_guess sample_platform) (replicate 6 (sample_draws 800 2, sample_login ''guess'')) sample_world))) =
   Inl login_locked"
proof -
  let ?gs = "replicate 6 (sample_draws 800 2, sample_login ''guess'')"
  obtain as w' where run: "run_all (login_guess sample_platform) ?gs sample_world = (as, w')" by fastforce
  have "length (filter fst (fst (run_all (login_guess sample_platform) ?gs sample_world))) = 5"
    by code_simp
  then have five: "length (filter fst as) = 5" unfolding run by simp
  have wrong: "\<forall>g \<in> set ?gs. \<not> login_right sample_platform (snd g) (db sample_world)" by code_simp
  have life: "in_lifetime 0 LOCKOUT_DURATION_SECS (?gs @ [(sample_draws 900 3, sample_login ''secret'')])"
    by (simp add: in_lifetime_def instant_def sample_draws_def LOCKOUT_DURATION_SECS_def numeral_eq_Suc)
  have phones: "\<forall>g \<in> set (?gs @ [(sample_draws 900 3, sample_login ''secret'')]). trim (lg_phone (snd g)) = ''01700000001''"
    by code_simp
  from password_guesses_bounded [OF sample_counters _ sample_count life phones wrong run] five
  show ?thesis by (simp add: run)
qed

end
