(* ===== verification/Sessions.thy ===== *)
theory Sessions
  imports Lockout
begin

text \<open>
  Sessions from end to end (\<open>features/auth/service.rs\<close>, \<open>features/auth/middleware.rs\<close>), over the
  interface \<open>redis_sessions\<close>: what login opens, the extractor accepts; what logout and a PIN reset
  close, it refuses.
\<close>

section \<open>Tokens\<close>

lemma hex_digit_not_space: "n < 16 \<Longrightarrow> \<not> is_space (hex_digit n)"
proof -
  assume "n < 16"
  then have "hex_digit n \<in> set ''0123456789abcdef''" unfolding hex_digit_def by (intro nth_mem) simp
  moreover have "list_all (\<lambda>c. \<not> is_space c) ''0123456789abcdef''" by code_simp
  ultimately show ?thesis unfolding list_all_iff by (rule bspec [rotated])
qed

lemma unat_less_256: "unat (b :: 8 word) < 256"
  using unsigned_less [of b] by simp

lemma hex_encode_no_space: "c \<in> set (hex_encode bs) \<Longrightarrow> \<not> is_space c"
proof -
  assume "c \<in> set (hex_encode bs)"
  then obtain b :: "8 word" where "c = hex_digit (unat b div 16) \<or> c = hex_digit (unat b mod 16)"
    by (auto simp: hex_encode_def)
  moreover have "unat b div 16 < 16" "unat b mod 16 < 16"
    using unat_less_256 [of b] by (simp_all add: less_mult_imp_div_less)
  ultimately show ?thesis using hex_digit_not_space by blast
qed

lemma trim_token: "trim (generate_session_token D) = generate_session_token D" "generate_session_token D \<noteq> []"
proof -
  show "trim (generate_session_token D) = generate_session_token D"
    unfolding generate_session_token_def by (rule trim_id) (auto simp: list_all_iff dest: hex_encode_no_space)
  show "generate_session_token D \<noteq> []"
    by (simp add: generate_session_token_def hex_encode_def rng_fill_def upt_rec)
qed

lemma session_key_inj [simp]: "session_key s = session_key t \<longleftrightarrow> s = t"
  by (simp add: session_key_def)

section \<open>The extractor\<close>

lemma from_request_parts_run:
  assumes "request_token header cookies = Some token" "trim token \<noteq> []"
    "rd_get_str (rds P) (clock D 60) (session_key token) (redis w) = Some stored"
  shows "from_request_parts P D header cookies w = (case stored of
     None \<Rightarrow> Inl (Unauthorized ''Session expired or invalid'')
   | Some s \<Rightarrow> (case uuid_from_str P s of None \<Rightarrow> Inl (Unauthorized ''Malformed session state'')
       | Some i \<Rightarrow> Inr \<lparr>au_user_id = i, au_session_token = token\<rparr>), w)"
  using assms
  by (cases stored) (auto simp: from_request_parts_def monad_simps redis_run split: option.splits)

lemma request_token_cookie: "request_token None [(''sid'', t)] = Some t"
  by (simp add: request_token_def or_else_def)

lemma request_token_bearer: "trim t = t \<Longrightarrow> request_token (Some (''Bearer '' @ t)) [] = Some t"
  by (simp add: request_token_def or_else_def strip_prefix_def starts_with_def)

section \<open>Login\<close>

lemma login_user_Ok:
  assumes "login_user P D req w = (Inr (resp, ck), w')"
  shows "\<exists>u b w1. user_with_balance (trim (lg_phone req)) (db w) = Some (u, b) \<and> u_status u = ''active'' \<and>
    verify_password P (lg_password req) (u_password_hash u) = Inr True \<and> redis w1 = redis w \<and>
    open_session P D (trim (lg_phone req)) u b w1 = (Inr (resp, ck), w')"
proof -
  let ?phone = "trim (lg_phone req)"
  note run1 = assms [unfolded login_user_def Let_def bnd_run [of "redis_read _"] redis_run(1) prod.case sum.case
      thn_run [where s = w] guard_run [where s = w]]
  obtain row w1 where f: "pool_fetch (user_with_balance ?phone) w = (Inr row, w1)"
    and k: "(case row of None \<Rightarrow> unknown_phone P D ?phone
       | Some (u, b) \<Rightarrow>
           thn (guard (\<not> u_status u \<noteq> ''active'') (Forbidden ''Account is suspended or locked''))
           (bnd (lift (verify_password P (lg_password req) (u_password_hash u))) (\<lambda>password_ok.
            if \<not> password_ok then wrong_password P D ?phone (u_id u)
            else open_session P D ?phone u b))) w1 = (Inr (resp, ck), w')"
    using run1 by (simp only: sum.case prod.inject sum.distinct simp_thms split: if_splits) (blast elim: bnd_InrE)
  have no1: "unknown_phone P D ?phone w1 \<noteq> (Inr (resp, ck), w')"
    by (auto simp: unknown_phone_def bnd_run throw_run split: prod.splits sum.splits if_splits)
  have no2: "wrong_password P D ?phone i w1 \<noteq> (Inr (resp, ck), w')" for i
    by (auto simp: wrong_password_def bnd_run thn_run throw_run split: prod.splits sum.splits if_splits)
  from k no1 obtain u b where row: "row = Some (u, b)" by (cases row) auto
  from k row no2 have "u_status u = ''active''" "verify_password P (lg_password req) (u_password_hash u) = Inr True"
    "open_session P D ?phone u b w1 = (Inr (resp, ck), w')"
    by (auto simp: thn_Inr_iff guard_Inr_iff bnd_Inr_iff lift_Inr_iff split: if_splits)
  moreover have "user_with_balance ?phone (db w) = Some (u, b)" using pool_fetch_Ok [OF f] row by simp
  moreover have "redis w1 = redis w" using f pool_frame unfolding pool_fetch_def by blast
  ultimately show ?thesis by blast
qed

lemma open_session_Ok:
  assumes "open_session P D phone u b w = (Inr (resp, ck), w')"
  shows "ud_id (lr_user resp) = u_id u" "ck_name ck = ''sid''" "ck_value ck = generate_session_token D"
    "redis w' = rd_sadd (rds P) (clock D 56) (user_sessions_key P (u_id u)) (generate_session_token D)
       (rd_set_ex (rds P) (clock D 55) (session_key (generate_session_token D)) (uuid_to_string P (u_id u))
          (session_ttl_secs (config P)) (rd_del (rds P) (clock D 54) (login_key phone) (redis w)))"
proof -
  let ?r = "rd_sadd (rds P) (clock D 56) (user_sessions_key P (u_id u)) (generate_session_token D)
       (rd_set_ex (rds P) (clock D 55) (session_key (generate_session_token D)) (uuid_to_string P (u_id u))
          (session_ttl_secs (config P)) (rd_del (rds P) (clock D 54) (login_key phone) (redis w)))"
  let ?log = "discard (log_event (clock D 57) ''auth'' (u_id u) ''login_success'' (Some (u_id u))
     ''Successful user login'' (JObj []))"
  obtain y w2 where l: "?log (w\<lparr>redis := ?r\<rparr>) = (y, w2)" by fastforce
  note r2 = discard_log_redis [OF l] and y = discard_log_Ok [OF l]
  have *: "w' = w2 \<and> ud_id (lr_user resp) = u_id u \<and> ck_name ck = ''sid'' \<and> ck_value ck = generate_session_token D"
    using assms l y unfolding open_session_def Let_def
    by (auto simp: thn_run redis_run ret_run)
  then show "ud_id (lr_user resp) = u_id u" "ck_name ck = ''sid''" "ck_value ck = generate_session_token D"
    "redis w' = ?r" using r2 by simp_all
qed

text \<open>C29: A login that succeeds was made with the right password of an active account, and the token it
hands out, presented as the cookie or as a bearer token within its time to live, authenticates exactly the
user who logged in.\<close>

theorem login_opens_session:
  assumes "redis_sessions (rds P) up sess members" "up (redis w)"
    "login_user P D req w = (Inr (resp, ck), w')"
    "uuid_from_str P (uuid_to_string P (ud_id (lr_user resp))) = Some (ud_id (lr_user resp))"
    "clock D 55 \<le> clock D' 60" "clock D' 60 < clock D 55 + session_ttl_secs (config P) * 1000000"
  shows "login_right P req (db w) \<and>
    from_request_parts P D' None [(ck_name ck, ck_value ck)] w' =
      (Inr \<lparr>au_user_id = ud_id (lr_user resp), au_session_token = ck_value ck\<rparr>, w') \<and>
    from_request_parts P D' (Some (''Bearer '' @ ck_value ck)) [] w' =
      (Inr \<lparr>au_user_id = ud_id (lr_user resp), au_session_token = ck_value ck\<rparr>, w')"
proof -
  note L = assms(1)
  from login_user_Ok [OF assms(3)] obtain u b w1 where
    u: "user_with_balance (trim (lg_phone req)) (db w) = Some (u, b)" "u_status u = ''active''"
      "verify_password P (lg_password req) (u_password_hash u) = Inr True" "redis w1 = redis w"
    and o: "open_session P D (trim (lg_phone req)) u b w1 = (Inr (resp, ck), w')" by blast
  note os = open_session_Ok [OF o]
  let ?r1 = "rd_del (rds P) (clock D 54) (login_key (trim (lg_phone req))) (redis w)"
  have up1: "up ?r1" by (rule redis_sessions.del_alive [OF L assms(2)])
  let ?r2 = "rd_set_ex (rds P) (clock D 55) (session_key (generate_session_token D)) (uuid_to_string P (u_id u))
          (session_ttl_secs (config P)) ?r1"
  have up2: "up ?r2" by (rule redis_sessions.set_ex_up [OF L up1])
  have up': "up (redis w')" unfolding os(4) u(4) by (rule redis_sessions.sadd_up [OF L up2])
  have "sess (clock D' 60) (redis w') (session_key (ck_value ck)) = Some (uuid_to_string P (u_id u))"
    unfolding os(3,4) u(4) redis_sessions.sadd_sess [OF L up2] redis_sessions.set_ex [OF L up1 assms(5)]
    using assms(6) by simp
  then have get: "rd_get_str (rds P) (clock D' 60) (session_key (ck_value ck)) (redis w') =
      Some (Some (uuid_to_string P (u_id u)))"
    using redis_sessions.get_str [OF L up'] by simp
  have "trim (ck_value ck) = ck_value ck" "trim (ck_value ck) \<noteq> []" using trim_token os(3) by simp_all
  with from_request_parts_run [OF request_token_cookie _ get] from_request_parts_run [OF request_token_bearer _ get]
    assms(4) os(1,2) u(1-3) show ?thesis by (simp add: login_right_def)
qed

section \<open>Logout\<close>

lemma logout_redis:
  assumes "logout_user P D i cookies w = (r, w')" "map_of cookies ''sid'' = Some token"
  shows "redis w' = rd_srem (rds P) (clock D 62) (user_sessions_key P i) token
     (rd_del (rds P) (clock D 61) (session_key token) (redis w))"
proof -
  let ?r = "rd_srem (rds P) (clock D 62) (user_sessions_key P i) token
     (rd_del (rds P) (clock D 61) (session_key token) (redis w))"
  obtain y w2 where l: "discard (log_event (clock D 63) ''auth'' i ''logout'' (Some i) ''User logged out''
            (JObj [])) (w\<lparr>redis := ?r\<rparr>) = (y, w2)" by fastforce
  have "w' = w2" using assms l discard_log_Ok [OF l] unfolding logout_user_def
    by (auto simp: bnd_run thn_run redis_run ret_run)
  with discard_log_redis [OF l] show ?thesis by simp
qed

text \<open>C30: After a logout the token of the session cookie authenticates nobody, in a cookie or as a bearer
token, at any later time.\<close>

theorem logout_closes_session:
  assumes "redis_sessions (rds P) up sess members" "up (redis w)"
    "logout_user P D i cookies w = (r, w')" "map_of cookies ''sid'' = Some token"
    "request_token header cookies' = Some token" "trim token \<noteq> []" "clock D 61 \<le> clock D' 60"
  shows "from_request_parts P D' header cookies' w' = (Inl (Unauthorized ''Session expired or invalid''), w')"
proof -
  note L = assms(1) and r = logout_redis [OF assms(3,4)]
  let ?r1 = "rd_del (rds P) (clock D 61) (session_key token) (redis w)"
  have up1: "up ?r1" by (rule redis_sessions.del_alive [OF L assms(2)])
  have up': "up (redis w')" unfolding r by (rule redis_sessions.srem_up [OF L up1])
  have "sess (clock D' 60) (redis w') (session_key token) = None"
    unfolding r redis_sessions.srem_sess [OF L up1] redis_sessions.del_sess [OF L assms(2,7)] by simp
  then have "rd_get_str (rds P) (clock D' 60) (session_key token) (redis w') = Some None"
    using redis_sessions.get_str [OF L up'] by simp
  from from_request_parts_run [OF assms(5,6) this] show ?thesis by simp
qed

section \<open>PIN reset\<close>

lemma drop_sessions_run:
  assumes L: "redis_sessions (rds P) up sess members" and "up (redis w)"
  shows "\<exists>w'. drop_sessions P D sk cur sids w = (Inr (), w') \<and> up (redis w') \<and>
    (\<forall>t s. clock D 67 \<le> t \<longrightarrow> sess t (redis w') (session_key s) =
       (if s \<in> set sids \<and> Some s \<noteq> cur then None else sess t (redis w) (session_key s)))"
  using assms(2)
proof (induction sids arbitrary: w)
  case Nil
  then show ?case by (simp add: ret_run)
next
  case (Cons x sids)
  show ?case
  proof (cases "Some x = cur")
    case True
    from Cons.IH [OF Cons.prems] True show ?thesis by auto
  next
    case False
    let ?r1 = "rd_del (rds P) (clock D 67) (session_key x) (redis w)"
    let ?r2 = "rd_srem (rds P) (clock D 67) sk x ?r1"
    have up1: "up ?r1" by (rule redis_sessions.del_alive [OF L Cons.prems])
    have up2: "up (redis (w\<lparr>redis := ?r2\<rparr>))" using redis_sessions.srem_up [OF L up1] by simp
    from Cons.IH [OF up2] obtain w' where
      w': "drop_sessions P D sk cur sids (w\<lparr>redis := ?r2\<rparr>) = (Inr (), w')" "up (redis w')"
      and s: "\<And>t s. clock D 67 \<le> t \<Longrightarrow> sess t (redis w') (session_key s) =
         (if s \<in> set sids \<and> Some s \<noteq> cur then None else sess t ?r2 (session_key s))" by auto
    have "drop_sessions P D sk cur (x # sids) w = (Inr (), w')"
      using False w'(1) by (simp add: thn_run redis_run)
    moreover have "sess t ?r2 (session_key s) = (if s = x then None else sess t (redis w) (session_key s))"
      if "clock D 67 \<le> t" for t s
      using redis_sessions.srem_sess [OF L up1] redis_sessions.del_sess [OF L Cons.prems that] by simp
    ultimately show ?thesis using w'(2) s False by auto
  qed
qed

lemma discard_log_events: "discard (log_event now et i ev ac re m) w = (y, w') \<Longrightarrow> only_events (db w) (db w')"
  using log_event_frame [of now et i ev ac re m w] by (cases "log_event now et i ev ac re m w") (simp add: discard_run)

text \<open>The shape of \<open>reset_pin\<close>: a look-up, two checks, an update, a read of Redis and what follows.\<close>

lemma fetch_check_update:
  assumes "bnd (pool_fetch q) (\<lambda>row. bnd (lift (ok_or row e0)) (\<lambda>p. bnd (lift (check p)) (\<lambda>ok.
      thn (guard ok e1) (bnd (lift hashed) (\<lambda>h. thn (pool_execute (update h))
        (bnd (redis_read g) (\<lambda>xs. thn (each xs) (thn (discard log) (thn mail (ret t)))))))))) w = (Inr now, w')"
  shows "\<exists>p h w1 w2 x w3 y w4 v. pool_fetch q w = (Inr (Some p), w1) \<and> check p = Inr True \<and> hashed = Inr h \<and>
    pool_execute (update h) w1 = (Inr (), w2) \<and> each (g (redis w2)) w2 = (Inr x, w3) \<and>
    discard log w3 = (Inr y, w4) \<and> mail w4 = (Inr v, w') \<and> now = t"
proof -
  from assms obtain row w1 where "pool_fetch q w = (Inr row, w1)"
    and k1: "bnd (lift (ok_or row e0)) (\<lambda>p. bnd (lift (check p)) (\<lambda>ok.
      thn (guard ok e1) (bnd (lift hashed) (\<lambda>h. thn (pool_execute (update h))
        (bnd (redis_read g) (\<lambda>xs. thn (each xs) (thn (discard log) (thn mail (ret t))))))))) w1 = (Inr now, w')"
    by (rule bnd_InrE)
  moreover from k1 obtain p h where "row = Some p" "check p = Inr True" "hashed = Inr h"
    and k2: "thn (pool_execute (update h)) (bnd (redis_read g) (\<lambda>xs. thn (each xs)
        (thn (discard log) (thn mail (ret t))))) w1 = (Inr now, w')"
    unfolding bnd_Inr_iff [of "lift _"] thn_Inr_iff [of "guard _ _"] lift_Inr_iff guard_Inr_iff ok_or_eq_Inr by auto
  moreover from k2 obtain w2 where "pool_execute (update h) w1 = (Inr (), w2)"
    and "thn (each (g (redis w2))) (thn (discard log) (thn mail (ret t))) w2 = (Inr now, w')"
    unfolding thn_Inr_iff [of "pool_execute _"] by (auto simp: bnd_run redis_run)
  ultimately show ?thesis unfolding thn_Inr_iff ret_Inr_iff by blast
qed

lemma reset_pin_Ok:
  assumes "reset_pin P D i req cookies w = (Inr now, w')"
  shows "\<exists>u w2 w3 h. find_user i (db w) = Some u \<and>
    verify_password P (pr_password req) (u_password_hash u) = Inr True \<and>
    hash_pin P (salt D 2) (pr_new_pin req) = Inr h \<and>
    update_user_pin h (clock D 64) i (db w) = Inr (db w2) \<and> redis w2 = redis w \<and>
    drop_sessions P D (user_sessions_key P i) (map_of cookies ''sid'')
      (var_or (rd_smembers (rds P) (clock D 66) (user_sessions_key P i) (redis w)) []) w2 = (Inr (), w3) \<and>
    only_events (db w3) (db w') \<and> redis w' = redis w3"
proof -
  from fetch_check_update [OF assms [unfolded reset_pin_def]] obtain ph h w1 w2 x w3 y w4 v
    where f: "pool_fetch (\<lambda>d. map_option u_password_hash (find_user i d)) w = (Inr (Some ph), w1)"
    and ph: "verify_password P (pr_password req) ph = Inr True"
    and h: "hash_pin P (salt D 2) (pr_new_pin req) = Inr h"
    and e: "pool_execute (update_user_pin h (clock D 64) i) w1 = (Inr (), w2)"
    and d: "drop_sessions P D (user_sessions_key P i) (map_of cookies ''sid'')
      (var_or (rd_smembers (rds P) (clock D 66) (user_sessions_key P i) (redis w2)) []) w2 = (Inr x, w3)"
    and l: "discard (log_event (clock D 68) ''auth'' i ''pin_reset'' (Some i)
              ''Transaction PIN reset via password; secondary sessions invalidated'' (JObj [])) w3 = (Inr y, w4)"
    and m: "dispatch_email P (uuid_to_string P i @ ''@pstupay.local'')
              ''Security Alert: Transaction PIN Reset''
              [Text (''Your transaction PIN was recently reset using your account password. '' @
                 ''All secondary active sessions have been invalidated.'' @ [CHR 10] @
                 ''If you did not perform this action, please contact support immediately.'')] w4 = (Inr v, w')"
    by blast
  from pool_fetch_Ok [OF f] obtain u where u: "find_user i (db w) = Some u" "ph = u_password_hash u"
    and d1: "db w1 = db w" by auto
  have "redis w1 = redis w" using f pool_frame unfolding pool_fetch_def by blast
  moreover have "redis w2 = redis w1" using e pool_frame unfolding pool_execute_def by blast
  moreover have "update_user_pin h (clock D 64) i (db w) = Inr (db w2)"
    using pool_Ok [OF e [unfolded pool_execute_def]] d1 by (simp add: no_rows_def split: sum.splits)
  moreover have "only_events (db w3) (db w4)"
    by (rule discard_log_events [OF l])
  moreover have "db w' = db w4" "redis w' = redis w4" using m by (auto simp: dispatch_email_def)
  ultimately show ?thesis using u ph(1) h d discard_log_redis [OF l] unfolding unit_eq [of x] by metis
qed

text \<open>C31: A PIN reset that succeeds was made with the account's password, stores the hash of the new PIN,
and logs out every session that was registered for the user except the one of the session cookie; every other
token is answered as before.\<close>

theorem reset_pin_closes_sessions:
  assumes "redis_sessions (rds P) up sess members" "up (redis w)"
    "reset_pin P D i req cookies w = (Inr now, w')"
    "request_token header cookies' = Some token" "trim token \<noteq> []" "clock D 67 \<le> clock D' 60"
  shows "(\<exists>u u'. find_user i (db w) = Some u \<and>
      verify_password P (pr_password req) (u_password_hash u) = Inr True \<and>
      find_user i (db w') = Some u' \<and> hash_pin P (salt D 2) (pr_new_pin req) = Inr (u_pin_hash u')) \<and>
    from_request_parts P D' header cookies' w' =
      (if token \<in> members (redis w) (user_sessions_key P i) \<and> Some token \<noteq> map_of cookies ''sid''
       then Inl (Unauthorized ''Session expired or invalid'')
       else fst (from_request_parts P D' header cookies' w), w')"
proof -
  note L = assms(1)
  let ?m = "var_or (rd_smembers (rds P) (clock D 66) (user_sessions_key P i) (redis w)) []"
  from reset_pin_Ok [OF assms(3)] obtain u w2 w3 h where u: "find_user i (db w) = Some u"
      "verify_password P (pr_password req) (u_password_hash u) = Inr True"
      "hash_pin P (salt D 2) (pr_new_pin req) = Inr h"
      "update_user_pin h (clock D 64) i (db w) = Inr (db w2)"
    and r2: "redis w2 = redis w"
    and d: "drop_sessions P D (user_sessions_key P i) (map_of cookies ''sid'') ?m w2 = (Inr (), w3)"
    and e: "only_events (db w3) (db w')" and r3: "redis w' = redis w3" by blast
  have "set ?m = members (redis w) (user_sessions_key P i)"
    using redis_sessions.smembers [OF L assms(2), of "clock D 66" "user_sessions_key P i"] by (auto simp: var_or_def)
  with drop_sessions_run [OF L, where w = w2 and D = D and sk = "user_sessions_key P i"
      and cur = "map_of cookies ''sid''" and sids = ?m] d r2 r3 assms(2)
  have up': "up (redis w')" and
    s: "sess (clock D' 60) (redis w') (session_key token) =
      (if token \<in> members (redis w) (user_sessions_key P i) \<and> Some token \<noteq> map_of cookies ''sid''
       then None else sess (clock D' 60) (redis w) (session_key token))"
    using assms(6) by auto
  have "db w3 = db w2"
    using keepsD [OF keeps_drop_sessions [where I = "\<lambda>x. x = db w2"], where s = w2, OF refl] d by (metis snd_conv)
  then have "users (db w') = users (db w2)" using only_events_eq(1) [OF e] by simp
  moreover have "find_user i (db w2) = Some (u\<lparr>u_pin_hash := h, u_pin_updated_at := clock D 64\<rparr>)"
    using u(1,4) find_Some_in [OF u(1) [unfolded find_user_def]]
    by (auto simp: update_user_pin_def find_user_def find_update_where dest!: sym [of _ "db w2"])
  ultimately have "find_user i (db w') = Some (u\<lparr>u_pin_hash := h, u_pin_updated_at := clock D 64\<rparr>)"
    by (simp add: find_user_def)
  with u from_request_parts_run [OF assms(4,5) redis_sessions.get_str [OF L up']]
    from_request_parts_run [OF assms(4,5) redis_sessions.get_str [OF L assms(2)]] s
  show ?thesis by simp
qed

section \<open>A session\<close>

text \<open>Alice logs in; her session survives until she logs out, or resets her PIN from elsewhere.\<close>

definition session_platform :: "kv platform" where
  "session_platform = sample_platform\<lparr>uuid_from_str := (\<lambda>s. if s = ''u1'' then Some alice else None)\<rparr>"

definition logged_world :: "kv world" where
  "logged_world = snd (login_user session_platform (sample_draws 900 3) (sample_login ''secret'') sample_world)"

definition alice_token :: str where
  "alice_token = generate_session_token (sample_draws 900 3)"

lemma session_store: "redis_sessions (rds session_platform) (\<lambda>_. True) kv_sess (\<lambda>r k. set (kv_members r k))"
  using kvs.redis_sessions_axioms by (simp add: session_platform_def sample_platform_def)

lemma logged_answer:
  "map_sum (\<lambda>_. ()) (\<lambda>(r, c). (ud_id (lr_user r), ck_name c, ck_value c))
     (fst (login_user session_platform (sample_draws 900 3) (sample_login ''secret'') sample_world)) =
   Inr (alice, ''sid'', alice_token)"
  by code_simp

theorem login_opens_session_witness:
  "fst (from_request_parts session_platform (sample_draws 901 4) None [(''sid'', alice_token)] logged_world) =
     Inr \<lparr>au_user_id = alice, au_session_token = alice_token\<rparr>"
proof -
  obtain a w' where run: "login_user session_platform (sample_draws 900 3) (sample_login ''secret'') sample_world = (a, w')"
    by fastforce
  from logged_answer obtain r c where a: "a = Inr (r, c)" "ud_id (lr_user r) = alice" "ck_name c = ''sid''"
    "ck_value c = alice_token" unfolding run by (cases a) auto
  have u: "uuid_from_str session_platform (uuid_to_string session_platform alice) = Some alice" by code_simp
  have t: "clock (sample_draws 901 4) 60 < clock (sample_draws 900 3) 55 + session_ttl_secs (config session_platform) * 1000000"
    "clock (sample_draws 900 3) 55 \<le> clock (sample_draws 901 4) 60" by code_simp+
  from login_opens_session [OF session_store _ run [unfolded a(1)] _ t(2,1)] u show ?thesis
    by (simp add: a logged_world_def run)
qed

lemma alice_token_facts:
  "request_token (Some (''Bearer '' @ alice_token)) [] = Some alice_token" "trim alice_token \<noteq> []"
  "alice_token \<in> set (kv_members (redis logged_world) (user_sessions_key session_platform alice))"
  by code_simp+

theorem logout_closes_session_witness:
  "fst (from_request_parts session_platform (sample_draws 990 4) (Some (''Bearer '' @ alice_token)) []
     (snd (logout_user session_platform (sample_draws 950 5) alice [(''sid'', alice_token)] logged_world))) =
   Inl (Unauthorized ''Session expired or invalid'')"
proof -
  obtain a w' where run: "logout_user session_platform (sample_draws 950 5) alice [(''sid'', alice_token)] logged_world = (a, w')"
    by fastforce
  have "clock (sample_draws 950 5) 61 \<le> clock (sample_draws 990 4) 60" by (simp add: sample_draws_def)
  from logout_closes_session [OF session_store _ run _ alice_token_facts(1,2) this]
  show ?thesis by (simp add: run)
qed

definition sample_reset :: pin_reset_req where
  "sample_reset = \<lparr>pr_password = ''secret'', pr_new_pin = ''9876''\<rparr>"

theorem reset_pin_closes_sessions_witness:
  "fst (from_request_parts session_platform (sample_draws 990 4) (Some (''Bearer '' @ alice_token)) []
     (snd (reset_pin session_platform (sample_draws 950 5) alice sample_reset [] logged_world))) =
   Inl (Unauthorized ''Session expired or invalid'')"
proof -
  obtain a w' where run: "reset_pin session_platform (sample_draws 950 5) alice sample_reset [] logged_world = (a, w')"
    by fastforce
  have "map_sum (\<lambda>_. ()) (\<lambda>_. ()) (fst (reset_pin session_platform (sample_draws 950 5) alice sample_reset [] logged_world)) = Inr ()"
    by code_simp
  then obtain now where "a = Inr now" unfolding run by (cases a) auto
  moreover have "clock (sample_draws 950 5) 67 \<le> clock (sample_draws 990 4) 60" by (simp add: sample_draws_def)
  ultimately show ?thesis
    using reset_pin_closes_sessions [OF session_store _ _ alice_token_facts(1,2)] run alice_token_facts(3) by simp
qed

end
