(* ===== verification/Limits.thy ===== *)
theory Limits
  imports Sessions
begin

text \<open>
  The limits that Redis keeps: the sliding window of the rate limiter (\<open>core/ratelimit.rs\<close>) over the
  interface \<open>redis_windows\<close>, and the daily outflow of the transfers (\<open>features/transfers/service.rs\<close>)
  over the interface \<open>redis_counters\<close>.
\<close>

section \<open>The sliding window\<close>

context redis_windows
begin

text \<open>
  \<open>tracked\<close>: from time \<open>t0\<close> on, the sorted set still holds every admitted request that is younger than
  the window.
\<close>

definition tracked :: "'q platform \<Rightarrow> str \<Rightarrow> int \<Rightarrow> int \<Rightarrow> draws list \<Rightarrow> 'r \<Rightarrow> bool" where
  "tracked P k s t0 adm r \<longleftrightarrow> up r \<and>
     (\<forall>t D. t0 \<le> t \<longrightarrow> D \<in> set adm \<longrightarrow> t div 1000 - s * 1000 < now_ms D \<longrightarrow>
        (rate_member P D, now_ms D) \<in> entries t r k)"

lemma tracked_trim:
  assumes "tracked P k s t0 adm r" "t0 \<le> t" "t0' = t"
  shows "tracked P k s t0' adm (snd (rd_trim_window R t k 0 (t div 1000 - s * 1000) r))"
  unfolding tracked_def
proof (intro conjI allI impI)
  have u: "up r" using assms by (simp add: tracked_def)
  then show "up (snd (rd_trim_window R t k 0 (t div 1000 - s * 1000) r))" by (rule trim_up)
  fix t' D assume D: "t0' \<le> t'" "D \<in> set adm" "t' div 1000 - s * 1000 < now_ms D"
  with assms have "(rate_member P D, now_ms D) \<in> entries t' r k" by (simp add: tracked_def)
  moreover have "t div 1000 \<le> t' div 1000" using D(1) assms(3) by (simp add: zdiv_mono1)
  ultimately show "(rate_member P D, now_ms D) \<in> entries t' (snd (rd_trim_window R t k 0 (t div 1000 - s * 1000) r)) k"
    using D assms(3) trim_entries [OF u, of t t' k 0 "t div 1000 - s * 1000"] by simp
qed

lemma tracked_count:
  assumes "tracked P k s t0 adm r" "t0 \<le> t" "distinct (map (rate_member P) adm)"
  shows "\<exists>c. fst (rd_trim_window R t k 0 (t div 1000 - s * 1000) r) = Some c \<and>
    int (length (recent s (t div 1000) adm)) \<le> c"
proof -
  let ?ws = "t div 1000 - s * 1000"
  let ?S = "{p \<in> entries t r k. \<not> (0 \<le> snd p \<and> snd p \<le> ?ws)}"
  let ?rec = "map (\<lambda>D. (rate_member P D, now_ms D)) (recent s (t div 1000) adm)"
  have u: "up r" using assms by (simp add: tracked_def)
  have "distinct (map (rate_member P) (recent s (t div 1000) adm))"
    unfolding recent_def using assms(3) by (rule distinct_map_filter)
  then have "distinct ?rec" by (auto simp: distinct_map inj_on_def)
  moreover have "set ?rec \<subseteq> ?S" using assms by (auto simp: tracked_def recent_def)
  ultimately have "length (recent s (t div 1000) adm) \<le> card ?S"
    using card_mono [of ?S "set ?rec"] entries_finite [OF u] distinct_card [of ?rec] by simp
  then show ?thesis using trim_count [OF u] by simp
qed

lemma tracked_add:
  assumes "tracked P k s t adm r" "instant D" "clock D 0 = t" "\<forall>A \<in> set adm. now_ms A \<le> t div 1000"
    "rate_member P D \<notin> set (map (rate_member P) adm)"
  shows "tracked P k s t (adm @ [D]) (rd_add_member R t k (rate_member P D) (now_ms D) (s + 5) r)"
  unfolding tracked_def
proof (intro conjI allI impI)
  have u: "up r" using assms by (simp add: tracked_def)
  then show "up (rd_add_member R t k (rate_member P D) (now_ms D) (s + 5) r)" by (rule add_up)
  have now: "now_ms D = t div 1000" using assms(2,3) by (simp add: now_ms_def instant_def)
  fix t' A assume A: "t \<le> t'" "A \<in> set (adm @ [D])" "t' div 1000 - s * 1000 < now_ms A"
  have old: "now_ms A \<le> t div 1000" using A(2) assms(4) now by auto
  with A(3) have alive: "t' < t + (s + 5) * 1000000" by simp
  have "(rate_member P A, now_ms A) \<in> entries t r k" "rate_member P A \<noteq> rate_member P D" if "A \<in> set adm"
  proof -
    have "t div 1000 - s * 1000 < now_ms A" using A(3) zdiv_mono1 [OF A(1), of 1000] by simp
    with assms(1) that show "(rate_member P A, now_ms A) \<in> entries t r k" by (simp add: tracked_def)
    from imageI [OF that, of "rate_member P"] assms(5) show "rate_member P A \<noteq> rate_member P D" by auto
  qed
  with A(2) alive show "(rate_member P A, now_ms A) \<in> entries t' (rd_add_member R t k (rate_member P D) (now_ms D) (s + 5) r) k"
    using add_entries [OF u A(1), of k "rate_member P D" "now_ms D" "s + 5"] by auto
qed


lemma recent_snoc_le:
  assumes "\<forall>A \<in> set adm. now_ms A \<le> now_ms D" "\<forall>T. int (length (recent s T adm)) \<le> m"
    "int (length (recent s (now_ms D) adm)) < m"
  shows "int (length (recent s T (adm @ [D]))) \<le> m"
proof (cases "T - s * 1000 < now_ms D \<and> now_ms D \<le> T")
  case False
  then have "recent s T (adm @ [D]) = recent s T adm" by (auto simp: recent_def)
  then show ?thesis using assms(2) by simp
next
  case True
  have eq: "recent s T adm = filter (\<lambda>A. T - s * 1000 < now_ms A \<and> now_ms A \<le> T) (recent s (now_ms D) adm)"
    unfolding recent_def filter_filter by (rule filter_cong [OF refl]) (use assms(1) True in auto)
  have "length (recent s T adm) \<le> length (recent s (now_ms D) adm)" unfolding eq by (rule length_filter_le)
  then show ?thesis using True assms(3) by (simp add: recent_def)
qed

lemma rate_run_bounded:
  assumes "rds P = R" "0 \<le> m"
    "\<forall>D \<in> set Ds. instant D" "sorted (map (\<lambda>D. clock D 0) Ds)" "\<forall>D \<in> set Ds. t0 \<le> clock D 0"
    "distinct (map (rate_member P) (adm @ Ds))"
    "tracked P (rate_key sc i) s t0 adm (redis w)" "\<forall>A \<in> set adm. now_ms A \<le> t0 div 1000"
    "\<forall>T. int (length (recent s T adm)) \<le> m"
  shows "int (length (recent s T (adm @ admitted (rate_run P sc i m s Ds w)))) \<le> m"
  using assms(3-)
proof (induction Ds arbitrary: t0 adm w)
  case Nil
  then show ?case by (simp add: admitted_def)
next
  case (Cons D Ds)
  let ?t = "clock D 0" and ?k = "rate_key sc i"
  have inst: "clock D 20 = ?t" "clock D 21 = ?t" "clock D 22 = ?t" using Cons.prems(1) by (simp_all add: instant_def)
  have t0: "t0 \<le> ?t" using Cons.prems(3) by simp
  have now: "now_ms D = ?t div 1000" by (simp add: now_ms_def inst)
  let ?trim = "rd_trim_window R ?t ?k 0 (?t div 1000 - s * 1000) (redis w)"
  from tracked_count [OF Cons.prems(5) t0] Cons.prems(4)
  obtain c where c: "fst ?trim = Some c" "int (length (recent s (?t div 1000) adm)) \<le> c" by auto
  have track: "tracked P ?k s ?t adm (snd ?trim)" by (rule tracked_trim [OF Cons.prems(5) t0 refl])
  have early: "\<forall>A \<in> set adm. now_ms A \<le> ?t div 1000"
    using Cons.prems(6) zdiv_mono1 [OF t0, of 1000] by fastforce
  have rest: "\<forall>D' \<in> set Ds. instant D'" "sorted (map (\<lambda>D. clock D 0) Ds)" "\<forall>D' \<in> set Ds. ?t \<le> clock D' 0"
    using Cons.prems(1,2) by auto
  show ?case
  proof (cases "m \<le> c")
    case True
    have run: "check_sliding_window_rate_limit P D sc i m s w = (Inr False, w\<lparr>redis := snd ?trim\<rparr>)"
      using c(1) True
      by (simp add: check_sliding_window_rate_limit_def Let_def bnd_run redis_run ret_run assms(1) inst)
    have eq: "admitted (rate_run P sc i m s (D # Ds) w) = admitted (rate_run P sc i m s Ds (w\<lparr>redis := snd ?trim\<rparr>))"
      unfolding rate_run.simps run by (simp add: admitted_def)
    have "distinct (map (rate_member P) (adm @ Ds))" using Cons.prems(4) by simp
    moreover have "tracked P ?k s ?t adm (redis (w\<lparr>redis := snd ?trim\<rparr>))" using track by simp
    ultimately show ?thesis unfolding eq by (rule Cons.IH [OF rest _ _ early Cons.prems(7)])
  next
    case False
    let ?r = "rd_add_member R ?t ?k (rate_member P D) (now_ms D) (s + 5) (snd ?trim)"
    have run: "check_sliding_window_rate_limit P D sc i m s w = (Inr True, w\<lparr>redis := ?r\<rparr>)"
      using c(1) False
      by (simp add: check_sliding_window_rate_limit_def Let_def bnd_run thn_run redis_run ret_run assms(1) inst
          rate_member_def now_ms_def)
    have eq: "adm @ admitted (rate_run P sc i m s (D # Ds) w) =
        (adm @ [D]) @ admitted (rate_run P sc i m s Ds (w\<lparr>redis := ?r\<rparr>))"
      unfolding rate_run.simps run by (simp add: admitted_def)
    have "distinct (map (rate_member P) ((adm @ [D]) @ Ds))" using Cons.prems(4) by simp
    moreover have "tracked P ?k s ?t (adm @ [D]) (redis (w\<lparr>redis := ?r\<rparr>))"
      using tracked_add [OF track _ refl early] Cons.prems(1,4) by auto
    moreover have "\<forall>A \<in> set (adm @ [D]). now_ms A \<le> ?t div 1000" using early now by simp
    moreover have "\<forall>T. int (length (recent s T (adm @ [D]))) \<le> m"
      using recent_snoc_le [of adm D s m] early Cons.prems(7) now c(2) False by simp
    ultimately show ?thesis unfolding eq by (rule Cons.IH [OF rest])
  qed
qed

end

text \<open>C26: The limiter admits at most the given number of requests of a key in every window of
the given length, wherever the window lies, when the requests are counted one after the other.\<close>

theorem rate_limit_bounds_every_window:
  assumes "redis_windows (rds P) up entries" "up (redis w)" "0 \<le> m"
    "\<forall>D \<in> set Ds. instant D" "sorted (map (\<lambda>D. clock D 0) Ds)" "distinct (map (rate_member P) Ds)"
  shows "int (length (recent s T (admitted (rate_run P scope ident m s Ds w)))) \<le> m"
proof -
  have "\<forall>D \<in> set Ds. 0 \<le> clock D 0" using assms(4) unfolding instant_def by blast
  moreover have "redis_windows.tracked up entries P (rate_key scope ident) s 0 [] (redis w)"
    using assms(2) by (simp add: redis_windows.tracked_def [OF assms(1)])
  ultimately show ?thesis
    using redis_windows.rate_run_bounded [OF assms(1) refl assms(3-5), where adm = "[]"] assms(3,6)
    by (simp add: recent_def)
qed

text \<open>Three requests of one user within a window of one second, at most two of them admitted.\<close>

definition burst :: "draws list" where
  "burst = [sample_draws 1000 1, sample_draws 2000 2, sample_draws 500000 3]"

theorem rate_limit_bounds_every_window_witness:
  "length (recent 1 600 (admitted (rate_run sample_platform ''auth'' ''ip'' 2 1 burst sample_world))) = 2"
proof -
  have d: "distinct (map (rate_member sample_platform) burst)" by code_simp
  have "2 \<le> length (recent 1 600 (admitted (rate_run sample_platform ''auth'' ''ip'' 2 1 burst sample_world)))"
    by code_simp
  moreover have w: "redis_windows (rds sample_platform) (\<lambda>_. True) kv_entries"
    using kvw.redis_windows_axioms by (simp add: sample_platform_def)
  ultimately show ?thesis
    using rate_limit_bounds_every_window [OF w _ _ _ _ d, where w = sample_world and m = 2 and s = 1 and T = 600
      and scope = "''auth''" and ident = "''ip''"]
    by (simp add: burst_def instant_def sample_draws_def)
qed

section \<open>The daily outflow\<close>

definition outflow :: "uuid \<Rightarrow> database \<Rightarrow> int" where
  "outflow s d = sum_list (map t_amount_paisa
     (filter (\<lambda>t. t_sender_id t = s \<and> t_status t = ''completed'') (transfers d)))"

lemma outflow_effects:
  "transfers d' = transfers d \<Longrightarrow> outflow s d' = outflow s d"
  "refuses t d d' \<Longrightarrow> outflow s d' = outflow s d"
  by (auto simp: outflow_def refuses_def)

lemma outflow_moves:
  assumes "moves t d d'" "t_status t = ''completed''"
  shows "outflow s d' = outflow s d + (if t_sender_id t = s then t_amount_paisa t else 0)"
proof -
  from assms(1) have "transfers d' = transfers d @ [t]"
    by (auto simp: moves_def same_money_def post_movement_def Let_def)
  with assms(2) show ?thesis by (simp add: outflow_def)
qed

lemma keeps_conj: "keeps I m \<Longrightarrow> keeps J m \<Longrightarrow> keeps (\<lambda>s. I s \<and> J s) m"
  by (simp add: keeps_def)

lemma keeps_fetch: "keeps (\<lambda>w. I (db w) (redis w)) (pool_fetch q)"
proof (rule keepsI)
  fix w :: "'a world" assume "I (db w) (redis w)"
  moreover obtain r w' where f: "pool_fetch q w = (r, w')" by fastforce
  ultimately show "I (db (snd (pool_fetch q w))) (redis (snd (pool_fetch q w)))"
    using pool_frame [OF f [unfolded pool_fetch_def]] pool_fetch_db' [OF f] by simp
qed

lemma keeps_redis:
  fixes J :: "'r \<Rightarrow> bool"
  shows
  "keeps (\<lambda>w. J (redis w)) (pool_fetch q)"
  "keeps (\<lambda>w. J (redis w)) (log_event now et i ev ac re m)"
  "keeps (\<lambda>w. J (redis w)) (redis_read f)"
  "(\<And>r. J r \<Longrightarrow> J (u r)) \<Longrightarrow> keeps (\<lambda>w. J (redis w)) (redis_write u)"
  "(\<And>r. J r \<Longrightarrow> J (snd (c r))) \<Longrightarrow> keeps (\<lambda>w. J (redis w)) (redis_call c)"
proof -
  show "keeps (\<lambda>w. J (redis w)) (pool_fetch q)" by (rule keeps_fetch)
  have "redis (snd (log_event now et i ev ac re m w)) = redis w" for w :: "'r world"
    using log_event_frame [of now et i ev ac re m w] by (metis prod.collapse)
  then show "keeps (\<lambda>w. J (redis w)) (log_event now et i ev ac re m)" by (simp add: keeps_def)
qed (simp_all add: keeps_def redis_run)

text \<open>A transfer request is a prefix that moves nothing, and then a fresh transfer.\<close>

lemma process_transfer_split:
  assumes run: "process_transfer P D s req w = (r, w')" and I: "I (db w) (redis w)"
    and pin: "keeps (\<lambda>w. I (db w) (redis w)) (enforce_user_pin P D s (ct_pin req))"
  obtains (stopped) "I (db w') (redis w')"
  | (fresh) a rc w1 where "I (db w1) (redis w1)" "parse_amount (ct_amount_paisa req) = Inr a"
      "fresh_transfer P D s rc (as_paisa a) (clean_note (ct_note req)) (ct_idempotency_key req) w1 = (r, w')"
proof -
  have res: "keeps (\<lambda>w. I (db w) (redis w)) (resolve_recipient P (ct_recipient req))"
    unfolding resolve_recipient_def resolve_recipient_user_def resolve_by_text_def Let_def
    by (intro keeps_rules keeps_fetch)
  note fetch = keeps_fetch [where I = I and q = "find_transfer_by_key (ct_idempotency_key req)"]
  from run show thesis
  proof (cases rule: process_transfer_path)
    case (unauthorised e)
    with keepsD [OF pin I] stopped show thesis by simp
  next
    case (misaddressed e w1)
    with keepsD [OF pin I] keepsD [OF res, of w1] stopped show thesis by auto
  next
    case (keyed a rc w1 w2)
    with keepsD [OF pin I] keepsD [OF res, of w1] have I2: "I (db w2) (redis w2)" by simp
    have I3: "I (db w3) (redis w3)" if "pool_fetch (find_transfer_by_key (ct_idempotency_key req)) w2 = (x, w3)" for x w3
      using keepsD [OF fetch I2] that by simp
    from keyed(4) show thesis
      by (cases rule: transfer_keyed) (use I3 I2 stopped fresh keyed(2) in blast)+
  qed
qed

context redis_counters
begin

text \<open>\<open>tally k c now t1\<close>: from \<open>now\<close> until \<open>t1\<close> the counter under \<open>k\<close> stands at \<open>c\<close>.\<close>

definition tally :: "str \<Rightarrow> int \<Rightarrow> int \<Rightarrow> int \<Rightarrow> 'r \<Rightarrow> bool" where
  "tally k c now t1 r \<longleftrightarrow> up r \<and> (\<forall>x. now \<le> x \<and> x < t1 \<longrightarrow> var_or (count x r k) 0 = c)"

lemma keeps_tally_pin:
  assumes "rds P = R" "k \<noteq> pin_key P u"
  shows "keeps (\<lambda>w. tally k c now t1 (redis w)) (enforce_user_pin P D u pin)"
  unfolding enforce_user_pin_def pin_failure_def
  by (intro keeps_rules keeps_redis)
    (use assms in \<open>auto simp: tally_def incr_other incr_up expire_other expire_up del_other del_up\<close>)

lemma tally_add:
  assumes "tally k c now t1 r" "now \<le> t" "t < t1" "t1 \<le> t + s * 1000000" "in_i64 (c + n)"
  shows "fst (rd_incr R t k n r) = Some (c + n)"
    "tally k (c + n) t t1 (rd_expire R t k s (snd (rd_incr R t k n r)))"
proof -
  have u: "up r" and c: "var_or (count t r k) 0 = c" using assms(1-3) by (simp_all add: tally_def)
  show "fst (rd_incr R t k n r) = Some (c + n)" using incr_value [OF u, of t k n] c assms(5) by simp
  show "tally k (c + n) t t1 (rd_expire R t k s (snd (rd_incr R t k n r)))"
    unfolding tally_def
    using incr_expire_count [OF u, of t k n] c assms(4,5) incr_expire_up [OF u] by (auto simp: var_or_def)
qed


lemma fresh_transfer_daily:
  assumes R: "rds P = R" and clk: "clock D 11 = t" and key: "velocity_key P D s = k"
    and tally: "tally k c now t1 (redis w)" and t: "now \<le> t" "t < t1" "t1 \<le> t + 86400 * 1000000"
    and c: "0 \<le> c" "c + PER_TRANSFER_CAP_PAISA \<le> i64_max" and a: "0 < a" and acc: "accounts_ok (db w)"
    and run: "fresh_transfer P D s rc a note ik w = (r, w')"
  shows "\<exists>c'. tally k c' t t1 (redis w') \<and> c \<le> c' \<and> c' \<le> c + PER_TRANSFER_CAP_PAISA \<and>
    (outflow s (db w') = outflow s (db w) \<or>
     outflow s (db w') = outflow s (db w) + (c' - c) \<and> c' \<le> DAILY_OUTFLOW_CAP_PAISA)"
  using run acc
proof (cases rule: fresh_transfer_path)
  case over_cap
  have "tally k c t t1 (redis w)" using tally t(1) by (simp add: tally_def)
  moreover have "outflow s (db w') = outflow s (db w)" using over_cap(4) by (elim disjE) (simp, rule outflow_effects(2))
  ultimately show ?thesis using over_cap(3) by (intro exI [of _ c]) (simp add: PER_TRANSFER_CAP_PAISA_def)
next
  case (counted tot w1 out)
  have "in_i64 (c + a)" using c a counted(1) by (simp add: in_i64_def i64_min_def)
  note add = tally_add [OF tally t this]
  have "add_daily_outflow P D s a w =
      (Inr (c + a), w\<lparr>redis := rd_expire R t k 86400 (snd (rd_incr R t k a (redis w)))\<rparr>)"
    using add(1) by (simp add: add_daily_outflow_def bnd_run thn_run redis_run ret_run R clk key var_or_def)
  with counted(2,3) have tot: "tot = c + a" and r: "tally k (c + a) t t1 (redis w')" using add(2) by auto
  have "outflow s (db w') = outflow s (db w) \<or>
     outflow s (db w') = outflow s (db w) + a \<and> c + a \<le> DAILY_OUTFLOW_CAP_PAISA"
  proof (cases "db w' = db w")
    case False
    then have e: "outcome_effect out (db w) (db w')" using counted(5) by blast
    then show ?thesis
      by (cases "tot > DAILY_OUTFLOW_CAP_PAISA")
        (use e in \<open>auto simp: counted(4) tot outflow_effects(2) transfer_of_def dest: outflow_moves [where s = s]\<close>)
  qed simp
  with r counted(1) a show ?thesis by (intro exI [of _ "c + a"]) auto
qed

text \<open>A day's requests of one sender.\<close>

lemma outflow_run:
  assumes R: "rds P = R" and key: "k \<noteq> pin_key P s" and t1: "t1 = day_start + 86400 * 1000000"
    and "\<forall>x \<in> set xs. instant (fst x) \<and> velocity_key P (fst x) s = k"
    and "sorted (map (\<lambda>x. clock (fst x) 0) xs)"
    and "\<forall>x \<in> set xs. now \<le> clock (fst x) 0 \<and> day_start \<le> clock (fst x) 0 \<and> clock (fst x) 0 < t1"
    and "books (db w)" "tally k c now t1 (redis w)" "0 \<le> c"
    and "c + int (length xs) * PER_TRANSFER_CAP_PAISA \<le> i64_max"
    and "outflow s (db w) - base \<le> c" "outflow s (db w) - base \<le> DAILY_OUTFLOW_CAP_PAISA"
  shows "outflow s (db (snd (run_all (\<lambda>x. process_transfer P (fst x) s (snd x)) xs w))) - base \<le> DAILY_OUTFLOW_CAP_PAISA"
  using assms(4-)
proof (induction xs arbitrary: w now c)
  case Nil
  then show ?case by simp
next
  case (Cons x xs)
  let ?D = "fst x" and ?t = "clock (fst x) 0"
  obtain r w1 where run: "process_transfer P ?D s (snd x) w = (r, w1)" by fastforce
  have books1: "books (db w1)" using process_transfer_books [OF Cons.prems(4), of P ?D s "snd x"] run by simp
  have t: "now \<le> ?t" "?t < t1" "t1 \<le> ?t + 86400 * 1000000" using Cons.prems(3) t1 by auto
  have cap: "c + PER_TRANSFER_CAP_PAISA \<le> i64_max"
    using Cons.prems(7) by (simp add: PER_TRANSFER_CAP_PAISA_def)
  let ?I = "\<lambda>d rd. (books d \<and> outflow s d = outflow s (db w)) \<and> tally k c now t1 rd"
  have pin: "keeps (\<lambda>w. ?I (db w) (redis w)) (enforce_user_pin P ?D s (ct_pin (snd x)))"
    by (intro keeps_conj keeps_tally_pin [OF R key] keeps_db_pin)
      (simp add: outflow_def same_money_books [OF only_events_same_money [OF only_events_append]])
  have "\<exists>c'. tally k c' ?t t1 (redis w1) \<and> c \<le> c' \<and> c' \<le> c + PER_TRANSFER_CAP_PAISA \<and>
    (outflow s (db w1) = outflow s (db w) \<or>
     outflow s (db w1) = outflow s (db w) + (c' - c) \<and> c' \<le> DAILY_OUTFLOW_CAP_PAISA)"
  proof (rule process_transfer_split [OF run, where I = ?I, OF _ pin])
    show "?I (db w) (redis w)" using Cons.prems(4,5) by simp
    assume "?I (db w1) (redis w1)"
    then show ?thesis using t(1) by (intro exI [of _ c]) (auto simp: tally_def PER_TRANSFER_CAP_PAISA_def)
  next
    fix a rc w2
    assume I: "?I (db w2) (redis w2)" and a: "parse_amount (ct_amount_paisa (snd x)) = Inr a"
      and f: "fresh_transfer P ?D s rc (as_paisa a) (clean_note (ct_note (snd x))) (ct_idempotency_key (snd x)) w2 = (r, w1)"
    have "0 < as_paisa a" using a parse_positive_bounds by (auto simp: parse_amount_def)
    moreover have "clock ?D 11 = ?t" "velocity_key P ?D s = k" using Cons.prems(1) by (auto simp: instant_def)
    ultimately show ?thesis
      using fresh_transfer_daily [OF R _ _ _ t Cons.prems(6) cap _ _ f] I books_accounts by simp
  qed
  then obtain c' where c': "tally k c' ?t t1 (redis w1)" "c \<le> c'" "c' \<le> c + PER_TRANSFER_CAP_PAISA"
    "outflow s (db w1) = outflow s (db w) \<or>
     outflow s (db w1) = outflow s (db w) + (c' - c) \<and> c' \<le> DAILY_OUTFLOW_CAP_PAISA" by blast
  have "outflow s (db (snd (run_all (\<lambda>x. process_transfer P (fst x) s (snd x)) xs w1))) - base \<le> DAILY_OUTFLOW_CAP_PAISA"
  proof (rule Cons.IH [OF _ _ _ books1 c'(1)])
    show "c' + int (length xs) * PER_TRANSFER_CAP_PAISA \<le> i64_max"
      using Cons.prems(7) c'(3) by (simp add: algebra_simps)
  qed (use Cons.prems c' in auto)
  then show ?case using run by (simp add: case_prod_beta)
qed

end

text \<open>
  The bound below rests on the counter.  When \<open>INCR\<close> fails the total counts as zero (\<open>unwrap_or(0)\<close>), and
  the transfer goes past the cap unseen.
\<close>

lemma daily_outflow_fails_open:
  assumes "fst (rd_incr (rds P) (clock D 11) (velocity_key P D s) amount (redis w)) = None"
  shows "\<exists>w'. add_daily_outflow P D s amount w = (Inr 0, w') \<and> db w' = db w \<and> \<not> 0 > DAILY_OUTFLOW_CAP_PAISA"
  using assms by (simp add: add_daily_outflow_def bnd_run thn_run redis_run ret_run var_or_def DAILY_OUTFLOW_CAP_PAISA_def)

text \<open>C25: As long as Redis answers, at most the daily cap leaves an account through the transfers that its owner
requests one after the other within a day, with new or repeated keys, with right or wrong PINs, and whatever fails in
the database.  (Where Redis fails the source lets a transfer past the cap: \<open>daily_outflow_fails_open\<close>.)\<close>

theorem daily_outflow_bounded:
  assumes "redis_counters (rds P) up count" "up (redis w)" "books (db w)"
    "\<forall>x \<in> set xs. instant (fst x) \<and> format_day P (clock (fst x) 10) = day"
    "sorted (map (\<lambda>x. clock (fst x) 0) xs)"
    "\<forall>x \<in> set xs. t0 \<le> clock (fst x) 0 \<and> clock (fst x) 0 < t0 + 86400 * 1000000"
    "\<forall>t. t0 \<le> t \<longrightarrow> count t (redis w) (''daily_outflow:'' @ uuid_to_string P s @ '':'' @ day) = None"
    "int (length xs) * PER_TRANSFER_CAP_PAISA \<le> i64_max"
  shows "outflow s (db (snd (run_all (\<lambda>x. process_transfer P (fst x) s (snd x)) xs w)))
     \<le> outflow s (db w) + DAILY_OUTFLOW_CAP_PAISA"
proof -
  let ?k = "''daily_outflow:'' @ uuid_to_string P s @ '':'' @ day"
  have "redis_counters.tally up count ?k 0 t0 (t0 + 86400 * 1000000) (redis w)"
    using assms(2,7) by (simp add: redis_counters.tally_def [OF assms(1)] var_or_def)
  moreover have "?k \<noteq> pin_key P s" by (simp add: pin_key_def)
  moreover have "\<forall>x \<in> set xs. instant (fst x) \<and> velocity_key P (fst x) s = ?k"
    using assms(4) by (auto simp: velocity_key_def)
  moreover have "\<forall>x \<in> set xs. t0 \<le> clock (fst x) 0 \<and> t0 \<le> clock (fst x) 0 \<and> clock (fst x) 0 < t0 + 86400 * 1000000"
    using assms(6) by blast
  ultimately have "outflow s (db (snd (run_all (\<lambda>x. process_transfer P (fst x) s (snd x)) xs w))) - outflow s (db w)
      \<le> DAILY_OUTFLOW_CAP_PAISA"
    using assms(3,5,8) redis_counters.outflow_run [OF assms(1) refl _ refl, where base = "outflow s (db w)" and c = 0
      and k = ?k and now = t0 and day_start = t0 and s = s and w = w and xs = xs]
    by (simp only: add_0 order_refl diff_self zero_le_numeral DAILY_OUTFLOW_CAP_PAISA_def simp_thms)
  then show ?thesis by simp
qed

definition sample_day :: "(draws \<times> create_transfer_request) list" where
  "sample_day = [(sample_draws 1000 2, sample_transfer),
     (sample_draws 2000 3, sample_transfer\<lparr>ct_idempotency_key := Uuid 78, ct_amount_paisa := ''40''\<rparr>),
     (sample_draws 3000 4, sample_transfer\<lparr>ct_idempotency_key := Uuid 79, ct_pin := ''0000''\<rparr>)]"

theorem daily_outflow_bounded_witness:
  "outflow alice (db (snd (run_all (\<lambda>x. process_transfer sample_platform (fst x) alice (snd x)) sample_day sample_world))) = 1290 \<and>
   1290 \<le> outflow alice (db sample_world) + DAILY_OUTFLOW_CAP_PAISA"
proof -
  let ?o = "outflow alice (db (snd (run_all (\<lambda>x. process_transfer sample_platform (fst x) alice (snd x)) sample_day sample_world)))"
  have o: "?o = 1290" by code_simp
  have store: "redis_counters (rds sample_platform) (\<lambda>_. True) kv_count"
    using kvc.redis_counters_axioms by (simp add: sample_platform_def)
  have day: "\<forall>x \<in> set sample_day. instant (fst x) \<and> format_day sample_platform (clock (fst x) 10) = ''0''"
  proof -
    have "list_all (\<lambda>x. format_day sample_platform (clock (fst x) 10) = ''0'') sample_day" by code_simp
    then show ?thesis by (simp add: sample_day_def instant_def sample_draws_def)
  qed
  have new: "\<forall>t. 0 \<le> t \<longrightarrow> kv_count t (redis sample_world)
      (''daily_outflow:'' @ uuid_to_string sample_platform alice @ '':'' @ ''0'') = None"
    by (simp add: sample_world_def kv_empty_def kv_count_def)
  have "sorted (map (\<lambda>x. clock (fst x) 0) sample_day)"
    "\<forall>x \<in> set sample_day. 0 \<le> clock (fst x) 0 \<and> clock (fst x) 0 < 0 + 86400 * 1000000"
    "int (length sample_day) * PER_TRANSFER_CAP_PAISA \<le> i64_max"
    by (simp_all add: sample_day_def sample_draws_def PER_TRANSFER_CAP_PAISA_def i64_max_def)
  from daily_outflow_bounded [OF store _ books_sample day this(1,2) new this(3)] o show ?thesis by simp
qed

end
