(* ===== verification/Reconcile.thy ===== *)
theory Reconcile
  imports Limits
begin

text \<open>
  The reconciliation job (\<open>src/features/reconcile/service.rs\<close>): it recomputes the three contracts of
  the ledger from the database.  The second half shows that it is exact: over sound books it reports
  nothing, and a report without errors means that the contracts hold.
\<close>

section \<open>The job\<close>

record reconcile_report =
  rp_users_count :: int
  rp_total_system_balance_paisa :: int
  rp_expected_system_balance_paisa :: int
  rp_users_reconciled :: int
  rp_ledger_entries_verified :: int
  rp_errors :: "str list"

definition empty_report :: reconcile_report where
  "empty_report = \<lparr>rp_users_count = 0, rp_total_system_balance_paisa = 0,
     rp_expected_system_balance_paisa = 0, rp_users_reconciled = 0, rp_ledger_entries_verified = 0,
     rp_errors = []\<rparr>"

definition add_error :: "str \<Rightarrow> reconcile_report \<Rightarrow> reconcile_report" where
  "add_error e r = r\<lparr>rp_errors := rp_errors r @ [e]\<rparr>"

text \<open>\<open>SELECT COALESCE(SUM(amount_paisa), 0)::BIGINT\<close>: the cast fails out of range.\<close>

definition sum_balances :: "database \<Rightarrow> db_error + int \<times> database" where
  "sum_balances d = (if in_i64 (total_balance d) then Inr (total_balance d, d)
     else Inl NumericValueOutOfRange)"

definition contract2_text :: "int \<Rightarrow> int \<Rightarrow> int \<Rightarrow> str" where
  "contract2_text expected user_count total_bal =
     ''CONTRACT 2 VIOLATION: Total balance mismatch! Expected '' @ show_int expected @ '' paisa ('' @
     show_int user_count @ '' users * 10M), found '' @ show_int total_bal @ '' paisa (difference: '' @
     show_int (i64_sub total_bal expected) @ '' paisa)''"

definition user_label :: "'r platform \<Rightarrow> user_row \<Rightarrow> str" where
  "user_label P u = ''User '' @ u_account_number u @ '' (id: '' @ uuid_to_string P (u_id u) @ '')''"

definition chain_text :: "'r platform \<Rightarrow> user_row \<Rightarrow> int \<Rightarrow> int \<Rightarrow> int \<Rightarrow> str" where
  "chain_text P u i expected running =
     ''CONTRACT 3 VIOLATION (Chain Error): '' @ user_label P u @ '' ledger row '' @ show_int i @
     '' expected running_balance '' @ show_int expected @ '', found '' @ show_int running"

definition initial_text :: "'r platform \<Rightarrow> user_row \<Rightarrow> int \<Rightarrow> int \<Rightarrow> int \<Rightarrow> str" where
  "initial_text P u i running d =
     ''CONTRACT 3 VIOLATION (Initial Row): '' @ user_label P u @ '' first ledger row '' @ show_int i @
     '' running_balance '' @ show_int running @ '' != delta '' @ show_int d"

definition contract1_text :: "'r platform \<Rightarrow> user_row \<Rightarrow> int \<Rightarrow> int \<Rightarrow> str" where
  "contract1_text P u computed current =
     ''CONTRACT 1 VIOLATION: '' @ user_label P u @ '' computed ledger sum '' @ show_int computed @
     '' != balance '' @ show_int current"

text \<open>The verdict on one ledger row, after the previous running balance of its user.\<close>

definition check_row ::
  "'r platform \<Rightarrow> user_row \<Rightarrow> ledger_row \<Rightarrow> int option \<Rightarrow> reconcile_report \<Rightarrow> reconcile_report" where
  "check_row P u row previous_running report =
     (let report1 = report\<lparr>rp_ledger_entries_verified := rp_ledger_entries_verified report + 1\<rparr>;
          running = l_running_balance row;
          d = i64_mul (l_amount_paisa row) (l_direction row)
      in case previous_running of
           Some prev \<Rightarrow>
             if running \<noteq> i64_add prev d
             then add_error (chain_text P u (l_id row) (i64_add prev d) running) report1 else report1
         | None \<Rightarrow>
             if running \<noteq> d then add_error (initial_text P u (l_id row) running d) report1 else report1)"

text \<open>The loop over the ledger rows of one user: the sum so far, the previous running balance.\<close>

fun check_rows ::
  "'r platform \<Rightarrow> user_row \<Rightarrow> ledger_row list \<Rightarrow> int \<Rightarrow> int option \<Rightarrow> reconcile_report \<Rightarrow>
     int \<times> reconcile_report" where
  "check_rows P u [] computed_sum previous_running report = (computed_sum, report)"
| "check_rows P u (row # rows) computed_sum previous_running report =
     check_rows P u rows (i64_add computed_sum (i64_mul (l_amount_paisa row) (l_direction row)))
       (Some (l_running_balance row)) (check_row P u row previous_running report)"

definition finish_user :: "'r platform \<Rightarrow> user_row \<Rightarrow> int \<Rightarrow> int \<times> reconcile_report \<Rightarrow> reconcile_report" where
  "finish_user P u current_balance res = (case res of (computed_sum, report) \<Rightarrow>
     if computed_sum \<noteq> current_balance
     then add_error (contract1_text P u computed_sum current_balance) report
     else report\<lparr>rp_users_reconciled := rp_users_reconciled report + 1\<rparr>)"

fun reconcile_users ::
  "'r platform \<Rightarrow> user_row list \<Rightarrow> reconcile_report \<Rightarrow> ('r, reconcile_report) service" where
  "reconcile_users P [] report = ret report"
| "reconcile_users P (u # us) report =
     bnd (pool_fetch_one (\<lambda>d. map_option b_amount_paisa (find (\<lambda>b. b_user_id b = u_id u) (balances d))))
       (\<lambda>current_balance.
     bnd (pool_fetch (\<lambda>d. sort_key l_id (user_ledger d (u_id u)))) (\<lambda>ledger_rows.
     reconcile_users P us (finish_user P u current_balance (check_rows P u ledger_rows 0 None report))))"

text \<open>The report after the check of the total.\<close>

definition first_report :: "int \<Rightarrow> int \<Rightarrow> reconcile_report" where
  "first_report user_count total_bal =
     (let expected = i64_mul user_count 10000000;
          report = empty_report\<lparr>rp_users_count := user_count,
            rp_total_system_balance_paisa := total_bal, rp_expected_system_balance_paisa := expected\<rparr>
      in if total_bal \<noteq> expected
         then add_error (contract2_text expected user_count total_bal) report else report)"

definition run_reconciliation :: "'r platform \<Rightarrow> ('r, reconcile_report) service" where
  "run_reconciliation P =
     bnd (pool_fetch (\<lambda>d. int (length (users d)))) (\<lambda>user_count.
     bnd (pool sum_balances) (\<lambda>total_bal.
     bnd (pool_fetch users) (\<lambda>us. reconcile_users P us (first_report user_count total_bal))))"

section \<open>One user\<close>

text \<open>Rows as the schema admits them, and sums that stay in range.\<close>

definition row_ok :: "ledger_row \<Rightarrow> bool" where
  "row_ok l \<longleftrightarrow> in_i64 (delta l) \<and> 0 \<le> l_running_balance l \<and> l_running_balance l \<le> i64_max"

lemma i64_mul_delta: "row_ok l \<Longrightarrow> i64_mul (l_amount_paisa l) (l_direction l) = delta l"
  by (simp add: row_ok_def i64_mul_def i64_wrap_id delta_def mult.commute)

text \<open>
  Over an unbroken chain from \<open>prev\<close> the loop adds no error, counts the rows, and its sum follows the
  running balance.
\<close>

lemma check_rows_chain:
  assumes "chain_from prev ls" "\<forall>l \<in> set ls. row_ok l" "0 \<le> prev" "prev \<le> i64_max"
    "pr = (if first then None else Some prev)" "first \<longrightarrow> prev = 0"
  shows "check_rows P u ls prev pr r =
    (last_running prev ls, r\<lparr>rp_ledger_entries_verified := rp_ledger_entries_verified r + int (length ls)\<rparr>)"
  using assms
proof (induction ls arbitrary: prev pr first r)
  case Nil
  then show ?case by simp
next
  case (Cons l ls)
  have ok: "row_ok l" and run: "l_running_balance l = prev + delta l" using Cons.prems by simp_all
  from Cons.prems(1) have c: "chain_from (l_running_balance l) ls" unfolding chain_from.simps by blast
  have d: "i64_mul (l_amount_paisa l) (l_direction l) = delta l" using ok by (rule i64_mul_delta)
  have "in_i64 (prev + delta l)"
    using ok run by (simp add: row_ok_def in_i64_def i64_min_def)
  then have a: "i64_add prev (delta l) = l_running_balance l" using run by (simp add: i64_add_def i64_wrap_id)
  have "check_rows P u (l # ls) prev pr r = check_rows P u ls (l_running_balance l) (Some (l_running_balance l))
      (r\<lparr>rp_ledger_entries_verified := rp_ledger_entries_verified r + 1\<rparr>)"
    using Cons.prems(5,6) d a run by (auto simp: Let_def check_row_def)
  also have "\<dots> = (last_running (l_running_balance l) ls, r\<lparr>rp_ledger_entries_verified :=
      rp_ledger_entries_verified r + 1 + int (length ls)\<rparr>)"
    by (subst Cons.IH [where first = False]) (use c Cons.prems(2) ok in \<open>simp_all add: row_ok_def\<close>)
  finally show ?case by (simp add: algebra_simps)
qed

text \<open>Conversely, a loop that adds no error has seen an unbroken chain.\<close>

lemma check_row_errors: "\<exists>es. rp_errors (check_row P u l pr r) = rp_errors r @ es"
  by (simp add: check_row_def Let_def add_error_def split: option.split)

lemma check_rows_errors: "\<exists>es. rp_errors (snd (check_rows P u ls s pr r)) = rp_errors r @ es"
proof (induction ls arbitrary: s pr r)
  case (Cons l ls)
  from check_row_errors [of P u l pr r]
    Cons.IH [of "i64_add s (i64_mul (l_amount_paisa l) (l_direction l))" "Some (l_running_balance l)" "check_row P u l pr r"]
  show ?case by auto
qed simp

lemma check_rows_sound:
  assumes "rp_errors (snd (check_rows P u ls prev pr r)) = rp_errors r"
    "\<forall>l \<in> set ls. row_ok l" "0 \<le> prev" "prev \<le> i64_max"
    "pr = (if first then None else Some prev)" "first \<longrightarrow> prev = 0"
  shows "chain_from prev ls"
  using assms
proof (induction ls arbitrary: prev pr first r)
  case Nil
  then show ?case by simp
next
  case (Cons l ls)
  have ok: "row_ok l" using Cons.prems by simp
  have d: "i64_mul (l_amount_paisa l) (l_direction l) = delta l" using ok by (rule i64_mul_delta)
  let ?r1 = "r\<lparr>rp_ledger_entries_verified := rp_ledger_entries_verified r + 1\<rparr>"
  define r2 where "r2 = check_row P u l pr r"
  have step: "check_rows P u (l # ls) prev pr r =
      check_rows P u ls (i64_add prev (delta l)) (Some (l_running_balance l)) r2"
    by (simp add: r2_def d)
  have r2: "rp_errors r2 = rp_errors r \<and> l_running_balance l = i64_add prev (delta l) \<or>
      (\<exists>e. rp_errors r2 = rp_errors r @ [e])"
    using Cons.prems(5,6) d ok
    by (auto simp: r2_def check_row_def Let_def add_error_def i64_add_def i64_wrap_id row_ok_def)
  from check_rows_errors [of P u ls "i64_add prev (delta l)" "Some (l_running_balance l)" r2]
  obtain es where "rp_errors (snd (check_rows P u (l # ls) prev pr r)) = rp_errors r2 @ es"
    unfolding step by blast
  with Cons.prems(1) r2 have run: "l_running_balance l = i64_add prev (delta l)"
    and r2': "rp_errors r2 = rp_errors r" by auto
  have exact: "l_running_balance l = prev + delta l"
  proof (cases "0 \<le> delta l")
    case True
    with run ok Cons.prems(3,4) i64_add_overflow_negative [of prev "delta l"]
    show ?thesis by (simp add: row_ok_def in_i64_def)
  next
    case False
    with run ok Cons.prems(3,4) show ?thesis
      by (simp add: row_ok_def i64_add_def i64_wrap_id in_i64_def i64_min_def i64_max_def)
  qed
  have "chain_from (l_running_balance l) ls"
    by (rule Cons.IH [of _ _ r2 False])
      (use Cons.prems(1,2) ok step r2' run in \<open>simp_all add: row_ok_def\<close>)
  with exact show ?case by simp
qed

section \<open>The whole job\<close>

lemma reconcile_users_Nil_errors:
  assumes "reconcile_users P us r w = (Inr r', w')"
  shows "\<exists>es. rp_errors r' = rp_errors r @ es" and "db w' = db w"
proof -
  have "(\<exists>es. rp_errors r' = rp_errors r @ es) \<and> db w' = db w"
    using assms
  proof (induction us arbitrary: r w)
    case Nil
    then show ?case by (simp add: ret_run)
  next
    case (Cons u us)
    from Cons.prems obtain b w1 rows w2 where
      1: "pool_fetch_one (\<lambda>d. map_option b_amount_paisa (find (\<lambda>b. b_user_id b = u_id u) (balances d))) w = (Inr b, w1)"
      and 2: "pool_fetch (\<lambda>d. sort_key l_id (user_ledger d (u_id u))) w1 = (Inr rows, w2)"
      and 3: "reconcile_users P us (finish_user P u b (check_rows P u rows 0 None r)) w2 = (Inr r', w')"
      by (auto simp: prog_Inr_iff)
    obtain s rr where c: "check_rows P u rows 0 None r = (s, rr)" by fastforce
    have "db w1 = db w"
      using pool_Ok [OF 1 [unfolded pool_fetch_one_def]] by (auto split: option.splits)
    moreover have "\<exists>es. rp_errors (finish_user P u b (check_rows P u rows 0 None r)) = rp_errors r @ es"
      using check_rows_errors [of P u rows 0 None r] by (auto simp: c finish_user_def add_error_def)
    ultimately show ?case using Cons.IH [OF 3] pool_fetch_Ok [OF 2] by auto
  qed
  then show "\<exists>es. rp_errors r' = rp_errors r @ es" "db w' = db w" by blast+
qed

lemma sorted_user_ledger:
  assumes "serial_ok d"
  shows "sort_key l_id (user_ledger d u) = user_ledger d u"
proof -
  have "sorted_wrt (<) (map l_id (ledger d))" using assms by (simp add: serial_ok_def serial_ids_sorted)
  then have "sorted (map l_id (ledger d))" by (simp add: strict_sorted_iff)
  then have "sorted (map l_id (user_ledger d u))"
    unfolding user_ledger_def by (rule sorted_filter)
  then show ?thesis by (rule sort_key_id_if_sorted)
qed

text \<open>The rows of sound books, with the constraints of the ledger table, are in range.\<close>

lemma chain_rows_ok:
  assumes "chain_from prev ls" "0 \<le> prev" "prev \<le> i64_max"
    "\<forall>l \<in> set ls. 0 \<le> l_running_balance l \<and> l_running_balance l \<le> i64_max"
  shows "\<forall>l \<in> set ls. row_ok l"
  using assms
proof (induction ls arbitrary: prev)
  case (Cons l ls)
  then have "delta l = l_running_balance l - prev" by simp
  with Cons show ?case by (auto simp: row_ok_def in_i64_def i64_min_def i64_max_def)
qed simp

lemma books_check_rows:
  assumes "books d" "b \<in> set (balances d)"
  shows "check_rows P u (sort_key l_id (user_ledger d (b_user_id b))) 0 None r =
    (b_amount_paisa b, r\<lparr>rp_ledger_entries_verified :=
       rp_ledger_entries_verified r + int (length (user_ledger d (b_user_id b)))\<rparr>)"
proof -
  from assms have ok: "account_ok d b" "serial_ok d" by (simp_all add: books_def accounts_ok_def)
  let ?ls = "user_ledger d (b_user_id b)"
  have c: "chain_from 0 ?ls" "last_running 0 ?ls = b_amount_paisa b" using ok(1) by (simp_all add: account_ok_def)
  have "\<forall>l \<in> set ?ls. row_ok l"
    by (rule chain_rows_ok [OF c(1)]) (use ok(1) in \<open>simp_all add: account_ok_def i64_max_def\<close>)
  from check_rows_chain [OF c(1) this, of None True P u r] c(2) show ?thesis
    by (simp add: sorted_user_ledger [OF ok(2)] i64_max_def)
qed

lemma reconcile_users_books:
  assumes b: "books (db w)" and "fates w = []" and us: "set us \<subseteq> set (users (db w))"
  shows "\<exists>n. reconcile_users P us r w =
    (Inr (r\<lparr>rp_users_reconciled := rp_users_reconciled r + int (length us),
            rp_ledger_entries_verified := n\<rparr>), w)"
  using us
proof (induction us arbitrary: r)
  case Nil
  show ?case by (rule exI [of _ "rp_ledger_entries_verified r"]) (simp add: ret_run)
next
  case (Cons u us)
  have "set (map b_user_id (balances (db w))) = set (map u_id (users (db w)))"
    using b by (simp add: books_def accounts_ok_def)
  then have "u_id u \<in> set (map b_user_id (balances (db w)))" using Cons.prems by auto
  then obtain x where x: "x \<in> set (balances (db w))" "b_user_id x = u_id u" by auto
  have "find (\<lambda>b. b_user_id b = u_id u) (balances (db w)) = Some x"
    using find_by_key [OF books_balances_distinct [OF b] x(1)] x(2) by simp
  then have "reconcile_users P (u # us) r w =
      reconcile_users P us (finish_user P u (b_amount_paisa x)
        (check_rows P u (sort_key l_id (user_ledger (db w) (u_id u))) 0 None r)) w"
    using assms(2) by (simp add: bnd_run pool_fetch_one_def pool_proceeds pool_fetch_proceeds)
  also have "\<dots> = reconcile_users P us (r\<lparr>rp_users_reconciled := rp_users_reconciled r + 1,
      rp_ledger_entries_verified := rp_ledger_entries_verified r + int (length (user_ledger (db w) (u_id u)))\<rparr>) w"
    using books_check_rows [OF b x(1), of P u r] x(2) by (cases r) (simp add: finish_user_def)
  finally have step: "reconcile_users P (u # us) r w = \<dots>" .
  from Cons.IH [of "r\<lparr>rp_users_reconciled := rp_users_reconciled r + 1, rp_ledger_entries_verified :=
      rp_ledger_entries_verified r + int (length (user_ledger (db w) (u_id u)))\<rparr>"] Cons.prems
  show ?case unfolding step by (cases r) (simp add: algebra_simps)
qed

section \<open>Properties\<close>

lemma run_reconciliation_books:
  assumes "books (db w)" "fates w = []" "SEED_BALANCE_PAISA * int (length (users (db w))) \<le> i64_max"
  shows "\<exists>report. run_reconciliation P w = (Inr report, w) \<and> rp_errors report = [] \<and>
    rp_users_reconciled report = int (length (users (db w))) \<and>
    rp_total_system_balance_paisa report = rp_expected_system_balance_paisa report \<and>
    rp_total_system_balance_paisa report = total_balance (db w)"
proof -
  have total: "total_balance (db w) = SEED_BALANCE_PAISA * int (length (users (db w)))"
    using assms(1) by (simp add: books_def)
  then have range: "in_i64 (total_balance (db w))"
    using assms(3) by (simp add: in_i64_def i64_min_def SEED_BALANCE_PAISA_def)
  have expected: "i64_mul (int (length (users (db w)))) 10000000 = total_balance (db w)"
    using total range by (simp add: i64_mul_def i64_wrap_id SEED_BALANCE_PAISA_def mult.commute)
  let ?r = "empty_report\<lparr>rp_users_count := int (length (users (db w))),
       rp_total_system_balance_paisa := total_balance (db w),
       rp_expected_system_balance_paisa := total_balance (db w)\<rparr>"
  have "run_reconciliation P w = reconcile_users P (users (db w)) ?r w"
    using assms(2) range expected
    by (simp add: run_reconciliation_def bnd_run pool_fetch_proceeds pool_proceeds sum_balances_def Let_def
        first_report_def)
  with reconcile_users_books [OF assms(1,2) order_refl, of P ?r] show ?thesis
    by (auto simp: empty_report_def)
qed

text \<open>Over sound books the job runs to its end, provided that the connection does not fail and that
the seed money of all users fits in 64 bits: it reports no error, the two totals agree, and every user is
reconciled.  No error that it prints is a false alarm.\<close>

theorem reconciliation_clean:
  assumes "books (db w)" "fates w = []" "SEED_BALANCE_PAISA * int (length (users (db w))) \<le> i64_max"
  shows "\<exists>report. run_reconciliation P w = (Inr report, w) \<and> rp_errors report = [] \<and>
    rp_users_reconciled report = int (length (users (db w))) \<and>
    rp_total_system_balance_paisa report = rp_expected_system_balance_paisa report \<and>
    rp_total_system_balance_paisa report = total_balance (db w)"
  by (rule run_reconciliation_books [OF assms])

theorem reconciliation_clean_witness:
  "\<exists>report. run_reconciliation sample_platform sample_world = (Inr report, sample_world) \<and>
     rp_errors report = [] \<and> rp_users_reconciled report = 2"
proof -
  have "length (users (db sample_world)) = 2" by (simp add: sample_world_def sample_db_def)
  with reconciliation_clean [OF books_sample, of sample_platform] show ?thesis
    by (auto simp: sample_world_def SEED_BALANCE_PAISA_def i64_max_def)
qed

text \<open>What a report vouches for, user by user.\<close>

definition contracts_hold :: "database \<Rightarrow> user_row \<Rightarrow> bool" where
  "contracts_hold d u \<longleftrightarrow> (\<exists>b \<in> set (balances d). b_user_id b = u_id u \<and>
     chain_from 0 (sort_key l_id (user_ledger d (u_id u))) \<and>
     last_running 0 (sort_key l_id (user_ledger d (u_id u))) = b_amount_paisa b)"

lemma finish_user_errors: "\<exists>es. rp_errors (finish_user P u v (s, r)) = rp_errors r @ es"
  by (simp add: finish_user_def add_error_def)

lemma reconciled_user:
  assumes "rp_errors (finish_user P u v (check_rows P u ls 0 None r)) = rp_errors r"
    "\<forall>l \<in> set ls. row_ok l"
  shows "chain_from 0 ls \<and> last_running 0 ls = v"
proof -
  obtain s r' where c: "check_rows P u ls 0 None r = (s, r')" by fastforce
  from check_rows_errors [of P u ls 0 None r] obtain es where es: "rp_errors r' = rp_errors r @ es"
    by (auto simp: c)
  with assms(1) have e: "rp_errors r' = rp_errors r" and s: "s = v"
    by (auto simp: c finish_user_def add_error_def split: if_splits)
  have "chain_from 0 ls"
    by (rule check_rows_sound [of P u ls 0 None r True]) (use e assms(2) in \<open>simp_all add: c i64_max_def\<close>)
  moreover from check_rows_chain [OF this assms(2), of None True P u r] s
  have "last_running 0 ls = v" by (simp add: c i64_max_def)
  ultimately show ?thesis by simp
qed

lemma reconcile_users_sound:
  assumes "reconcile_users P us r w = (Inr r', w')" "rp_errors r' = rp_errors r"
    "\<forall>l \<in> set (ledger (db w)). row_ok l" "u \<in> set us"
  shows "contracts_hold (db w) u"
  using assms
proof (induction us arbitrary: r w)
  case Nil
  then show ?case by simp
next
  case (Cons v us)
  from Cons.prems(1) obtain b w1 rows w2 where
    1: "pool_fetch_one (\<lambda>d. map_option b_amount_paisa (find (\<lambda>b. b_user_id b = u_id v) (balances d))) w = (Inr b, w1)"
    and 2: "pool_fetch (\<lambda>d. sort_key l_id (user_ledger d (u_id v))) w1 = (Inr rows, w2)"
    and 3: "reconcile_users P us (finish_user P v b (check_rows P v rows 0 None r)) w2 = (Inr r', w')"
    by (auto simp: prog_Inr_iff)
  have d1: "db w1 = db w" and b: "map_option b_amount_paisa (find (\<lambda>b. b_user_id b = u_id v) (balances (db w))) = Some b"
    using pool_Ok [OF 1 [unfolded pool_fetch_one_def]] by (auto split: option.splits)
  have rows: "rows = sort_key l_id (user_ledger (db w) (u_id v))" and d2: "db w2 = db w"
    using pool_fetch_Ok [OF 2] d1 by auto
  obtain s rr where c: "check_rows P v rows 0 None r = (s, rr)" by fastforce
  obtain es1 where e1: "rp_errors rr = rp_errors r @ es1"
    using check_rows_errors [of P v rows 0 None r] by (auto simp: c)
  obtain es2 where e2: "rp_errors (finish_user P v b (s, rr)) = rp_errors rr @ es2"
    using finish_user_errors by blast
  obtain es3 where "rp_errors r' = rp_errors (finish_user P v b (s, rr)) @ es3"
    using reconcile_users_Nil_errors(1) [OF 3] by (auto simp: c)
  then have "rp_errors r = (rp_errors r @ es1 @ es2) @ es3"
    unfolding e2 e1 Cons.prems(2) by simp
  then have "es1 = [] \<and> es2 = []" by simp
  then have e: "rp_errors (finish_user P v b (check_rows P v rows 0 None r)) = rp_errors r"
    unfolding c e2 e1 by simp
  show ?case
  proof (cases "u = v")
    case True
    have "\<forall>l \<in> set rows. row_ok l" using Cons.prems(3) by (simp add: rows user_ledger_def)
    from reconciled_user [OF e this] b show ?thesis
      unfolding True contracts_hold_def rows by (auto dest!: find_Some_in)
  next
    case False
    with Cons.prems(4) have "u \<in> set us" by simp
    from Cons.IH [OF 3 _ _ this] e Cons.prems(2,3) d2 show ?thesis by simp
  qed
qed

lemma clean_report_sound:
  assumes "run_reconciliation P w = (Inr report, w')" "rp_errors report = []"
    "\<forall>l \<in> set (ledger (db w)). row_ok l" "in_i64 (SEED_BALANCE_PAISA * int (length (users (db w))))"
  shows "total_balance (db w) = SEED_BALANCE_PAISA * int (length (users (db w))) \<and>
    (\<forall>u \<in> set (users (db w)). contracts_hold (db w) u)"
proof (intro conjI ballI)
  obtain n w1 where 1: "pool_fetch (\<lambda>d. int (length (users d))) w = (Inr n, w1)"
    and k1: "bnd (pool sum_balances) (\<lambda>total_bal. bnd (pool_fetch users) (\<lambda>us. reconcile_users P us
        (first_report n total_bal))) w1 = (Inr report, w')"
    using assms(1) unfolding run_reconciliation_def by (rule bnd_InrE)
  from k1 obtain t w2 where 2: "pool sum_balances w1 = (Inr t, w2)"
    and k2: "bnd (pool_fetch users) (\<lambda>us. reconcile_users P us (first_report n t)) w2 = (Inr report, w')"
    by (rule bnd_InrE)
  from k2 obtain us w3 where 3: "pool_fetch users w2 = (Inr us, w3)"
    and 4: "reconcile_users P us (first_report n t) w3 = (Inr report, w')" by (rule bnd_InrE)
  from pool_fetch_Ok [OF 1] have n: "n = int (length (users (db w)))" "db w1 = db w" by auto
  from pool_Ok [OF 2] n(2) have t: "t = total_balance (db w)" "db w2 = db w"
    by (auto simp: sum_balances_def split: if_splits)
  from pool_fetch_Ok [OF 3] t(2) have us: "us = users (db w)" "db w3 = db w" by auto
  from reconcile_users_Nil_errors(1) [OF 4] assms(2)
  have ok: "t = i64_mul n 10000000" by (auto simp: first_report_def Let_def add_error_def split: if_splits)
  with t n assms(4) show "total_balance (db w) = SEED_BALANCE_PAISA * int (length (users (db w)))"
    by (simp add: i64_mul_def i64_wrap_id SEED_BALANCE_PAISA_def mult.commute)
  fix u assume "u \<in> set (users (db w))"
  with reconcile_users_sound [OF 4] ok assms(2,3) us show "contracts_hold (db w) u"
    by (simp add: first_report_def Let_def empty_report_def)
qed

text \<open>C10: A clean report is a proof.  If the job answers with no error, then the total of the balances is
the seed money of all users, and the ledger of every user is an unbroken chain of running balances that
starts from zero and ends in the user's balance - whatever state the database was in, as long as its rows
respect the ranges of their columns.\<close>

theorem reconciliation_sound:
  assumes "run_reconciliation P w = (Inr report, w')" "rp_errors report = []"
    "\<forall>l \<in> set (ledger (db w)). row_ok l" "in_i64 (SEED_BALANCE_PAISA * int (length (users (db w))))"
  shows "total_balance (db w) = SEED_BALANCE_PAISA * int (length (users (db w))) \<and>
    (\<forall>u \<in> set (users (db w)). contracts_hold (db w) u)"
  by (rule clean_report_sound [OF assms])

theorem reconciliation_sound_witness:
  "contracts_hold sample_db (sample_user alice ''PSTU1'' ''01700000001'')"
proof -
  obtain res w' where run: "run_reconciliation sample_platform sample_world = (res, w')" by fastforce
  have "map_sum (\<lambda>_. ()) rp_errors (fst (run_reconciliation sample_platform sample_world)) = Inr []" by code_simp
  then obtain report where r: "res = Inr report" "rp_errors report = []" unfolding run by (cases res) auto
  have "\<forall>l \<in> set (ledger (db sample_world)). row_ok l"
    by (simp add: sample_world_def sample_db_def empty_db_def sample_funding_def ledger_entry_def row_ok_def
        delta_def SEED_BALANCE_PAISA_def in_i64_def i64_min_def i64_max_def)
  moreover have "length (users (db sample_world)) = 2"
    "sample_user alice ''PSTU1'' ''01700000001'' \<in> set (users sample_db)"
    by (simp_all add: sample_world_def sample_db_def)
  ultimately show ?thesis
    using reconciliation_sound [OF run [unfolded r(1)] r(2)]
    by (simp add: SEED_BALANCE_PAISA_def in_i64_def i64_min_def i64_max_def sample_world_def)
qed

end
