(* ===== verification/Notifications.thy ===== *)
theory Notifications
  imports Limits
begin

text \<open>
  The notifications of a user (\<open>features/notifications/service.rs\<close>, \<open>routes.rs\<close>, \<open>dto.rs\<close>): reading a page,
  with the number of unread ones, and marking as read.  No service of the program writes a notification;
  the table is filled from outside.
\<close>

record notif_query =
  nq_unread_only :: "bool option"
  nq_cursor :: "int option"
  nq_limit :: "int option"

record notification_item_dto =
  ni_id :: int
  ni_kind :: str
  ni_title :: str
  ni_body :: str
  ni_entity_type :: "str option"
  ni_entity_id :: "uuid option"
  ni_read_at :: "int option"
  ni_created_at :: int

record notifications_response =
  nr_items :: "notification_item_dto list"
  nr_unread_count :: int
  nr_next_cursor :: "int option"

record notif_read_req =
  nrr_ids :: "int list option"
  nrr_all :: "bool option"

definition notification_item :: "notification_row \<Rightarrow> notification_item_dto" where
  "notification_item n =
     \<lparr>ni_id = n_id n, ni_kind = n_kind n, ni_title = n_title n, ni_body = n_body n,
      ni_entity_type = n_entity_type n, ni_entity_id = n_entity_id n, ni_read_at = n_read_at n,
      ni_created_at = n_created_at n\<rparr>"

definition selected_notification :: "uuid \<Rightarrow> bool \<Rightarrow> notification_row \<Rightarrow> bool" where
  "selected_notification user_id unread_only n \<longleftrightarrow>
     n_user_id n = user_id \<and> (\<not> unread_only \<or> n_read_at n = None)"

definition unread_count :: "uuid \<Rightarrow> database \<Rightarrow> int" where
  "unread_count user_id d = int (length (filter (selected_notification user_id True) (notifications d)))"

definition get_notifications :: "uuid \<Rightarrow> notif_query \<Rightarrow> ('r, notifications_response) service" where
  "get_notifications user_id q =
     (let limit = clamp_limit (nq_limit q); unread_only = var_or (nq_unread_only q) False in
      bnd (pool_fetch (\<lambda>d. keyset_page n_id limit (nq_cursor q)
             (filter (selected_notification user_id unread_only) (notifications d)))) (\<lambda>(rows, nxt).
      bnd (pool_fetch (unread_count user_id)) (\<lambda>unread.
      ret \<lparr>nr_items = map notification_item rows, nr_unread_count = unread, nr_next_cursor = nxt\<rparr>)))"

definition mark_notifications_read :: "draws \<Rightarrow> uuid \<Rightarrow> notif_read_req \<Rightarrow> ('r, bool) service" where
  "mark_notifications_read D user_id req =
     (let now = clock D 70 in
      thn (if var_or (nrr_all req) False
           then pool_execute (update_notifications (\<lambda>n. n_user_id n = user_id \<and> n_read_at n = None) now)
           else case nrr_ids req of
             Some ids \<Rightarrow> if ids \<noteq> []
               then pool_execute (update_notifications (\<lambda>n. n_user_id n = user_id \<and> n_id n \<in> set ids) now)
               else ret ()
           | None \<Rightarrow> ret ())
      (ret True))"

section \<open>Handlers\<close>

definition get_notifications_handler ::
  "str \<Rightarrow> authenticated_user \<Rightarrow> notif_query \<Rightarrow> ('r, notifications_response api_response) service" where
  "get_notifications_handler rid auth_user params =
     bnd (get_notifications (au_user_id auth_user) params) (\<lambda>res. ret (api_response_new rid res))"

text \<open>\<open>NotifReadReq\<close> has no validated field, so \<open>validate\<close> always passes.\<close>

definition mark_read_handler ::
  "draws \<Rightarrow> str \<Rightarrow> authenticated_user \<Rightarrow> notif_read_req \<Rightarrow> ('r, bool api_response) service" where
  "mark_read_handler D rid auth_user payload =
     bnd (mark_notifications_read D (au_user_id auth_user) payload) (\<lambda>res. ret (api_response_new rid res))"

section \<open>Properties\<close>

text \<open>Over the primary key of the table, the pages of the notifications are complete.\<close>

interpretation nk: keyset n_id notifications "\<lambda>d. distinct (map n_id (notifications d))"
  by unfold_locales

text \<open>Which notifications a request marks.\<close>

definition marks :: "uuid \<Rightarrow> notif_read_req \<Rightarrow> notification_row \<Rightarrow> bool" where
  "marks u req n \<longleftrightarrow> n_user_id n = u \<and>
     (if var_or (nrr_all req) False then n_read_at n = None else n_id n \<in> set (var_or (nrr_ids req) []))"

lemma mark_notifications_read_db:
  assumes "mark_notifications_read D u req w = (r, w')"
  shows "db w' = db w \<and> (\<exists>e. r = Inl e) \<or> (isl r \<or> r = Inr True) \<and>
    db w' = (db w)\<lparr>notifications := update_where (marks u req) (\<lambda>n. n\<lparr>n_read_at := Some (clock D 70)\<rparr>)
      (notifications (db w))\<rparr>"
proof -
  have upd: "db w1 = db w \<and> (\<exists>e. x = Inl e) \<or> db w1 = (db w)\<lparr>notifications := update_where p
      (\<lambda>n. n\<lparr>n_read_at := Some (clock D 70)\<rparr>) (notifications (db w))\<rparr>"
    if "pool_execute (update_notifications p (clock D 70)) w = (x, w1)" for p x w1
  proof (cases x)
    case (Inl e)
    with pool_atomic [OF that [unfolded pool_execute_def]] show ?thesis
      by (auto simp: update_notifications_def no_rows_def)
  next
    case (Inr y)
    with pool_Ok [OF that [unfolded pool_execute_def Inr]] show ?thesis
      by (auto simp: update_notifications_def no_rows_def)
  qed
  have isr: "isl (map_sum id (\<lambda>_. True) x) \<or> map_sum id (\<lambda>_. True) x = Inr True" for x :: "app_error + unit"
    by (cases x) simp_all
  have none: "update_where (\<lambda>n. False) f xs = xs" for f :: "notification_row \<Rightarrow> _" and xs
    by (rule update_where_none) simp
  show ?thesis
  proof (cases "var_or (nrr_all req) False")
    case True
    with assms obtain x where "pool_execute (update_notifications (\<lambda>n. n_user_id n = u \<and> n_read_at n = None) (clock D 70)) w = (x, w')"
      "r = map_sum id (\<lambda>_. True) x"
      by (auto simp: mark_notifications_read_def Let_def thn_run ret_run split: prod.splits sum.splits)
    with upd [OF this(1)] isr [of x] True show ?thesis by (auto simp: marks_def [abs_def])
  next
    case False
    show ?thesis
    proof (cases "var_or (nrr_ids req) []")
      case Nil
      with assms False show ?thesis
        by (auto simp: mark_notifications_read_def Let_def thn_run ret_run marks_def [abs_def] none var_or_def
            split: option.splits)
    next
      case (Cons i ids)
      then have some: "nrr_ids req = Some (i # ids)" by (auto simp: var_or_def split: option.splits)
      with assms False obtain x where "pool_execute (update_notifications (\<lambda>n. n_user_id n = u \<and> n_id n \<in> set (i # ids)) (clock D 70)) w = (x, w')"
        "r = map_sum id (\<lambda>_. True) x"
        by (auto simp: mark_notifications_read_def Let_def thn_run ret_run split: prod.splits sum.splits)
      with upd [OF this(1)] isr [of x] False some show ?thesis by (auto simp: marks_def [abs_def] var_or_def)
    qed
  qed
qed

text \<open>C36: Marking as read, spelled out.  A successful call gives the reading time to exactly the selected rows:
those of the asking user that are unread when all are asked for, and otherwise those of the asking user whose
id is given; every other row, and every other table, stays as it is.  A call that fails has changed nothing, or just
that, where only the acknowledgement of the statement was lost.  So after marking all the unread count is zero,
and the count of every other user is what it was.\<close>

theorem notifications_marked_own:
  assumes "mark_notifications_read D u req w = (r, w')"
  shows "(let marked = (db w)\<lparr>notifications := map (\<lambda>n.
        if n_user_id n = u \<and> (if nrr_all req = Some True then n_read_at n = None
             else \<exists>ids. nrr_ids req = Some ids \<and> n_id n \<in> set ids)
        then n\<lparr>n_read_at := Some (clock D 70)\<rparr> else n) (notifications (db w))\<rparr>
      in case r of Inl _ \<Rightarrow> db w' = db w \<or> db w' = marked | Inr b \<Rightarrow> b \<and> db w' = marked) \<and>
    (isl r \<or> nrr_all req \<noteq> Some True \<or> unread_count u (db w') = 0) \<and>
    (v = u \<or> unread_count v (db w') = unread_count v (db w))"
proof -
  have sel: "marks u req n \<longleftrightarrow> n_user_id n = u \<and> (if nrr_all req = Some True then n_read_at n = None
      else \<exists>ids. nrr_ids req = Some ids \<and> n_id n \<in> set ids)" for n
    by (cases "nrr_ids req") (auto simp: marks_def var_or_def split: option.splits)
  have others: "v \<noteq> u \<Longrightarrow> filter (selected_notification v True) (update_where (marks u req) (\<lambda>n. n\<lparr>n_read_at := Some t\<rparr>) ns) =
      filter (selected_notification v True) ns" for t ns
    by (induction ns) (auto simp: marks_def selected_notification_def)
  have read: "filter (selected_notification u True) (update_where (marks u req) (\<lambda>n. n\<lparr>n_read_at := Some t\<rparr>) ns) = []"
    if "nrr_all req = Some True" for t ns
    using that by (induction ns) (auto simp: marks_def selected_notification_def var_or_def)
  let ?marked = "update_where (marks u req) (\<lambda>n. n\<lparr>n_read_at := Some (clock D 70)\<rparr>) (notifications (db w))"
  note m = mark_notifications_read_db [OF assms]
  have "isl r \<or> nrr_all req \<noteq> Some True \<or> unread_count u (db w') = 0" using m read by (auto simp: unread_count_def)
  moreover have "v = u \<or> unread_count v (db w') = unread_count v (db w)" using m others by (cases "v = u") (auto simp: unread_count_def)
  moreover have "case r of Inl _ \<Rightarrow> db w' = db w \<or> db w' = (db w)\<lparr>notifications := ?marked\<rparr>
    | Inr b \<Rightarrow> b \<and> db w' = (db w)\<lparr>notifications := ?marked\<rparr>" using m by (cases r) auto
  ultimately show ?thesis unfolding update_where_def sel Let_def by blast
qed

definition sample_notification :: "int \<Rightarrow> uuid \<Rightarrow> notification_row" where
  "sample_notification i u = \<lparr>n_id = i, n_user_id = u, n_kind = ''system'', n_title = ''Title'', n_body = [],
     n_entity_type = None, n_entity_id = None, n_read_at = None, n_created_at = i\<rparr>"

definition notified_world :: "kv world" where
  "notified_world = sample_world\<lparr>db := sample_db\<lparr>notifications :=
     [sample_notification 1 alice, sample_notification 2 bob, sample_notification 3 alice]\<rparr>\<rparr>"

theorem notifications_marked_own_witness:
  "unread_count alice (db (snd (mark_notifications_read (sample_draws 1000 2) alice
     \<lparr>nrr_ids = None, nrr_all = Some True\<rparr> notified_world))) = 0 \<and> unread_count alice (db notified_world) = 2"
proof -
  let ?req = "\<lparr>nrr_ids = None, nrr_all = Some True\<rparr>"
  obtain r w' where run: "mark_notifications_read (sample_draws 1000 2) alice ?req notified_world = (r, w')" by fastforce
  have "fst (mark_notifications_read (sample_draws 1000 2) alice ?req notified_world) = Inr True" by code_simp
  then have "r = Inr True" by (simp add: run)
  moreover have "unread_count alice (db notified_world) = 2" by code_simp
  ultimately show ?thesis using notifications_marked_own [OF run, of alice] unfolding run snd_conv by auto
qed

end
