(* ===== verification/System.thy ===== *)
theory System
  imports Reconcile Notifications
begin

text \<open>
  The whole service as a state machine: any handler, called by anybody with any payload, and in between
  any change of the environment (which statements of the connection will fail, what Redis holds, which
  messages have left).  Handlers run one after the other; the database is empty at the start.
\<close>

section \<open>Steps\<close>

datatype action =
    AuthAction auth_action
  | SendTransfer uuid create_transfer_request
  | OnRequest uuid request_action
  | OnLink uuid link_action
  | MarkRead uuid notif_read_req

fun system_op :: "'r platform \<Rightarrow> draws \<Rightarrow> action \<Rightarrow> 'r world \<Rightarrow> 'r world" where
  "system_op P D (AuthAction act) w = auth_op P D act w"
| "system_op P D (SendTransfer sender req) w = snd (process_transfer P D sender req w)"
| "system_op P D (OnRequest actor act) w = request_op P D actor act w"
| "system_op P D (OnLink actor act) w = link_op P D actor act w"
| "system_op P D (MarkRead reader req) w = snd (mark_notifications_read D reader req w)"

inductive system_step :: "'r platform \<Rightarrow> 'r world \<Rightarrow> 'r world \<Rightarrow> bool" for P where
  performs: "system_step P w (system_op P D act w)"
| environment: "db w' = db w \<Longrightarrow> system_step P w w'"

inductive_cases system_stepE: "system_step P w w'"

inductive reachable :: "'r platform \<Rightarrow> 'r world \<Rightarrow> bool" for P where
  start: "db w = empty_db \<Longrightarrow> reachable P w"
| step: "reachable P w \<Longrightarrow> system_step P w w' \<Longrightarrow> reachable P w'"

definition system_run :: "'r platform \<Rightarrow> 'r world \<Rightarrow> 'r world \<Rightarrow> bool" where
  "system_run P = (system_step P)\<^sup>*\<^sup>*"

section \<open>The invariant\<close>

definition system_ok :: "database \<Rightarrow> bool" where
  "system_ok d \<longleftrightarrow> books d \<and> request_ids_ok d \<and> link_ids_ok d"

lemma system_ok_empty: "system_ok empty_db"
  using books_empty by (simp add: system_ok_def request_ids_ok_def link_ids_ok_def empty_db_def)

text \<open>What one step makes of the money tables.\<close>

definition money_change :: "database \<Rightarrow> database \<Rightarrow> bool" where
  "money_change d d' \<longleftrightarrow> same_money d d' \<or> (\<exists>t. moves t d d') \<or> (\<exists>t. refuses t d d') \<or>
     (\<exists>u. registered u d d') \<or> (\<exists>i. pin_updated i d d')"

definition step_change :: "database \<Rightarrow> database \<Rightarrow> bool" where
  "step_change d d' \<longleftrightarrow> money_change d d' \<and> system_ok d' \<and>
     table_evolves request_step pending (requests d) (requests d') \<and>
     table_evolves link_step is_active (links d) (links d')"

lemma tables_ok:
  "requests d' = requests d \<Longrightarrow> links d' = links d \<Longrightarrow> system_ok d \<Longrightarrow> books d' \<Longrightarrow> system_ok d'"
  by (simp add: system_ok_def request_ids_ok_def link_ids_ok_def)

lemma transfer_step_change:
  assumes ok: "system_ok (db w)" and run: "process_transfer P D s req w = (r, w')"
  shows "step_change (db w) (db w')"
proof -
  have b: "books (db w)" using ok by (simp add: system_ok_def)
  have "money_change (db w) (db w') \<and> requests (db w') = requests (db w) \<and> links (db w') = links (db w) \<and> books (db w')"
    using process_transfer_cases [OF run books_accounts [OF b]]
  proof (elim disjE conjE exE bexE)
    assume "only_events (db w) (db w')"
    then show ?thesis
      using b only_events_same_money same_money_books by (auto simp: money_change_def only_events_eq)
  next
    fix a rc out assume "outcome_effect out (db w) (db w')"
    with outcome_books [OF this b] show ?thesis
      by (cases out) (auto simp: money_change_def refuses_def)
  qed
  with tables_ok [OF _ _ ok] show ?thesis by (simp add: step_change_def)
qed

lemma request_change_step: "request_change d d' \<Longrightarrow> system_ok d \<Longrightarrow> step_change d d'"
  using request_change_books [of d d']
  by (auto simp: step_change_def money_change_def request_change_def system_ok_def link_ids_ok_def)

lemma link_change_step: "link_change d d' \<Longrightarrow> system_ok d \<Longrightarrow> step_change d d'"
  using link_change_books [of d d']
  by (auto simp: step_change_def money_change_def link_change_def system_ok_def request_ids_ok_def)

lemma system_op_change:
  assumes ok: "system_ok (db w)"
  shows "step_change (db w) (db (system_op P D act w))"
proof (cases act)
  case (AuthAction a)
  have c: "auth_change (db w) (db (auth_op P D a w))" by (rule auth_op_change)
  then have "money_change (db w) (db (auth_op P D a w))"
    by (auto simp: auth_change_def money_change_def only_events_same_money)
  with tables_ok [OF _ _ ok] auth_change_tables [OF c] auth_change_books [OF c] ok show ?thesis
    by (simp add: AuthAction step_change_def system_ok_def)
next
  case (SendTransfer s req)
  obtain r w' where run: "process_transfer P D s req w = (r, w')" by fastforce
  from transfer_step_change [OF ok run] show ?thesis by (simp add: SendTransfer run)
next
  case (OnRequest actor a)
  have c: "request_change (db w) (db (request_op P D actor a w))"
    using ok books_accounts by (intro request_op_change) (auto simp: system_ok_def)
  from request_change_step [OF c ok] show ?thesis by (simp add: OnRequest)
next
  case (OnLink actor a)
  have c: "link_change (db w) (db (link_op P D actor a w))"
    using ok by (intro link_op_change) (auto simp: system_ok_def)
  from link_change_step [OF c ok] show ?thesis by (simp add: OnLink)
next
  case (MarkRead u req)
  obtain r w' where run: "mark_notifications_read D u req w = (r, w')" by fastforce
  have m: "same_money (db w) (db w') \<and> requests (db w') = requests (db w) \<and> links (db w') = links (db w)"
    using mark_notifications_read_db [OF run] by (auto simp: same_money_def)
  with tables_ok [OF _ _ ok] same_money_books [of "db w" "db w'"] ok show ?thesis
    by (simp add: MarkRead run step_change_def money_change_def system_ok_def)
qed

lemma system_step_change:
  assumes "system_step P w w'" "system_ok (db w)"
  shows "step_change (db w) (db w')"
  using assms(1)
proof (rule system_stepE)
  fix D act assume "w' = system_op P D act w"
  with system_op_change [OF assms(2)] show ?thesis by simp
next
  assume "db w' = db w"
  with assms(2) show ?thesis by (simp add: step_change_def money_change_def)
qed

lemma reachable_ok: "reachable P w \<Longrightarrow> system_ok (db w)"
proof (induction rule: reachable.induct)
  case (start w)
  then show ?case by (simp add: system_ok_empty)
next
  case (step w w')
  with system_step_change show ?case by (auto simp: step_change_def)
qed

section \<open>Histories\<close>

text \<open>
  What any run of the service keeps: nothing that was booked is ever changed or removed, and the rows
  with a life cycle move by its steps only.
\<close>

definition extends :: "'a list \<Rightarrow> 'a list \<Rightarrow> bool" where
  "extends xs ys \<longleftrightarrow> (\<exists>new. ys = xs @ new)"

lemma extends_refl [simp]: "extends xs xs"
  by (simp add: extends_def)

lemma extends_trans: "extends xs ys \<Longrightarrow> extends ys zs \<Longrightarrow> extends xs zs"
  by (auto simp: extends_def)

lemma extends_set: "extends xs ys \<Longrightarrow> x \<in> set xs \<Longrightarrow> x \<in> set ys"
  by (auto simp: extends_def)

definition evolves :: "database \<Rightarrow> database \<Rightarrow> bool" where
  "evolves d d' \<longleftrightarrow> extends (ledger d) (ledger d') \<and> extends (transfers d) (transfers d') \<and>
     extends (history d) (history d') \<and> extends (map u_id (users d)) (map u_id (users d')) \<and>
     table_evolves request_step pending (requests d) (requests d') \<and>
     table_evolves link_step is_active (links d) (links d')"

lemma evolves_refl [simp]: "evolves d d"
  by (simp add: evolves_def)

lemma evolves_trans: "evolves a b \<Longrightarrow> evolves b c \<Longrightarrow> evolves a c"
  unfolding evolves_def
  by (elim conjE, intro conjI) (erule (1) extends_trans table_evolves_trans)+

lemma money_change_extends:
  assumes "money_change d d'"
  shows "extends (ledger d) (ledger d') \<and> extends (transfers d) (transfers d') \<and>
     extends (history d) (history d') \<and> extends (map u_id (users d)) (map u_id (users d'))"
proof -
  have pin: "map u_id (users d') = map u_id (users d) \<and> ledger d' = ledger d \<and> transfers d' = transfers d \<and>
      history d' = history d" if "pin_updated i d d'" for i
    using that by (auto simp: pin_updated_def only_events_eq map_update_where)
  have mv: "extends (ledger d) (ledger d') \<and> extends (transfers d) (transfers d') \<and>
      extends (history d) (history d') \<and> users d' = users d" if "moves t d d'" for t
    using that by (auto simp: moves_def same_money_def post_movement_def Let_def extends_def)
  from assms show ?thesis unfolding money_change_def
    by (elim disjE exE) (auto simp: same_money_def refuses_def registered_def extends_def dest: mv pin)
qed

lemma step_change_evolves: "step_change d d' \<Longrightarrow> evolves d d'"
  using money_change_extends by (simp add: step_change_def evolves_def)

lemma system_run_evolves:
  assumes "system_run P w w'" "system_ok (db w)"
  shows "evolves (db w) (db w') \<and> system_ok (db w')"
  using assms unfolding system_run_def
proof (induction rule: rtranclp_induct)
  case base
  then show ?case by simp
next
  case (step v v')
  then have ev: "evolves (db w) (db v)" "system_ok (db v)" by simp_all
  from system_step_change [OF step.hyps(2) ev(2)] step_change_evolves evolves_trans [OF ev(1)] show ?case
    by (auto simp: step_change_def)
qed

lemma system_run_reachable: "system_run P w w' \<Longrightarrow> reachable P w \<Longrightarrow> reachable P w'"
  unfolding system_run_def
  by (induction rule: rtranclp_induct) (auto intro: reachable.step)

section \<open>Keys\<close>

definition keys_ok :: "database \<Rightarrow> bool" where
  "keys_ok d \<longleftrightarrow> distinct (map t_idempotency_key (transfers d))"

lemma keys_ok_change: "money_change d d' \<Longrightarrow> keys_ok d \<Longrightarrow> keys_ok d'"
proof -
  assume c: "money_change d d'" and k: "keys_ok d"
  have mv: "keys_ok d'" if m: "moves t d d'" for t
  proof -
    from m have "transfers d' = transfers d @ [t]" "t_idempotency_key t \<notin> set (map t_idempotency_key (transfers d))"
      by (auto simp: moves_def same_money_def movable_def)
    with k show ?thesis by (simp add: keys_ok_def)
  qed
  have pin: "transfers d' = transfers d" if "pin_updated i d d'" for i
    using that by (auto simp: pin_updated_def only_events_eq)
  from c show "keys_ok d'" unfolding money_change_def
  proof (elim disjE exE)
    fix t assume "refuses t d d'"
    with k show ?thesis by (simp add: keys_ok_def refuses_def)
  next
    fix i assume "pin_updated i d d'"
    with pin k show ?thesis by (simp add: keys_ok_def)
  qed (use k mv in \<open>auto simp: keys_ok_def same_money_def registered_def\<close>)
qed

lemma reachable_keys: "reachable P w \<Longrightarrow> keys_ok (db w)"
proof (induction rule: reachable.induct)
  case (start w)
  then show ?case by (simp add: keys_ok_def empty_db_def)
next
  case (step w w')
  with system_step_change [OF step.hyps(2)] reachable_ok [OF step.hyps(1)] keys_ok_change
  show ?case by (auto simp: step_change_def)
qed

text \<open>Two movements of money never share a key, whoever made them.\<close>

lemma distinct_keys_eq:
  "distinct (map f xs) \<Longrightarrow> x \<in> set xs \<Longrightarrow> y \<in> set xs \<Longrightarrow> f x = f y \<Longrightarrow> x = y"
  by (metis distinct_map inj_onD)

lemma performs_run: "system_run P w (system_op P D act w)"
  unfolding system_run_def by (rule r_into_rtranclp) (rule system_step.performs)

lemma performs_reachable: "reachable P w \<Longrightarrow> reachable P (system_op P D act w)"
  by (rule reachable.step [OF _ system_step.performs])

end
