(* ===== verification/Threads.thy ===== *)
theory Threads
  imports System
begin

text \<open>
  The services as threads.  \<open>tokio\<close> may suspend a handler at every \<open>await\<close> and run others: a thread is a
  handler cut at its awaits, one step per statement of the pool, per transaction, per Redis command and per
  message, with the code between two awaits attached to the earlier one.  Each thread is written like the
  service it cuts and proved to do the same when nothing comes in between.
\<close>

section \<open>Threads\<close>

datatype ('r, 'a) thread =
    Done "app_error + 'a"
  | Await "'r world \<Rightarrow> 'r world \<times> ('r, 'a) thread"

definition await :: "('r, 'a) service \<Rightarrow> ('r, 'a) thread" where
  "await m = Await (\<lambda>w. case m w of (r, w') \<Rightarrow> (w', Done r))"

primrec tbnd :: "('r, 'a) thread \<Rightarrow> ('a \<Rightarrow> ('r, 'b) thread) \<Rightarrow> ('r, 'b) thread" where
  "tbnd (Done r) k = (case r of Inl e \<Rightarrow> Done (Inl e) | Inr x \<Rightarrow> k x)"
| "tbnd (Await f) k = Await (map_prod id (\<lambda>t. tbnd t k) \<circ> f)"

definition tthn :: "('r, 'a) thread \<Rightarrow> ('r, 'b) thread \<Rightarrow> ('r, 'b) thread" where
  "tthn t u = tbnd t (\<lambda>_. u)"

definition tret :: "'a \<Rightarrow> ('r, 'a) thread" where
  "tret x = Done (Inr x)"

definition tthrow :: "app_error \<Rightarrow> ('r, 'a) thread" where
  "tthrow e = Done (Inl e)"

definition tlift :: "app_error + 'a \<Rightarrow> ('r, 'a) thread" where
  "tlift r = Done r"

definition tguard :: "bool \<Rightarrow> app_error \<Rightarrow> ('r, unit) thread" where
  "tguard b e = (if b then tret () else tthrow e)"

text \<open>What a handler answers, whichever service it runs.\<close>

datatype answer =
    RegisterAnswer register_response
  | LoginAnswer "login_response \<times> cookie"
  | LogoutAnswer "cookie list"
  | PinAnswer int
  | TransferAnswer "transfer_response \<times> bool"
  | RequestAnswer money_request_dto
  | AcceptAnswer "money_request_dto \<times> transfer_response"
  | LinkAnswer payment_link_dto
  | ClaimAnswer "transfer_response \<times> payment_link_dto"
  | ReadAnswer bool

definition tanswer :: "('a \<Rightarrow> answer) \<Rightarrow> ('r, 'a) thread \<Rightarrow> ('r, answer) thread" where
  "tanswer k t = tbnd t (\<lambda>x. tret (k x))"

definition answering :: "('a \<Rightarrow> answer) \<Rightarrow> ('r, 'a) service \<Rightarrow> ('r, answer) service" where
  "answering k m = bnd m (\<lambda>x. ret (k x))"

lemma snd_answering [simp]: "snd (answering k m w) = snd (m w)"
  by (simp add: answering_def bnd_def ret_def split: prod.split sum.split)

text \<open>The service that a thread is when nothing comes in between.\<close>

primrec run :: "('r, 'a) thread \<Rightarrow> ('r, 'a) service" where
  "run (Done r) = lift r"
| "run (Await f) = (\<lambda>w. case (map_prod id run \<circ> f) w of (w', m) \<Rightarrow> m w')"

named_theorems run_simps "the service that a thread is"

lemma run_await [run_simps]: "run (await m) = m"
  by (auto simp: await_def lift_def split: prod.splits)

lemma run_tbnd [run_simps]: "run (tbnd t k) = bnd (run t) (\<lambda>x. run (k x))"
proof (induction t)
  case (Done r)
  then show ?case by (cases r) (auto simp: bnd_def lift_def)
next
  case (Await f)
  have "run (tbnd (Await f) k) w = bnd (run (Await f)) (\<lambda>x. run (k x)) w" for w
  proof (cases "f w")
    case (Pair w' t)
    then have "t \<in> Basic_BNFs.snds (f w)" by simp
    from Await.IH [OF rangeI this] Pair show ?thesis by (simp add: bnd_def)
  qed
  then show ?case by blast
qed

lemma run_tthn [run_simps]: "run (tthn t u) = thn (run t) (run u)"
  by (simp add: tthn_def thn_def run_tbnd)

lemma run_pure [run_simps]:
  "run (tret x) = ret x" "run (tthrow e) = throw e" "run (tlift r) = lift r" "run (tguard b e) = guard b e"
  by (simp_all add: tret_def tthrow_def tlift_def tguard_def guard_def ret_def throw_def lift_def)

lemma run_tanswer [run_simps]: "run (tanswer k t) = answering k (run t)"
  by (simp add: tanswer_def answering_def run_tbnd run_pure)

lemma run_if [run_simps]: "run (if b then t else u) = (if b then run t else run u)"
  by simp

lemma run_case_option [run_simps]:
  "run (case x of None \<Rightarrow> t | Some y \<Rightarrow> f y) = (case x of None \<Rightarrow> run t | Some y \<Rightarrow> run (f y))"
  by (simp split: option.split)

lemma run_case_prod [run_simps]: "run (case p of (x, y) \<Rightarrow> f x y) = (case p of (x, y) \<Rightarrow> run (f x y))"
  by (simp split: prod.split)

lemma run_let [run_simps]: "run (let x = v in f x) = (let x = v in run (f x))"
  by (simp add: Let_def)

section \<open>The PIN guard and recipients\<close>

definition pin_failure_thread :: "'r platform \<Rightarrow> draws \<Rightarrow> uuid \<Rightarrow> ('r, unit) thread" where
  "pin_failure_thread P D user_id =
     tbnd (await (redis_call (rd_incr (rds P) (clock D 1) (pin_key P user_id) 1))) (\<lambda>reply.
     let new_failures = var_or reply 1 in
     tthn (await (redis_write (rd_expire (rds P) (clock D 2) (pin_key P user_id) PIN_LOCKOUT_SECONDS)))
     (tthn (await (discard (log_event (clock D 3) ''auth'' user_id ''pin_failed'' (Some user_id)
             ''Incorrect transaction PIN entered''
             (JObj [(''failure_count'', JInt new_failures)]))))
     (if new_failures \<ge> MAX_PIN_FAILURES then tthrow pin_locked_now else tthrow pin_incorrect)))"

definition enforce_user_pin_thread :: "'r platform \<Rightarrow> draws \<Rightarrow> uuid \<Rightarrow> str \<Rightarrow> ('r, unit) thread" where
  "enforce_user_pin_thread P D user_id provided_pin =
     tbnd (await (redis_read (\<lambda>r. var_or (rd_get_i64 (rds P) (clock D 0) (pin_key P user_id) r) 0))) (\<lambda>failures.
     tthn (tguard (\<not> failures \<ge> MAX_PIN_FAILURES) pin_locked)
     (tbnd (await (pool_fetch (\<lambda>d. map_option u_pin_hash (find (\<lambda>u. u_id u = user_id) (users d))))) (\<lambda>row.
      tbnd (tlift (ok_or row (NotFound ''User not found''))) (\<lambda>pin_hash.
      tbnd (tlift (verify_pin_hash P provided_pin pin_hash)) (\<lambda>is_valid.
      if \<not> is_valid then pin_failure_thread P D user_id
      else await (redis_write (rd_del (rds P) (clock D 4) (pin_key P user_id))))))))"

lemma run_pin [run_simps]: "run (enforce_user_pin_thread P D u pin) = enforce_user_pin P D u pin"
  by (simp add: enforce_user_pin_thread_def pin_failure_thread_def enforce_user_pin_def pin_failure_def
      run_simps cong: if_cong)

definition resolve_by_text_thread :: "str \<Rightarrow> ('r, uuid) thread" where
  "resolve_by_text_thread trimmed =
     tbnd (await (pool_fetch (select_recipient trimmed (normalize_phone trimmed)))) (\<lambda>row.
     case row of
       Some r \<Rightarrow> tlift (active_id r)
     | None \<Rightarrow> tthrow (NotFound ''Recipient not found''))"

definition resolve_recipient_thread :: "'r platform \<Rightarrow> str \<Rightarrow> ('r, uuid) thread" where
  "resolve_recipient_thread P identifier =
     (let trimmed = trim identifier in
      case uuid_from_str P trimmed of
        Some i \<Rightarrow>
          tbnd (await (pool_fetch (\<lambda>d. find (\<lambda>u. u_id u = i) (users d)))) (\<lambda>row.
          case row of Some r \<Rightarrow> tlift (active_id r) | None \<Rightarrow> resolve_by_text_thread trimmed)
      | None \<Rightarrow> resolve_by_text_thread trimmed)"

lemma run_resolve [run_simps]: "run (resolve_recipient_thread P s) = resolve_recipient P s"
  by (simp add: resolve_recipient_thread_def resolve_by_text_thread_def resolve_recipient_def
      resolve_recipient_user_def resolve_by_text_def run_simps cong: option.case_cong)

section \<open>Transfers\<close>

definition announce_transfer_thread ::
  "'r platform \<Rightarrow> draws \<Rightarrow> str \<Rightarrow> uuid \<Rightarrow> uuid \<Rightarrow> int \<Rightarrow> str \<Rightarrow> ('r, transfer_response \<times> bool) thread" where
  "announce_transfer_thread P D reference sender recipient amount note =
     await (announce_transfer P D reference sender recipient amount note)"

definition add_daily_outflow_thread :: "'r platform \<Rightarrow> draws \<Rightarrow> uuid \<Rightarrow> int \<Rightarrow> ('r, int) thread" where
  "add_daily_outflow_thread P D sender amount =
     tbnd (await (redis_call (rd_incr (rds P) (clock D 11) (velocity_key P D sender) amount))) (\<lambda>reply.
     tthn (await (redis_write (rd_expire (rds P) (clock D 11) (velocity_key P D sender) 86400)))
     (tret (var_or reply 0)))"

definition fresh_transfer_thread ::
  "'r platform \<Rightarrow> draws \<Rightarrow> uuid \<Rightarrow> uuid \<Rightarrow> int \<Rightarrow> str \<Rightarrow> uuid \<Rightarrow> ('r, transfer_response \<times> bool) thread" where
  "fresh_transfer_thread P D sender recipient amount note key =
     (let reference = generate_trx_reference D in
      if amount > PER_TRANSFER_CAP_PAISA
      then await (reject_over_cap D reference sender recipient amount note key)
      else tbnd (add_daily_outflow_thread P D sender amount) (\<lambda>new_daily_total.
        if new_daily_total > DAILY_OUTFLOW_CAP_PAISA
        then await (flag_daily_outflow D reference sender recipient amount note key new_daily_total)
        else tthn (await (transaction (execute_transfer P D reference sender recipient amount note key)))
               (announce_transfer_thread P D reference sender recipient amount note)))"

definition process_transfer_thread ::
  "'r platform \<Rightarrow> draws \<Rightarrow> uuid \<Rightarrow> create_transfer_request \<Rightarrow> ('r, transfer_response \<times> bool) thread" where
  "process_transfer_thread P D sender_id req =
     tthn (enforce_user_pin_thread P D sender_id (ct_pin req))
     (tbnd (tlift (parse_amount (ct_amount_paisa req))) (\<lambda>amount.
      tbnd (resolve_recipient_thread P (ct_recipient req)) (\<lambda>recipient_id.
      tthn (tguard (\<not> sender_id = recipient_id) (BadRequest ''Self transfers are not permitted''))
      (tbnd (await (pool_fetch (find_transfer_by_key (ct_idempotency_key req)))) (\<lambda>existing_row.
       tbnd (tlift (check_replay sender_id recipient_id (as_paisa amount) existing_row)) (\<lambda>replay.
       case replay of
         Some resp \<Rightarrow> tret (resp, True)
       | None \<Rightarrow> fresh_transfer_thread P D sender_id recipient_id (as_paisa amount)
                   (clean_note (ct_note req)) (ct_idempotency_key req)))))))"

lemma run_transfer [run_simps]: "run (process_transfer_thread P D s req) = process_transfer P D s req"
  by (simp add: process_transfer_thread_def fresh_transfer_thread_def add_daily_outflow_thread_def
      announce_transfer_thread_def process_transfer_def fresh_transfer_def add_daily_outflow_def run_simps
      Let_def cong: if_cong option.case_cong)

section \<open>Requests\<close>

definition create_request_thread ::
  "'r platform \<Rightarrow> draws \<Rightarrow> uuid \<Rightarrow> create_money_request \<Rightarrow> ('r, money_request_dto) thread" where
  "create_request_thread P D requester_id req =
     tbnd (tlift (parse_amount (cm_amount_paisa req))) (\<lambda>amount.
     tbnd (resolve_recipient_thread P (cm_debtor req)) (\<lambda>debtor_id.
     tthn (tguard (\<not> requester_id = debtor_id) (BadRequest ''Cannot request money from yourself''))
     (let r = pending_request D requester_id debtor_id (as_paisa amount) (clean_note (cm_note req)) in
      tthn (await (transaction (create_request_tx P D r)))
      (tret ((request_dto r ''pending'' None None None)\<lparr>mr_created_at := clock D 31\<rparr>)))))"

definition accept_request_thread ::
  "'r platform \<Rightarrow> draws \<Rightarrow> uuid \<Rightarrow> uuid \<Rightarrow> accept_money_request \<Rightarrow>
     ('r, money_request_dto \<times> transfer_response) thread" where
  "accept_request_thread P D actor_id request_id payload =
     tthn (enforce_user_pin_thread P D actor_id (am_pin payload))
     (tbnd (await (transaction (accept_request_tx P D actor_id request_id (am_idempotency_key payload)))) (\<lambda>r.
      let t = payment_of D r (am_idempotency_key payload) in
      tthn (await (dispatch_email P (uuid_to_string P (r_requester_id r) @ ''@pstupay.local'')
             (''Money Request Paid - '' @ t_reference t)
             [Text ''Your money request of '', TakaAmount (r_amount_paisa r),
              Text ('' has been paid.'' @ [CHR 10] @ ''TrxID: '' @ t_reference t @ [CHR 10] @ ''Note: '' @
                r_note r @ [CHR 10] @ ''Thank you,'' @ [CHR 10] @ ''PSTU Pay Team'')]))
      (tret (request_dto r ''accepted'' (Some (clock D 31)) None None,
            (response_of_row t)\<lparr>tr_created_at := clock D 31\<rparr>))))"

text \<open>Rejecting and cancelling have a single \<open>await\<close>ed transaction.\<close>

fun request_thread :: "'r platform \<Rightarrow> draws \<Rightarrow> uuid \<Rightarrow> request_action \<Rightarrow> ('r, answer) thread" where
  "request_thread P D actor (CreateRequest req) = tanswer RequestAnswer (create_request_thread P D actor req)"
| "request_thread P D actor (AcceptRequest i payload) =
     tanswer AcceptAnswer (accept_request_thread P D actor i payload)"
| "request_thread P D actor (RejectRequest i) = tanswer RequestAnswer (await (reject_request D actor i))"
| "request_thread P D actor (CancelRequest i) = tanswer RequestAnswer (await (cancel_request D actor i))"

fun request_service :: "'r platform \<Rightarrow> draws \<Rightarrow> uuid \<Rightarrow> request_action \<Rightarrow> ('r, answer) service" where
  "request_service P D actor (CreateRequest req) = answering RequestAnswer (create_request P D actor req)"
| "request_service P D actor (AcceptRequest i payload) = answering AcceptAnswer (accept_request P D actor i payload)"
| "request_service P D actor (RejectRequest i) = answering RequestAnswer (reject_request D actor i)"
| "request_service P D actor (CancelRequest i) = answering RequestAnswer (cancel_request D actor i)"

lemma run_requests:
  "run (create_request_thread P D u req) = create_request P D u req"
  "run (accept_request_thread P D u i payload) = accept_request P D u i payload"
  by (simp_all add: create_request_thread_def create_request_def accept_request_thread_def accept_request_def
      run_simps Let_def)

lemma run_request_thread: "run (request_thread P D u act) = request_service P D u act"
  by (cases act) (simp_all add: run_requests run_simps)

lemma request_service_op: "snd (request_service P D u act w) = request_op P D u act w"
  by (cases act) simp_all

section \<open>Links\<close>

definition create_link_thread ::
  "'r platform \<Rightarrow> draws \<Rightarrow> uuid \<Rightarrow> create_payment_link_request \<Rightarrow> ('r, payment_link_dto) thread" where
  "create_link_thread P D creator_id req =
     tthn (enforce_user_pin_thread P D creator_id (cl_pin req))
     (tbnd (tlift (parse_amount (cl_amount_paisa req))) (\<lambda>amount.
      let ttl_secs = var_or (cl_expires_in_seconds req) (default_link_ttl_secs (config P)) in
      if \<not> (MIN_LINK_TTL_SECS \<le> ttl_secs \<and> ttl_secs \<le> MAX_LINK_TTL_SECS)
      then tthrow (BadRequest (''expires_in_seconds must be between '' @ show_int MIN_LINK_TTL_SECS @
             '' and '' @ show_int MAX_LINK_TTL_SECS @ '' seconds''))
      else (let k = active_link D creator_id (as_paisa amount) (clean_note (cl_note req)) ttl_secs in
       tthn (await (transaction (create_link_tx P D ttl_secs k)))
       (tret (link_dto k ''active'' None None None None)))))"

text \<open>The look-up and the lazy expiry are two statements of the pool.\<close>

definition get_link_by_token_thread :: "draws \<Rightarrow> str \<Rightarrow> ('r, payment_link_dto) thread" where
  "get_link_by_token_thread D token =
     tbnd (await (pool_fetch (link_with_creator token))) (\<lambda>row.
     tbnd (tlift (ok_or row (NotFound ''Payment link not found''))) (\<lambda>(k, u).
     let lapsed = (k_status k = ''active'' \<and> k_expires_at k < clock D 41);
         status = (if lapsed then ''expired'' else k_status k) in
     tthn (if lapsed then await (discard (pool_execute (update_link (k_id k) expire_link))) else tret ())
     (tret (link_dto k status (Some (u_name u)) (k_claimed_at k) (k_cancelled_at k) None))))"

definition claim_link_thread ::
  "'r platform \<Rightarrow> draws \<Rightarrow> uuid \<Rightarrow> str \<Rightarrow> claim_payment_link_request \<Rightarrow>
     ('r, transfer_response \<times> payment_link_dto) thread" where
  "claim_link_thread P D claimer_id token payload =
     tthn (enforce_user_pin_thread P D claimer_id (cp_pin payload))
     (tbnd (await (transaction_unless leaves_uncommitted
             (claim_link_tx P D claimer_id token (cp_idempotency_key payload)))) (\<lambda>res.
      case res of
        Replayed k tid tref \<Rightarrow> tret (claim_response D claimer_id k tid tref (k_created_at k))
      | FoundExpired \<Rightarrow> tthrow (Gone ''Payment link has expired'')
      | ClaimedNow k \<Rightarrow>
          tthn (await (dispatch_email P (uuid_to_string P (k_creator_id k) @ ''@pstupay.local'')
                 (''Payment Link Claimed - '' @ generate_trx_reference D)
                 [Text ''Your payment link for '', TakaAmount (k_amount_paisa k),
                  Text ('' has been claimed.'' @ [CHR 10] @ ''TrxID: '' @ generate_trx_reference D @ [CHR 10] @
                    ''Thank you,'' @ [CHR 10] @ ''PSTU Pay Team'')]))
          (tret (claim_response D claimer_id k (new_v4 D 41) (generate_trx_reference D) (clock D 42)))))"

fun link_thread :: "'r platform \<Rightarrow> draws \<Rightarrow> uuid \<Rightarrow> link_action \<Rightarrow> ('r, answer) thread" where
  "link_thread P D actor (CreateLink req) = tanswer LinkAnswer (create_link_thread P D actor req)"
| "link_thread P D actor (ViewLink token) = tanswer LinkAnswer (get_link_by_token_thread D token)"
| "link_thread P D actor (ClaimLink token payload) = tanswer ClaimAnswer (claim_link_thread P D actor token payload)"
| "link_thread P D actor (CancelLink token) = tanswer LinkAnswer (await (cancel_link D actor token))"

fun link_service :: "'r platform \<Rightarrow> draws \<Rightarrow> uuid \<Rightarrow> link_action \<Rightarrow> ('r, answer) service" where
  "link_service P D actor (CreateLink req) = answering LinkAnswer (create_link P D actor req)"
| "link_service P D actor (ViewLink token) = answering LinkAnswer (get_link_by_token D token)"
| "link_service P D actor (ClaimLink token payload) = answering ClaimAnswer (claim_link P D actor token payload)"
| "link_service P D actor (CancelLink token) = answering LinkAnswer (cancel_link D actor token)"

lemma run_claim_result [run_simps]:
  "run (case res of Replayed k i s \<Rightarrow> f k i s | FoundExpired \<Rightarrow> t | ClaimedNow k \<Rightarrow> g k) =
     (case res of Replayed k i s \<Rightarrow> run (f k i s) | FoundExpired \<Rightarrow> run t | ClaimedNow k \<Rightarrow> run (g k))"
  by (cases res) simp_all

lemma run_links:
  "run (create_link_thread P D u req) = create_link P D u req"
  "run (get_link_by_token_thread D token) = get_link_by_token D token"
  "run (claim_link_thread P D u token payload) = claim_link P D u token payload"
  by (simp_all add: create_link_thread_def create_link_def get_link_by_token_thread_def get_link_by_token_def
      claim_link_thread_def claim_link_def run_simps Let_def cong: if_cong claim_result.case_cong)

lemma run_link_thread: "run (link_thread P D u act) = link_service P D u act"
  by (cases act) (simp_all add: run_links run_simps)

lemma link_service_op: "snd (link_service P D u act w) = link_op P D u act w"
  by (cases act) simp_all

section \<open>Accounts and sessions\<close>

definition register_user_thread ::
  "'r platform \<Rightarrow> draws \<Rightarrow> register_request \<Rightarrow> ('r, register_response) thread" where
  "register_user_thread P D req =
     (let phone_clean = trim (rr_phone req); name_clean = trim (rr_name req) in
      tbnd (await (pool_fetch (\<lambda>d. find (\<lambda>u. u_phone u = phone_clean) (users d)))) (\<lambda>existing.
      tthn (tguard (existing = None) (Conflict ''Phone number is already registered''))
      (tbnd (tlift (hash_password P (salt D 0) (rr_password req))) (\<lambda>password_hash.
       tbnd (tlift (hash_pin P (salt D 1) (rr_pin req))) (\<lambda>pin_hash.
       let u = new_user D name_clean phone_clean password_hash pin_hash in
       tthn (await (transaction (register_tx D u)))
       (tthn (await (dispatch_email P (phone_clean @ ''@pstupay.local'') ''Welcome to PSTU Pay''
               [Text (''Hello '' @ name_clean @ '','' @ [CHR 10, CHR 10] @ ''Your account '' @
                  u_account_number u @ '' has been created with initial seed funding of ''),
                TakaAmount SEED_BALANCE_PAISA,
                Text (''.'' @ [CHR 10] @ ''Funding TrxID: '' @ generate_funding_reference D @
                  [CHR 10, CHR 10] @ ''Thank you,'' @ [CHR 10] @ ''PSTU Pay Team'')]))
       (tret \<lparr>rs_id = u_id u, rs_account_number = u_account_number u, rs_name = name_clean,
             rs_phone = phone_clean, rs_balance = show_int SEED_BALANCE_PAISA,
             rs_created_at = clock D 50\<rparr>)))))))"

definition count_login_failure_thread :: "'r platform \<Rightarrow> draws \<Rightarrow> str \<Rightarrow> ('r, int) thread" where
  "count_login_failure_thread P D phone =
     tbnd (await (redis_call (rd_incr (rds P) (clock D 52) (login_key phone) 1))) (\<lambda>reply.
     tthn (await (redis_write (rd_expire (rds P) (clock D 52) (login_key phone) LOCKOUT_DURATION_SECS)))
     (tret (var_or reply 1)))"

definition wrong_password_thread :: "'r platform \<Rightarrow> draws \<Rightarrow> str \<Rightarrow> uuid \<Rightarrow> ('r, 'a) thread" where
  "wrong_password_thread P D phone user_id =
     tbnd (count_login_failure_thread P D phone) (\<lambda>new_failures.
     tthn (await (discard (log_event (clock D 53) ''auth'' user_id ''login_failed'' (Some user_id)
            ''Failed login attempt (incorrect password)''
            (JObj [(''failure_count'', JInt new_failures)]))))
     (if new_failures \<ge> MAX_LOGIN_FAILURES then tthrow login_locked else tthrow login_invalid))"

definition unknown_phone_thread :: "'r platform \<Rightarrow> draws \<Rightarrow> str \<Rightarrow> ('r, 'a) thread" where
  "unknown_phone_thread P D phone =
     tbnd (count_login_failure_thread P D phone) (\<lambda>new_failures.
     if new_failures \<ge> MAX_LOGIN_FAILURES then tthrow login_locked else tthrow login_invalid)"

definition open_session_thread :: "'r platform \<Rightarrow> draws \<Rightarrow> str \<Rightarrow> user_row \<Rightarrow> balance_row \<Rightarrow>
    ('r, login_response \<times> cookie) thread" where
  "open_session_thread P D phone u b =
     (let token = generate_session_token D; ttl = session_ttl_secs (config P) in
      tthn (await (redis_write (rd_del (rds P) (clock D 54) (login_key phone))))
      (tthn (await (redis_write (rd_set_ex (rds P) (clock D 55) (session_key token) (uuid_to_string P (u_id u)) ttl)))
      (tthn (await (redis_write (rd_sadd (rds P) (clock D 56) (user_sessions_key P (u_id u)) token)))
      (tthn (await (discard (log_event (clock D 57) ''auth'' (u_id u) ''login_success'' (Some (u_id u))
              ''Successful user login'' (JObj []))))
      (tret (\<lparr>lr_user = \<lparr>ud_id = u_id u, ud_account_number = u_account_number u, ud_name = u_name u,
                        ud_phone = u_phone u, ud_created_at = u_created_at u\<rparr>,
             lr_balance = show_int (b_amount_paisa b)\<rparr>,
            \<lparr>ck_name = ''sid'', ck_value = token, ck_http_only = True,
             ck_path = ''/'', ck_same_site = ''Lax'', ck_max_age = ttl\<rparr>))))))"

definition login_user_thread ::
  "'r platform \<Rightarrow> draws \<Rightarrow> login_request \<Rightarrow> ('r, login_response \<times> cookie) thread" where
  "login_user_thread P D req =
     (let phone = trim (lg_phone req) in
      tbnd (await (redis_read (\<lambda>r. var_or (rd_get_i64 (rds P) (clock D 50) (login_key phone) r) 0))) (\<lambda>failures.
      tthn (tguard (\<not> failures \<ge> MAX_LOGIN_FAILURES) login_locked)
      (tbnd (await (pool_fetch (user_with_balance phone))) (\<lambda>row.
       case row of
         None \<Rightarrow> unknown_phone_thread P D phone
       | Some (u, b) \<Rightarrow>
           tthn (tguard (\<not> u_status u \<noteq> ''active'') (Forbidden ''Account is suspended or locked''))
           (tbnd (tlift (verify_password P (lg_password req) (u_password_hash u))) (\<lambda>password_ok.
            if \<not> password_ok then wrong_password_thread P D phone (u_id u)
            else open_session_thread P D phone u b))))))"

definition logout_user_thread :: "'r platform \<Rightarrow> draws \<Rightarrow> uuid \<Rightarrow> cookies \<Rightarrow> ('r, cookie list) thread" where
  "logout_user_thread P D user_id cookies =
     tbnd (case map_of cookies ''sid'' of
            None \<Rightarrow> tret []
          | Some session_token \<Rightarrow>
              tthn (await (redis_write (rd_del (rds P) (clock D 61) (session_key session_token))))
              (tthn (await (redis_write (rd_srem (rds P) (clock D 62) (user_sessions_key P user_id) session_token)))
              (tret [\<lparr>ck_name = ''sid'', ck_value = [], ck_http_only = False,
                    ck_path = ''/'', ck_same_site = ''Lax'', ck_max_age = 0\<rparr>]))) (\<lambda>set_cookies.
     tthn (await (discard (log_event (clock D 63) ''auth'' user_id ''logout'' (Some user_id) ''User logged out''
            (JObj []))))
     (tret set_cookies))"

definition change_pin_thread :: "'r platform \<Rightarrow> draws \<Rightarrow> uuid \<Rightarrow> pin_change_req \<Rightarrow> ('r, int) thread" where
  "change_pin_thread P D user_id req =
     tthn (enforce_user_pin_thread P D user_id (pc_current_pin req))
     (tbnd (tlift (hash_pin P (salt D 2) (pc_new_pin req))) (\<lambda>new_pin_hash.
      tthn (await (pool_execute (update_user_pin new_pin_hash (clock D 64) user_id)))
      (tthn (await (discard (log_event (clock D 65) ''auth'' user_id ''pin_changed'' (Some user_id)
              ''Transaction PIN changed successfully'' (JObj []))))
      (tret (clock D 64)))))"

fun drop_sessions_thread ::
  "'r platform \<Rightarrow> draws \<Rightarrow> str \<Rightarrow> str option \<Rightarrow> str list \<Rightarrow> ('r, unit) thread" where
  "drop_sessions_thread P D sessions_key current [] = tret ()"
| "drop_sessions_thread P D sessions_key current (sid # sids) =
     (if Some sid \<noteq> current
      then tthn (await (redis_write (rd_del (rds P) (clock D 67) (session_key sid))))
          (tthn (await (redis_write (rd_srem (rds P) (clock D 67) sessions_key sid)))
          (drop_sessions_thread P D sessions_key current sids))
      else drop_sessions_thread P D sessions_key current sids)"

definition reset_pin_thread ::
  "'r platform \<Rightarrow> draws \<Rightarrow> uuid \<Rightarrow> pin_reset_req \<Rightarrow> cookies \<Rightarrow> ('r, int) thread" where
  "reset_pin_thread P D user_id req cookies =
     tbnd (await (pool_fetch (\<lambda>d. map_option u_password_hash (find_user user_id d)))) (\<lambda>row.
     tbnd (tlift (ok_or row (NotFound ''User not found''))) (\<lambda>pass_hash.
     tbnd (tlift (verify_password P (pr_password req) pass_hash)) (\<lambda>pass_ok.
     tthn (tguard pass_ok (Unauthorized ''Incorrect login password for PIN reset''))
     (tbnd (tlift (hash_pin P (salt D 2) (pr_new_pin req))) (\<lambda>new_pin_hash.
      tthn (await (pool_execute (update_user_pin new_pin_hash (clock D 64) user_id)))
      (tbnd (await (redis_read (\<lambda>r. var_or (rd_smembers (rds P) (clock D 66) (user_sessions_key P user_id) r) [])))
        (\<lambda>all_sids.
      tthn (drop_sessions_thread P D (user_sessions_key P user_id) (map_of cookies ''sid'') all_sids)
      (tthn (await (discard (log_event (clock D 68) ''auth'' user_id ''pin_reset'' (Some user_id)
              ''Transaction PIN reset via password; secondary sessions invalidated'' (JObj []))))
      (tthn (await (dispatch_email P (uuid_to_string P user_id @ ''@pstupay.local'')
              ''Security Alert: Transaction PIN Reset''
              [Text (''Your transaction PIN was recently reset using your account password. '' @
                 ''All secondary active sessions have been invalidated.'' @ [CHR 10] @
                 ''If you did not perform this action, please contact support immediately.'')]))
      (tret (clock D 64)))))))))))"

fun auth_thread :: "'r platform \<Rightarrow> draws \<Rightarrow> auth_action \<Rightarrow> ('r, answer) thread" where
  "auth_thread P D (Register req) = tanswer RegisterAnswer (register_user_thread P D req)"
| "auth_thread P D (Login req) = tanswer LoginAnswer (login_user_thread P D req)"
| "auth_thread P D (Logout u cookies) = tanswer LogoutAnswer (logout_user_thread P D u cookies)"
| "auth_thread P D (ChangePin u req) = tanswer PinAnswer (change_pin_thread P D u req)"
| "auth_thread P D (ResetPin u req cookies) = tanswer PinAnswer (reset_pin_thread P D u req cookies)"

fun auth_service :: "'r platform \<Rightarrow> draws \<Rightarrow> auth_action \<Rightarrow> ('r, answer) service" where
  "auth_service P D (Register req) = answering RegisterAnswer (register_user P D req)"
| "auth_service P D (Login req) = answering LoginAnswer (login_user P D req)"
| "auth_service P D (Logout u cookies) = answering LogoutAnswer (logout_user P D u cookies)"
| "auth_service P D (ChangePin u req) = answering PinAnswer (change_pin P D u req)"
| "auth_service P D (ResetPin u req cookies) = answering PinAnswer (reset_pin P D u req cookies)"

lemma run_drop_sessions [run_simps]:
  "run (drop_sessions_thread P D key current sids) = drop_sessions P D key current sids"
  by (induction sids) (simp_all add: run_simps)

lemma run_login_failures [run_simps]:
  "run (wrong_password_thread P D phone u) = wrong_password P D phone u"
  "run (unknown_phone_thread P D phone) = unknown_phone P D phone"
  by (simp_all add: wrong_password_thread_def unknown_phone_thread_def count_login_failure_thread_def
      wrong_password_def unknown_phone_def count_login_failure_def run_simps cong: if_cong)

lemma run_accounts:
  "run (register_user_thread P D req) = register_user P D req"
  "run (logout_user_thread P D u cookies) = logout_user P D u cookies"
  "run (change_pin_thread P D u cp) = change_pin P D u cp"
  "run (reset_pin_thread P D u rp cookies) = reset_pin P D u rp cookies"
  by (simp_all add: register_user_thread_def register_user_def logout_user_thread_def logout_user_def
      change_pin_thread_def change_pin_def reset_pin_thread_def reset_pin_def run_simps Let_def
      cong: option.case_cong)

lemma run_login: "run (login_user_thread P D req) = login_user P D req"
  by (simp add: login_user_thread_def login_user_def open_session_thread_def open_session_def run_simps Let_def
      cong: if_cong option.case_cong)

lemma run_auth_thread: "run (auth_thread P D act) = auth_service P D act"
  by (cases act) (simp_all add: run_accounts run_login run_simps)

lemma auth_service_op: "snd (auth_service P D act w) = auth_op P D act w"
  by (cases act) simp_all

section \<open>Every action\<close>

fun action_thread :: "'r platform \<Rightarrow> draws \<Rightarrow> action \<Rightarrow> ('r, answer) thread" where
  "action_thread P D (AuthAction act) = auth_thread P D act"
| "action_thread P D (SendTransfer sender req) = tanswer TransferAnswer (process_transfer_thread P D sender req)"
| "action_thread P D (OnRequest actor act) = request_thread P D actor act"
| "action_thread P D (OnLink actor act) = link_thread P D actor act"
| "action_thread P D (MarkRead reader req) = tanswer ReadAnswer (await (mark_notifications_read D reader req))"

text \<open>The services of the sequential model, with their answers.\<close>

fun action_service :: "'r platform \<Rightarrow> draws \<Rightarrow> action \<Rightarrow> ('r, answer) service" where
  "action_service P D (AuthAction act) = auth_service P D act"
| "action_service P D (SendTransfer sender req) = answering TransferAnswer (process_transfer P D sender req)"
| "action_service P D (OnRequest actor act) = request_service P D actor act"
| "action_service P D (OnLink actor act) = link_service P D actor act"
| "action_service P D (MarkRead reader req) = answering ReadAnswer (mark_notifications_read D reader req)"

text \<open>A handler that is not interrupted does what the sequential model of it does, and answers the same.\<close>

lemma run_action_service: "run (action_thread P D act) = action_service P D act"
  by (cases act) (simp_all add: run_auth_thread run_request_thread run_link_thread run_simps)

lemma action_service_op: "snd (action_service P D act w) = system_op P D act w"
  by (cases act) (simp_all add: auth_service_op request_service_op link_service_op)

lemma run_action_thread: "snd (run (action_thread P D act) w) = system_op P D act w"
  by (simp only: run_action_service action_service_op)

end
