(* ===== verification/Settlement.thy ===== *)
theory Settlement
  imports System "HOL-Library.Multiset"
begin

text \<open>
  What was asked for and what was paid (\<open>features/requests/service.rs\<close>, \<open>features/links/service.rs\<close>): the
  debits that the ledger books as payments of requests are, as a multiset, the accepted requests, and the
  debits that it books as payments of links are the claimed links.
\<close>

section \<open>Debts and payments\<close>

definition paid_as :: "str \<Rightarrow> database \<Rightarrow> (uuid \<times> uuid option \<times> int) multiset" where
  "paid_as kind d = mset (map (\<lambda>l. (l_user_id l, l_counterparty_id l, l_amount_paisa l))
     (filter (\<lambda>l. l_kind l = kind \<and> l_direction l = -1) (ledger d)))"

definition accepted_debts :: "database \<Rightarrow> (uuid \<times> uuid option \<times> int) multiset" where
  "accepted_debts d = mset (map (\<lambda>r. (r_debtor_id r, Some (r_requester_id r), r_amount_paisa r))
     (filter (\<lambda>r. r_status r = ''accepted'') (requests d)))"

definition claimed_debts :: "database \<Rightarrow> (uuid \<times> uuid option \<times> int) multiset" where
  "claimed_debts d = mset (map (\<lambda>k. (k_creator_id k, k_claimer_id k, k_amount_paisa k))
     (filter (\<lambda>k. k_claimer_id k \<noteq> None) (links d)))"

definition dead_link :: "link_row \<Rightarrow> bool" where
  "dead_link k \<longleftrightarrow> k_status k \<in> {''claimed'', ''expired'', ''cancelled''}"

definition settled :: "database \<Rightarrow> bool" where
  "settled d \<longleftrightarrow> paid_as ''request_paid'' d = accepted_debts d \<and> paid_as ''link_paid'' d = claimed_debts d \<and>
     (\<forall>k \<in> set (links d). \<not> dead_link k \<longrightarrow> k_claimer_id k = None)"

section \<open>Frames\<close>

lemma paid_as_frame: "ledger d' = ledger d \<Longrightarrow> paid_as kind d' = paid_as kind d"
  by (simp add: paid_as_def)

lemma paid_as_append:
  "ledger d' = ledger d @ new \<Longrightarrow> \<forall>l \<in> set new. l_direction l = -1 \<longrightarrow> l_kind l \<noteq> kind \<Longrightarrow>
     paid_as kind d' = paid_as kind d"
  by (auto simp: paid_as_def filter_empty_conv)

lemma booked_as_paid:
  assumes "booked_as kd t d d'"
  shows "paid_as kd d' = add_mset (t_sender_id t, Some (t_recipient_id t), t_amount_paisa t) (paid_as kd d)"
    and "kind \<noteq> kd \<Longrightarrow> paid_as kind d' = paid_as kind d"
  using assms by (auto simp: booked_as_def paid_as_def)

lemma settled_frame:
  "ledger d' = ledger d \<Longrightarrow> requests d' = requests d \<Longrightarrow> links d' = links d \<Longrightarrow> settled d' = settled d"
  by (simp add: settled_def paid_as_def accepted_debts_def claimed_debts_def)

text \<open>The update of one row, selected before or after.\<close>

lemma selected_update_same:
  assumes "\<And>x. x \<in> set xs \<Longrightarrow> p x \<Longrightarrow> Q (f x) = Q x \<and> g (f x) = g x"
  shows "map g (filter Q (update_where p f xs)) = map g (filter Q xs)"
  using assms by (induction xs) auto

lemma selected_update_new:
  assumes "distinct (map key xs)" "x \<in> set xs" "\<not> Q x" "Q (f x)"
  shows "mset (map g (filter Q (update_where (\<lambda>r. key r = key x) f xs))) =
    add_mset (g (f x)) (mset (map g (filter Q xs)))"
  using assms(1,2)
proof (induction xs)
  case (Cons y ys)
  show ?case
  proof (cases "y = x")
    case True
    with Cons.prems have "key x \<notin> set (map key ys)" by simp
    then have "update_where (\<lambda>r. key r = key x) f ys = ys" by (intro update_where_none) (force simp: image_iff)
    with True assms(3,4) show ?thesis by simp
  next
    case False
    with Cons.prems have "key y \<noteq> key x" "x \<in> set ys" by auto
    with Cons show ?thesis by simp
  qed
qed simp

section \<open>The steps of the program\<close>

lemma transfer_settles:
  "booked_as ''transfer_sent'' t d d' \<Longrightarrow> requests d' = requests d \<Longrightarrow> links d' = links d \<Longrightarrow> settled d \<Longrightarrow> settled d'"
  by (simp add: settled_def booked_as_paid(2) accepted_debts_def claimed_debts_def)

lemma registration_settles:
  assumes "registered u d d'" "settled d"
  shows "settled d'"
proof -
  from assms(1) obtain l where l: "ledger d' = ledger d @ [l]" "l_direction l = 1"
    and t: "requests d' = requests d" "links d' = links d" by (auto simp: registered_def)
  have "paid_as kind d' = paid_as kind d" for kind
    by (rule paid_as_append [OF l(1)]) (simp add: l(2))
  with assms(2) t show ?thesis by (simp add: settled_def accepted_debts_def claimed_debts_def)
qed

lemma acceptance_settles:
  assumes run: "runs (accept_request_tx P D actor i key) d x d'" and acc: "accounts_ok d"
    and ids: "request_ids_ok d" and s: "settled d"
  shows "settled d'"
proof -
  note a = accept_request_tx_runs [OF run acc]
  note f = find_request_Some [OF a(1)]
  have "accepted_debts d' = add_mset (r_debtor_id x, Some (r_requester_id x), r_amount_paisa x) (accepted_debts d)"
    using selected_update_new [of r_id "requests d" x "\<lambda>r. r_status r = ''accepted''"
        "resolve_as ''accepted'' (clock D 31)" "\<lambda>r. (r_debtor_id r, Some (r_requester_id r), r_amount_paisa r)"]
      ids f a(2,6)
    by (simp add: accepted_debts_def request_ids_ok_def resolve_as_def)
  with booked_as_paid [OF a(7)] a(5) s show ?thesis
    by (simp add: settled_def claimed_debts_def payment_of_def)
qed

lemma closing_settles:
  assumes run: "runs (close_request st D actor owner i ct ft reason) d x d'" and ids: "request_ids_ok d"
    and st: "st \<noteq> ''accepted''" and s: "settled d"
  shows "settled d'"
proof -
  note a = close_request_runs [OF run]
  note f = find_request_Some [OF a(1)]
  have only: "r = x" if "r \<in> set (requests d)" "r_id r = i" for r
    using that f ids by (metis distinct_map inj_onD request_ids_ok_def)
  have "accepted_debts d' = accepted_debts d"
    unfolding accepted_debts_def a(6)
    by (subst selected_update_same) (use only a(2) st in \<open>auto simp: resolve_as_def\<close>)
  moreover have "ledger d' = ledger d" using a(4) by (simp add: same_money_def)
  ultimately show ?thesis using s a(5) by (simp add: settled_def paid_as_def claimed_debts_def)
qed

lemma asking_settles:
  assumes "runs (create_request_tx P D r) d x d'" "r_status r = ''pending''" "settled d"
  shows "settled d'"
  using create_request_runs [OF assms(1)] assms(2,3)
  by (simp add: settled_def paid_as_def accepted_debts_def claimed_debts_def same_money_def)

lemma new_link_settles:
  assumes "runs (create_link_tx P D ttl k) d x d'" "k_claimer_id k = None" "settled d"
  shows "settled d'"
  using create_link_tx_runs [OF assms(1)] assms(2,3)
  by (auto simp: settled_def paid_as_def accepted_debts_def claimed_debts_def same_money_def)

lemma link_mark_settles:
  assumes "links d' = update_where p f (links d)" "requests d' = requests d" "ledger d' = ledger d" "settled d"
    and "\<And>k. k_claimer_id (f k) = k_claimer_id k \<and> k_creator_id (f k) = k_creator_id k \<and>
      k_amount_paisa (f k) = k_amount_paisa k \<and> dead_link (f k)"
  shows "settled d'"
proof -
  have "claimed_debts d' = claimed_debts d"
    unfolding claimed_debts_def assms(1) by (subst selected_update_same) (simp_all add: assms(5))
  moreover have "\<not> dead_link k \<longrightarrow> k_claimer_id k = None" if "k \<in> set (links d')" for k
    using set_update_where [OF that [unfolded assms(1)]] assms(4,5) by (auto simp: settled_def split: if_splits)
  ultimately show ?thesis using assms(2-4) by (simp add: settled_def paid_as_def accepted_debts_def)
qed

lemma claim_settles:
  assumes f: "find_link_by_token token d = Some k" and ids: "link_ids_ok d"
    and e: "claim_effect D c key x k d d'" and s: "settled d"
  shows "settled d'"
proof (cases x)
  case (Replayed k' tid tref)
  with e s show ?thesis by simp
next
  case FoundExpired
  with e have l: "links d' = update_where (\<lambda>q. k_id q = k_id k) expire_link (links d)" "requests d' = requests d"
    "ledger d' = ledger d" by (simp_all add: same_money_def)
  show ?thesis by (rule link_mark_settles [OF l s]) (simp add: expire_link_def dead_link_def)
next
  case (ClaimedNow k')
  let ?f = "mark_claimed c (new_v4 D 41) (clock D 42)"
  from ClaimedNow e have l: "links d' = update_where (\<lambda>q. k_id q = k_id k) ?f (links d)" "requests d' = requests d"
    and b: "booked_as ''link_paid'' (claim_payment D c k key) d d'" and st: "\<not> dead_link k"
    by (simp_all add: dead_link_def)
  have k: "k \<in> set (links d)" using find_link_by_token_Some [OF f] by simp
  with st s have "k_claimer_id k = None" by (simp add: settled_def)
  then have "claimed_debts d' = add_mset (k_creator_id k, Some c, k_amount_paisa k) (claimed_debts d)"
    using selected_update_new [of k_id "links d" k "\<lambda>k. k_claimer_id k \<noteq> None" ?f
        "\<lambda>k. (k_creator_id k, k_claimer_id k, k_amount_paisa k)"] ids k l(1)
    by (simp add: claimed_debts_def link_ids_ok_def mark_claimed_def)
  moreover have "\<not> dead_link q \<longrightarrow> k_claimer_id q = None" if "q \<in> set (links d')" for q
    using set_update_where [OF that [unfolded l(1)]] s
    by (auto simp: settled_def dead_link_def mark_claimed_def split: if_splits)
  ultimately show ?thesis
    using s booked_as_paid [OF b] l(2) by (simp add: settled_def accepted_debts_def claim_payment_def)
qed

end
