(* ===== verification/Scenario.thy ===== *)
theory Scenario
  imports System
begin

text \<open>
  A run of the service from the empty database, on which the properties of the whole system are
  evaluated: two people register, one pays the other, one asks for money and is refused, one makes a
  payment link and withdraws it.
\<close>

definition initial_world :: "kv world" where
  "initial_world = sample_world\<lparr>db := empty_db\<rparr>"

definition first_user_world :: "kv world" where
  "first_user_world = system_op sample_platform (sample_draws 1000 2)
     (AuthAction (Register sample_registration)) initial_world"

definition second_registration :: register_request where
  "second_registration = \<lparr>rr_name = ''Dave'', rr_phone = ''01700000004'', rr_password = ''password'',
     rr_pin = ''9999''\<rparr>"

definition two_users_world :: "kv world" where
  "two_users_world = system_op sample_platform (sample_draws 2000 3)
     (AuthAction (Register second_registration)) first_user_world"

definition carol :: uuid where "carol = Uuid 250"
definition dave :: uuid where "dave = Uuid 350"

definition paid_world :: "kv world" where
  "paid_world = system_op sample_platform (sample_draws 3000 4)
     (SendTransfer carol \<lparr>ct_recipient = ''01700000004'', ct_amount_paisa = ''5'', ct_note = None,
        ct_pin = ''4321'', ct_idempotency_key = Uuid 7\<rparr>) two_users_world"

definition asked_world :: "kv world" where
  "asked_world = system_op sample_platform (sample_draws 4000 5)
     (OnRequest carol (CreateRequest \<lparr>cm_debtor = ''01700000004'', cm_amount_paisa = ''20'',
        cm_note = None\<rparr>)) paid_world"

definition refused_world :: "kv world" where
  "refused_world = system_op sample_platform (sample_draws 5000 6)
     (OnRequest dave (RejectRequest (Uuid 530))) asked_world"

text \<open>The debtor changes his mind: too late.\<close>

definition too_late_world :: "kv world" where
  "too_late_world = system_op sample_platform (sample_draws 6000 7)
     (OnRequest dave (AcceptRequest (Uuid 530) \<lparr>am_pin = ''9999'', am_idempotency_key = Uuid 8\<rparr>)) refused_world"

definition carols_token :: str where
  "carols_token = generate_link_token (sample_draws 4000 5)"

definition linked_world :: "kv world" where
  "linked_world = system_op sample_platform (sample_draws 4000 5)
     (OnLink carol (CreateLink \<lparr>cl_amount_paisa = ''20'', cl_note = None,
        cl_expires_in_seconds = Some 60, cl_pin = ''4321''\<rparr>)) paid_world"

definition withdrawn_world :: "kv world" where
  "withdrawn_world = system_op sample_platform (sample_draws 5000 6)
     (OnLink carol (CancelLink carols_token)) linked_world"

definition claimed_late_world :: "kv world" where
  "claimed_late_world = system_op sample_platform (sample_draws 6000 7)
     (OnLink dave (ClaimLink carols_token \<lparr>cp_pin = ''9999'', cp_idempotency_key = Uuid 9\<rparr>)) withdrawn_world"

section \<open>What the run shows\<close>

lemma initial_reachable: "reachable sample_platform initial_world"
  by (rule reachable.start) (simp add: initial_world_def)

lemma initial_run: "system_run sample_platform initial_world first_user_world"
  unfolding first_user_world_def by (rule performs_run)

lemma first_user_reachable: "reachable sample_platform first_user_world"
  unfolding first_user_world_def by (rule performs_reachable) (rule initial_reachable)

lemma paid_reachable: "reachable sample_platform paid_world"
  unfolding paid_world_def two_users_world_def
  by (intro performs_reachable) (rule first_user_reachable)

lemma refused_reachable: "reachable sample_platform refused_world"
  unfolding refused_world_def asked_world_def
  by (intro performs_reachable) (rule paid_reachable)

lemma withdrawn_reachable: "reachable sample_platform withdrawn_world"
  unfolding withdrawn_world_def linked_world_def
  by (intro performs_reachable) (rule paid_reachable)

lemma first_user_phone: "map u_phone (users (db first_user_world)) = [''01700000003'']"
  by code_simp

lemma first_user_fates: "fates first_user_world = []"
  by code_simp

lemma paid_keys: "map t_idempotency_key (transfers (db paid_world)) = [Uuid 7]"
  by code_simp

lemma refused_keys: "map t_idempotency_key (transfers (db refused_world)) = [Uuid 7]"
  by code_simp

lemma refused_status: "map_option r_status (find_request (Uuid 530) (db refused_world)) = Some ''rejected''"
  by code_simp

lemma withdrawn_status:
  "map_option k_status (find_link_by_token carols_token (db withdrawn_world)) = Some ''cancelled''"
  by code_simp

end
