(* ===== verification/Concurrency.thy ===== *)
theory Concurrency
  imports Threads Settlement Scenario
begin

text \<open>
  The server with many handlers in flight: requests arrive at any time, and between any two awaits of one
  handler the others may run.  A transaction is one step, since its row locks (\<open>FOR UPDATE\<close>, taken in ascending
  order) serialise it with the others that touch its rows; everything else interleaves.  What a handler has
  read before it awaits may be out of date when it goes on.  The session extractor and the rate limits in front
  of a handler touch Redis alone: they are among the steps of the surroundings, which keep the database.
\<close>

section \<open>The machine\<close>

type_synonym 'r server = "'r world \<times> ('r, answer) thread list"

inductive server_step :: "'r platform \<Rightarrow> 'r server \<Rightarrow> 'r server \<Rightarrow> bool" for P where
  arrives: "server_step P (w, ts) (w, ts @ [action_thread P D act])"
| resumes: "i < length ts \<Longrightarrow> ts ! i = Await f \<Longrightarrow> server_step P (w, ts) (fst (f w), ts[i := snd (f w)])"
| surroundings: "db w' = db w \<Longrightarrow> server_step P (w, ts) (w', ts)"

inductive_cases server_stepE: "server_step P s s'"

definition server_run :: "'r platform \<Rightarrow> 'r server \<Rightarrow> 'r server \<Rightarrow> bool" where
  "server_run P = (server_step P)\<^sup>*\<^sup>*"

inductive served :: "'r platform \<Rightarrow> 'r server \<Rightarrow> bool" for P where
  empty: "db w = empty_db \<Longrightarrow> served P (w, [])"
| step: "served P s \<Longrightarrow> server_step P s s' \<Longrightarrow> served P s'"

text \<open>A schedule that runs one thread to its end, by its number of awaits.\<close>

fun resume :: "nat \<Rightarrow> 'r server \<Rightarrow> 'r server" where
  "resume i (w, ts) = (if i < length ts then
     (case ts ! i of Done r \<Rightarrow> (w, ts) | Await f \<Rightarrow> (case f w of (w', t) \<Rightarrow> (w', ts[i := t]))) else (w, ts))"

definition schedule :: "nat list \<Rightarrow> 'r server \<Rightarrow> 'r server" where
  "schedule is s = fold resume is s"

lemma resume_run: "server_run P s (resume i s)"
proof -
  obtain w ts where s: "s = (w, ts)" by (cases s)
  have "server_step P s (resume i s)"
  proof (cases "\<exists>f. i < length ts \<and> ts ! i = Await f")
    case True
    then obtain f where f: "i < length ts" "ts ! i = Await f" by blast
    from server_step.resumes [OF this, of P w] f show ?thesis by (simp add: s case_prod_beta)
  next
    case False
    then have "resume i s = (w, ts)" by (auto simp: s split: thread.split)
    with server_step.surroundings [of w w P ts] show ?thesis by (simp add: s)
  qed
  then show ?thesis unfolding server_run_def by (rule r_into_rtranclp)
qed

lemma server_run_trans: "server_run P a b \<Longrightarrow> server_run P b c \<Longrightarrow> server_run P a c"
  unfolding server_run_def by (rule rtranclp_trans)

lemma schedule_run: "server_run P s (schedule is s)"
proof (induction "is" arbitrary: s)
  case Nil
  then show ?case by (simp add: schedule_def server_run_def)
next
  case (Cons i "is")
  from server_run_trans [OF resume_run Cons.IH] show ?case by (simp add: schedule_def)
qed

lemma schedule_append: "schedule (is @ js) s = schedule js (schedule is s)"
  by (simp add: schedule_def)

lemma schedule_Nil [simp]: "schedule [] s = s"
  by (simp add: schedule_def)

text \<open>As many turns as a thread has awaits take it to its end: to the world and the answer of the service that it is.\<close>

lemma schedule_alone:
  "\<exists>n. schedule (replicate n (length us)) (w, us @ t # vs) = (snd (run t w), us @ Done (fst (run t w)) # vs)"
proof (induction t arbitrary: w)
  case (Done r)
  show ?case by (rule exI [of _ 0]) (simp add: lift_def)
next
  case (Await f)
  obtain v t where f: "f w = (v, t)" by (cases "f w")
  then have range: "(v, t) \<in> range f" by (metis rangeI)
  have "t \<in> Basic_BNFs.snds (v, t)" by simp
  from Await.IH [OF range this] obtain n where
    "schedule (replicate n (length us)) (v, us @ t # vs) = (snd (run t v), us @ Done (fst (run t v)) # vs)" by blast
  then show ?case by (intro exI [of _ "Suc n"]) (simp add: schedule_def f)
qed

section \<open>Guarantees\<close>

text \<open>\<open>guarded G t\<close>: each step of \<open>t\<close>, whatever database it meets, makes a change of \<open>G\<close>.\<close>

inductive guarded :: "(database \<Rightarrow> database \<Rightarrow> bool) \<Rightarrow> ('r, 'a) thread \<Rightarrow> bool" for G where
  guarded_Done: "guarded G (Done r)"
| guarded_Await: "(\<And>w. G (db w) (db (fst (f w))) \<and> guarded G (snd (f w))) \<Longrightarrow> guarded G (Await f)"

inductive_simps guarded_simps [simp]: "guarded G (Done r)" "guarded G (Await f)"

named_theorems guarded_rules "rules that show that a thread keeps a guarantee"

lemma guarded_await: "(\<And>w. G (db w) (db (snd (m w)))) \<Longrightarrow> guarded G (await m)"
  by (auto simp: await_def split: prod.split) (metis snd_conv)

lemma guarded_tbnd [guarded_rules]:
  assumes "guarded G t" "\<And>x. guarded G (k x)"
  shows "guarded G (tbnd t k)"
  using assms(1)
proof (induction rule: guarded.induct)
  case (guarded_Done r)
  then show ?case using assms(2) by (cases r) simp_all
next
  case (guarded_Await f)
  then show ?case by simp
qed

lemma guarded_tanswer [guarded_rules]: "guarded G t \<Longrightarrow> guarded G (tanswer k t)"
  unfolding tanswer_def by (rule guarded_tbnd) (simp_all add: tret_def)

lemma guarded_tthn [guarded_rules]: "guarded G t \<Longrightarrow> guarded G u \<Longrightarrow> guarded G (tthn t u)"
  unfolding tthn_def by (rule guarded_tbnd)

lemma guarded_pure [guarded_rules]:
  "guarded G (tret x)" "guarded G (tthrow e)" "guarded G (tlift v)" "guarded G (tguard b e)"
  by (simp_all add: tret_def tthrow_def tlift_def tguard_def)

lemma guarded_if [guarded_rules]: "guarded G t \<Longrightarrow> guarded G u \<Longrightarrow> guarded G (if b then t else u)"
  by simp

lemma guarded_option [guarded_rules]:
  "guarded G t \<Longrightarrow> (\<And>x. guarded G (f x)) \<Longrightarrow> guarded G (case v of None \<Rightarrow> t | Some x \<Rightarrow> f x)"
  by (cases v) simp_all

lemma guarded_prod [guarded_rules]: "(\<And>x y. guarded G (f x y)) \<Longrightarrow> guarded G (case p of (x, y) \<Rightarrow> f x y)"
  by (cases p) simp

lemma guarded_let [guarded_rules]: "(\<And>x. guarded G (f x)) \<Longrightarrow> guarded G (let x = v in f x)"
  by (simp add: Let_def)

lemma guarded_claim [guarded_rules]:
  "(\<And>k i s. guarded G (f k i s)) \<Longrightarrow> guarded G t \<Longrightarrow> (\<And>k. guarded G (g k)) \<Longrightarrow>
     guarded G (case v of Replayed k i s \<Rightarrow> f k i s | FoundExpired \<Rightarrow> t | ClaimedNow k \<Rightarrow> g k)"
  by (cases v) simp_all

section \<open>What every step keeps\<close>

text \<open>
  Under interleaving the life cycle of a link has one more step: the lazy expiry of
  \<open>get_link_by_token\<close> marks a link expired that it has seen active, whatever has become of it since.
\<close>

inductive link_race :: "link_row \<Rightarrow> link_row \<Rightarrow> bool" where
  in_order: "link_step k k' \<Longrightarrow> link_race k k'"
| late_expiry: "link_race k (expire_link k)"

inductive_cases link_raceE: "link_race k k'"

interpretation lr: life_cycle link_race k_id
  by unfold_locales (auto simp: expire_link_def mark_claimed_def mark_cancelled_def elim!: link_raceE)

definition shared_ok :: "database \<Rightarrow> bool" where
  "shared_ok d \<longleftrightarrow> system_ok d \<and> keys_ok d \<and> settled d"

definition shared_change :: "database \<Rightarrow> database \<Rightarrow> bool" where
  "shared_change d d' \<longleftrightarrow> money_change d d' \<and> table_evolves request_step pending (requests d) (requests d') \<and>
     table_evolves link_race is_active (links d) (links d')"

definition keeps_shared :: "database \<Rightarrow> database \<Rightarrow> bool" where
  "keeps_shared d d' \<longleftrightarrow> (shared_ok d \<longrightarrow> shared_ok d' \<and> shared_change d d')"

lemma table_race:
  assumes "table_evolves link_step is_active ks ks'"
  shows "table_evolves link_race is_active ks ks'"
proof -
  have r: "row_evolves link_race k k'" if "row_evolves link_step k k'" for k k'
    using that unfolding row_evolves_def
    by (induction rule: rtranclp_induct) (auto intro: rtranclp.rtrancl_into_rtrancl in_order)
  from assms obtain ys new where "ks' = ys @ new" "list_all2 (row_evolves link_step) ks ys"
    "\<forall>k \<in> set new. \<exists>k0. is_active k0 \<and> row_evolves link_step k0 k" by (auto simp: table_evolves_def)
  with r have "ks' = ys @ new \<and> list_all2 (row_evolves link_race) ks ys \<and>
      (\<forall>k \<in> set new. \<exists>k0. is_active k0 \<and> row_evolves link_race k0 k)" by (metis list_all2_mono)
  then show ?thesis unfolding table_evolves_def by blast
qed

text \<open>A step of the sequential model that settles is a step of this one.\<close>

lemma step_keeps_shared:
  assumes "system_ok d \<Longrightarrow> step_change d d'" "system_ok d \<Longrightarrow> settled d \<Longrightarrow> settled d'"
  shows "keeps_shared d d'"
  using assms keys_ok_change table_race
  by (auto simp: keeps_shared_def shared_ok_def shared_change_def step_change_def)

lemma keeps_shared_refl [simp]: "keeps_shared d d"
  by (simp add: keeps_shared_def shared_change_def money_change_def)

lemma keeps_shared_events: "only_events d d' \<Longrightarrow> keeps_shared d d'"
proof (rule step_keeps_shared)
  assume e: "only_events d d'"
  show "system_ok d \<Longrightarrow> step_change d d'"
    using e only_events_same_money [OF e] same_money_books [OF only_events_same_money [OF e]]
    by (simp add: step_change_def money_change_def system_ok_def request_ids_ok_def link_ids_ok_def only_events_eq)
  show "settled d \<Longrightarrow> settled d'" using settled_frame [of d' d] e by (simp add: only_events_eq)
qed

section \<open>The steps of the handlers\<close>

lemma system_ok_parts:
  "system_ok d \<Longrightarrow> accounts_ok d" "system_ok d \<Longrightarrow> request_ids_ok d" "system_ok d \<Longrightarrow> link_ids_ok d"
  using books_accounts by (simp_all add: system_ok_def)

lemma transaction_keeps:
  assumes "\<And>x d'. runs body d x d' \<Longrightarrow> keeps_shared d d'" "db w = d"
  shows "keeps_shared d (db (snd (transaction body w)))"
  using assms transaction_atomic [of body w] keeps_shared_refl by (metis prod.collapse)

lemma payment_keeps:
  assumes "runs (accept_request_tx P D actor i key) d x d'"
  shows "keeps_shared d d'"
proof (rule step_keeps_shared)
  assume ok: "system_ok d"
  note o = system_ok_parts [OF ok]
  show "step_change d d'" by (rule request_change_step [OF tx_request_change(1) [OF o(2,1) assms] ok])
  show "settled d \<Longrightarrow> settled d'" by (rule acceptance_settles [OF assms o(1,2)])
qed

lemma closing_keeps:
  assumes "runs (close_request st D actor owner i ct ft reason) d x d'" "st \<in> {''rejected'', ''cancelled''}"
  shows "keeps_shared d d'"
proof (rule step_keeps_shared)
  assume ok: "system_ok d"
  note o = system_ok_parts [OF ok]
  from assms(2) have st: "st \<in> {''accepted'', ''rejected'', ''cancelled''}" "st \<noteq> ''accepted''" by auto
  show "step_change d d'" by (rule request_change_step [OF tx_request_change(2) [OF o(2,1) assms(1) st(1)] ok])
  show "settled d \<Longrightarrow> settled d'" by (rule closing_settles [OF assms(1) o(2) st(2)])
qed

lemma asking_keeps:
  assumes "runs (create_request_tx P D r) d x d'" "r_status r = ''pending''"
  shows "keeps_shared d d'"
proof (rule step_keeps_shared)
  assume ok: "system_ok d"
  note o = system_ok_parts [OF ok]
  show "step_change d d'" by (rule request_change_step [OF tx_request_change(3) [OF o(2,1) assms] ok])
  show "settled d \<Longrightarrow> settled d'" by (rule asking_settles [OF assms])
qed

lemma claim_keeps:
  assumes "runs (claim_link_tx P D c token key) d x d'"
  shows "keeps_shared d d'"
proof (rule step_keeps_shared)
  assume ok: "system_ok d"
  note o = system_ok_parts [OF ok]
  from claim_link_tx_runs [OF assms o(1)] obtain k where
    k: "find_link_by_token token d = Some k" "claim_effect D c key x k d d'" by blast
  show "step_change d d'" by (rule link_change_step [OF claim_effect_change [OF k(1) o(3) k(2)] ok])
  show "settled d \<Longrightarrow> settled d'" by (rule claim_settles [OF k(1) o(3) k(2)])
qed

lemma linking_keeps:
  assumes "runs (create_link_tx P D ttl k) d x d'" "is_active k" "k_claimer_id k = None"
  shows "keeps_shared d d'"
proof (rule step_keeps_shared)
  assume ok: "system_ok d"
  have "link_change d d'"
    using create_link_tx_runs [OF assms(1)] system_ok_parts(3) [OF ok]
      table_evolves_append [of is_active k link_step "links d", OF assms(2)]
    by (auto simp: link_change_def link_ids_ok_def)
  then show "step_change d d'" using ok by (rule link_change_step)
  show "settled d \<Longrightarrow> settled d'" by (rule new_link_settles [OF assms(1,3)])
qed

lemma cancelling_keeps:
  assumes "runs (cancel_link_tx D actor token) d x d'"
  shows "keeps_shared d d'"
proof (rule step_keeps_shared)
  assume ok: "system_ok d"
  note e = cancel_link_tx_runs [OF assms]
  from link_updated [OF e(1) system_ok_parts(3) [OF ok] link_step.cancels [OF e(3,4)] link_marks_keep(3) e(7)] e(5,6)
  have "link_change d d'" by (simp add: link_change_def)
  then show "step_change d d'" using ok by (rule link_change_step)
  show "settled d \<Longrightarrow> settled d'"
    by (rule link_mark_settles [OF e(7,6)])
      (use e(5) in \<open>simp_all add: same_money_def mark_cancelled_def dead_link_def\<close>)
qed

text \<open>The lazy expiry, on whatever database it meets.\<close>

lemma expiry_keeps:
  assumes "update_link i expire_link d = Inr d'"
  shows "keeps_shared d d'"
  unfolding keeps_shared_def
proof
  assume ok: "shared_ok d"
  note u = update_link_Inr [OF assms]
  have l: "links d' = update_where (\<lambda>k. k_id k = i) expire_link (links d)" and r: "requests d' = requests d"
    and s: "same_money d d'" using u by (simp_all add: same_money_def)
  have ids: "map k_id (links d') = map k_id (links d)" "map k_token (links d') = map k_token (links d)"
    unfolding l by (simp_all add: map_update_where expire_link_def)
  have "table_evolves link_race is_active (links d) (links d')"
    unfolding l by (rule table_evolves_update) (rule late_expiry)
  moreover have "settled d'"
    by (rule link_mark_settles [OF l r]) (use s ok in \<open>simp_all add: same_money_def shared_ok_def expire_link_def dead_link_def\<close>)
  moreover have "system_ok d'"
    using ok same_money_books [OF s] ids r
    by (simp add: shared_ok_def system_ok_def request_ids_ok_def link_ids_ok_def)
  ultimately show "shared_ok d' \<and> shared_change d d'"
    using ok s r keys_ok_change [of d d'] by (simp add: shared_ok_def shared_change_def money_change_def)
qed

lemma moving_keeps:
  assumes "runs (execute_transfer P D ref s r a note key) d x d'"
  shows "keeps_shared d d'"
proof (rule step_keeps_shared)
  assume ok: "system_ok d"
  note m = execute_transfer_moves [OF assms system_ok_parts(1) [OF ok]]
  have "books d'" using moves_books [OF m(1)] ok by (simp add: system_ok_def)
  with m ok tables_ok [of d' d] show "step_change d d'" by (auto simp: step_change_def money_change_def)
  show "settled d \<Longrightarrow> settled d'" by (rule transfer_settles [OF m(4,2,3)])
qed

lemma refusing_keeps:
  assumes "runs (record_refusal D ref s r a note key st reason meta) d x d'" "st \<noteq> ''completed''"
  shows "keeps_shared d d'"
proof (rule step_keeps_shared)
  assume ok: "system_ok d"
  note r = record_refusal_refuses [OF assms]
  have t: "requests d' = requests d" "links d' = links d" "ledger d' = ledger d" using r by (simp_all add: refuses_def)
  with r refuses_books [OF r] ok tables_ok [of d' d] show "step_change d d'"
    by (auto simp: step_change_def money_change_def system_ok_def)
  show "settled d \<Longrightarrow> settled d'" using settled_frame [OF t(3,1,2)] by simp
qed

lemma registering_keeps:
  assumes "runs (register_tx D u) d x d'"
  shows "keeps_shared d d'"
proof (rule step_keeps_shared)
  assume ok: "system_ok d"
  note r = register_tx_runs [OF assms]
  have t: "requests d' = requests d" "links d' = links d" using r by (simp_all add: registered_def)
  have "books d'" using registered_books [OF _ r] ok by (simp add: system_ok_def)
  with r t ok tables_ok [of d' d] show "step_change d d'" by (auto simp: step_change_def money_change_def)
  show "settled d \<Longrightarrow> settled d'" by (rule registration_settles [OF r])
qed

lemma pin_keeps:
  assumes "update_user_pin h now i d = Inr d'"
  shows "keeps_shared d d'"
proof (rule step_keeps_shared)
  assume ok: "system_ok d"
  have p: "pin_updated i d d'"
    using assms unfolding pin_updated_def update_user_pin_def
    by (intro exI [of _ h] exI [of _ now] exI [of _ d']) simp
  have t: "requests d' = requests d" "links d' = links d" "ledger d' = ledger d"
    using assms by (auto simp: update_user_pin_def)
  with p pin_updated_books [OF p] ok tables_ok [of d' d] show "step_change d d'"
    by (auto simp: step_change_def money_change_def system_ok_def)
  show "settled d \<Longrightarrow> settled d'" using settled_frame [OF t(3,1,2)] by simp
qed

lemma marking_keeps: "keeps_shared d (d\<lparr>notifications := ns\<rparr>)"
proof (rule step_keeps_shared)
  have m: "same_money d (d\<lparr>notifications := ns\<rparr>)" by (simp add: same_money_def)
  show "system_ok d \<Longrightarrow> step_change d (d\<lparr>notifications := ns\<rparr>)"
    using same_money_books [OF m] tables_ok [of "d\<lparr>notifications := ns\<rparr>" d] m
    by (simp add: step_change_def money_change_def system_ok_def)
  show "settled d \<Longrightarrow> settled (d\<lparr>notifications := ns\<rparr>)" using settled_frame [of "d\<lparr>notifications := ns\<rparr>" d] by simp
qed

section \<open>The handlers\<close>

lemma guarded_reads [guarded_rules]:
  "guarded keeps_shared (await (redis_read q))" "guarded keeps_shared (await (redis_write v))"
  "guarded keeps_shared (await (redis_call c))" "guarded keeps_shared (await (dispatch_email P a s b))"
  "guarded keeps_shared (await (pool_fetch g))"
  by (rule guarded_await, simp add: redis_run mail_run_db)+

lemma guarded_log [guarded_rules]: "guarded keeps_shared (await (discard (log_event now et i ev a re m)))"
  by (rule guarded_await) (rule keeps_shared_events [OF log_event_discarded])

lemma guarded_transaction:
  assumes "\<And>d x d'. runs body d x d' \<Longrightarrow> keeps_shared d d'"
  shows "guarded keeps_shared (await (transaction body))"
  by (rule guarded_await, rule transaction_keeps) (simp_all add: assms)

lemma guarded_transaction_bnd:
  assumes "\<And>d x d'. runs body d x d' \<Longrightarrow> keeps_shared d d'" "\<And>x w. db (snd (k x w)) = db w"
  shows "guarded keeps_shared (await (bnd (transaction body) k))"
proof (rule guarded_await)
  fix w
  obtain r w' where run: "bnd (transaction body) k w = (r, w')" by fastforce
  from transaction_bnd [OF run assms(2)] assms(1) show "keeps_shared (db w) (db (snd (bnd (transaction body) k w)))"
    by (auto simp: run)
qed

lemma pool_execute_keeps:
  assumes "\<And>d d'. q d = Inr d' \<Longrightarrow> keeps_shared d d'"
  shows "keeps_shared (db w) (db (snd (pool_execute q w)))"
  using assms pool_atomic [of "no_rows q" w] keeps_shared_refl unfolding pool_execute_def
  by (metis no_rows_Inr prod.collapse)

lemma guarded_pool_execute:
  assumes "\<And>d d'. q d = Inr d' \<Longrightarrow> keeps_shared d d'"
  shows "guarded keeps_shared (await (pool_execute q))" "guarded keeps_shared (await (discard (pool_execute q)))"
  by - (rule guarded_await, simp add: discard_run pool_execute_keeps [OF assms])+

lemma guarded_pin [guarded_rules]: "guarded keeps_shared (enforce_user_pin_thread P D u pin)"
  unfolding enforce_user_pin_thread_def pin_failure_thread_def Let_def by (intro guarded_rules)

lemma guarded_resolve [guarded_rules]: "guarded keeps_shared (resolve_recipient_thread P s)"
  unfolding resolve_recipient_thread_def resolve_by_text_thread_def Let_def by (intro guarded_rules)

lemma guarded_transfers: "guarded keeps_shared (process_transfer_thread P D s req)"
  unfolding process_transfer_thread_def fresh_transfer_thread_def add_daily_outflow_thread_def Let_def
    announce_transfer_thread_def reject_over_cap_def flag_daily_outflow_def thn_def [of "transaction _"]
  by (intro guarded_rules guarded_transaction guarded_transaction_bnd, erule moving_keeps refusing_keeps)
   (auto simp: ret_run throw_run announce_transfer_def mail_run thn_run intro!: guarded_await elim: refusing_keeps moving_keeps)

lemma guarded_request: "guarded keeps_shared (request_thread P D actor act)"
proof -
  have c: "guarded keeps_shared (create_request_thread P D actor req)" for req
    unfolding create_request_thread_def Let_def
    by (intro guarded_rules guarded_transaction) (erule asking_keeps, simp add: pending_request_def)
  have a: "guarded keeps_shared (accept_request_thread P D actor i payload)" for i payload
    unfolding accept_request_thread_def Let_def
    by (intro guarded_rules guarded_transaction) (erule payment_keeps)
  show ?thesis
    by (cases act) (auto intro!: guarded_rules c a guarded_transaction_bnd
        simp: reject_request_def cancel_request_def ret_run elim!: closing_keeps)
qed

lemma guarded_link: "guarded keeps_shared (link_thread P D actor act)"
proof -
  have c: "guarded keeps_shared (create_link_thread P D actor req)" for req
    unfolding create_link_thread_def Let_def
    by (intro guarded_rules guarded_transaction) (erule linking_keeps; simp add: active_link_def is_active_def)
  have v: "guarded keeps_shared (get_link_by_token_thread D token)" for token
    unfolding get_link_by_token_thread_def Let_def
    by (intro guarded_rules guarded_pool_execute) (erule expiry_keeps)
  have k: "guarded keeps_shared (claim_link_thread P D actor token payload)" for token payload
    unfolding claim_link_thread_def
  proof (intro guarded_rules guarded_await)
    fix w
    let ?tx = "transaction_unless leaves_uncommitted (claim_link_tx P D actor token (cp_idempotency_key payload))"
    obtain r w' where run: "?tx w = (r, w')" by fastforce
    from transaction_unless_atomic [OF run] show "keeps_shared (db w) (db (snd (?tx w)))"
      by (auto simp: run intro: claim_keeps)
  qed
  show ?thesis
    by (cases act) (auto intro!: guarded_rules c v k guarded_transaction_bnd
        simp: cancel_link_def ret_run elim!: cancelling_keeps)
qed

lemma guarded_auth: "guarded keeps_shared (auth_thread P D act)"
proof -
  have r: "guarded keeps_shared (register_user_thread P D req)" for req
    unfolding register_user_thread_def Let_def
    by (intro guarded_rules guarded_transaction) (erule registering_keeps)
  have l: "guarded keeps_shared (login_user_thread P D req)" for req
    unfolding login_user_thread_def open_session_thread_def wrong_password_thread_def unknown_phone_thread_def
      count_login_failure_thread_def Let_def
    by (intro guarded_rules)
  have o: "guarded keeps_shared (logout_user_thread P D u cookies)" for u cookies
    unfolding logout_user_thread_def by (intro guarded_rules)
  have s: "guarded keeps_shared (drop_sessions_thread P D key current sids)" for key current sids
    by (induction sids) (auto intro!: guarded_rules)
  have p: "guarded keeps_shared (change_pin_thread P D u req)" for u req
    unfolding change_pin_thread_def by (intro guarded_rules guarded_pool_execute) (erule pin_keeps)
  have q: "guarded keeps_shared (reset_pin_thread P D u req cookies)" for u req cookies
    unfolding reset_pin_thread_def by (intro guarded_rules guarded_pool_execute s) (erule pin_keeps)
  show ?thesis by (cases act) (auto intro!: guarded_rules r l o p q)
qed

lemma guarded_action: "guarded keeps_shared (action_thread P D act)"
proof (cases act)
  case (MarkRead u req)
  have "guarded keeps_shared (await (mark_notifications_read D u req))"
  proof (rule guarded_await)
    fix w
    obtain r w' where run: "mark_notifications_read D u req w = (r, w')" by fastforce
    from mark_notifications_read_db [OF run] marking_keeps
    show "keeps_shared (db w) (db (snd (mark_notifications_read D u req w)))" by (auto simp: run)
  qed
  then show ?thesis by (auto simp: MarkRead intro!: guarded_rules)
qed (auto intro!: guarded_rules guarded_auth guarded_request guarded_link guarded_transfers)

section \<open>Every interleaving\<close>

lemma server_step_guarded:
  assumes "server_step P (w, ts) (w', ts')" "\<forall>t \<in> set ts. guarded keeps_shared t"
  shows "keeps_shared (db w) (db w') \<and> (\<forall>t \<in> set ts'. guarded keeps_shared t)"
  using assms(1)
proof (rule server_stepE)
  fix i f v us assume a: "(w, ts) = (v, us)" "(w', ts') = (fst (f v), us[i := snd (f v)])" "i < length us" "us ! i = Await f"
  then have "guarded keeps_shared (Await f)" using assms(2) nth_mem [of i us] by fastforce
  then have "keeps_shared (db v) (db (fst (f v)))" "guarded keeps_shared (snd (f v))" by simp_all
  with a assms(2) show ?thesis by (auto dest!: set_update_subset_insert [THEN subsetD])
qed (use assms(2) guarded_action in auto)

lemma served_ok: "served P s \<Longrightarrow> shared_ok (db (fst s)) \<and> (\<forall>t \<in> set (snd s). guarded keeps_shared t)"
proof (induction rule: served.induct)
  case (empty w)
  then show ?case
    using system_ok_empty by (simp add: shared_ok_def keys_ok_def settled_def paid_as_def accepted_debts_def
        claimed_debts_def empty_db_def)
next
  case (step s s')
  with server_step_guarded [of P "fst s" "snd s" "fst s'" "snd s'"] show ?case
    by (simp add: keeps_shared_def [of "db (fst s)"])
qed

lemma server_run_change:
  assumes "server_run P s s'" "served P s"
  shows "served P s' \<and> extends (ledger (db (fst s))) (ledger (db (fst s'))) \<and>
    extends (transfers (db (fst s))) (transfers (db (fst s'))) \<and>
    extends (history (db (fst s))) (history (db (fst s'))) \<and>
    table_evolves request_step pending (requests (db (fst s))) (requests (db (fst s'))) \<and>
    table_evolves link_race is_active (links (db (fst s))) (links (db (fst s')))"
  using assms unfolding server_run_def
proof (induction rule: rtranclp_induct)
  case base
  then show ?case by simp
next
  case (step u v)
  then have IH: "served P u" "extends (ledger (db (fst s))) (ledger (db (fst u)))"
    "extends (transfers (db (fst s))) (transfers (db (fst u)))" "extends (history (db (fst s))) (history (db (fst u)))"
    "table_evolves request_step pending (requests (db (fst s))) (requests (db (fst u)))"
    "table_evolves link_race is_active (links (db (fst s))) (links (db (fst u)))" by simp_all
  have "shared_change (db (fst u)) (db (fst v))"
    using served_ok [OF IH(1)] server_step_guarded [of P "fst u" "snd u" "fst v" "snd v"] step.hyps(2)
    by (auto simp: keeps_shared_def)
  then have c: "extends (ledger (db (fst u))) (ledger (db (fst v)))"
    "extends (transfers (db (fst u))) (transfers (db (fst v)))" "extends (history (db (fst u))) (history (db (fst v)))"
    "table_evolves request_step pending (requests (db (fst u))) (requests (db (fst v)))"
    "table_evolves link_race is_active (links (db (fst u))) (links (db (fst v)))"
    using money_change_extends by (auto simp: shared_change_def)
  from served.step [OF IH(1) step.hyps(2)] extends_trans [OF IH(2) c(1)] extends_trans [OF IH(3) c(2)]
    extends_trans [OF IH(4) c(3)] table_evolves_trans [OF IH(5) c(4)] table_evolves_trans [OF IH(6) c(5)]
  show ?case by blast
qed

section \<open>The sequential model within this one\<close>

lemma runs_alone: "server_run P (w, us @ t # vs) (snd (run t w), us @ Done (fst (run t w)) # vs)"
  using schedule_alone [of us w t vs] schedule_run [of P "(w, us @ t # vs)"] by metis

lemma served_run: "served P s \<Longrightarrow> server_run P s s' \<Longrightarrow> served P s'"
  using server_run_change by blast

text \<open>What one request after the other can reach, the server can.\<close>

lemma reachable_served: "reachable P w \<Longrightarrow> \<exists>ts. served P (w, ts)"
proof (induction rule: reachable.induct)
  case (start w)
  then show ?case using served.empty by blast
next
  case (step w w')
  then obtain ts where s: "served P (w, ts)" by blast
  from step.hyps(2) show ?case
  proof (rule system_stepE)
    fix D act assume w': "w' = system_op P D act w"
    have "served P (w, ts @ [action_thread P D act])" by (rule served.step [OF s server_step.arrives])
    from served_run [OF this, OF runs_alone [of P w ts "action_thread P D act" "[]"]]
    show ?case by (auto simp: w' run_action_thread simp del: action_thread.simps)
  next
    assume "db w' = db w"
    from served.step [OF s server_step.surroundings [OF this]] show ?case by blast
  qed
qed

text \<open>C8: The server contains the sequential model.  Let a handler, among any others in flight, have the turns by
itself: after as many turns as it has awaits, with nothing in between, it has given exactly the answer of its service,
the world (database, Redis, mails, messages and what is left of the fates) is exactly the one that the service makes, the
one of the sequential state machine, and the other handlers stand where they stood.\<close>

theorem uninterrupted_is_sequential:
  "\<exists>n. schedule (replicate n (length us)) (w, us @ action_thread P D act # vs) =
     (snd (action_service P D act w), us @ Done (fst (action_service P D act w)) # vs) \<and>
     snd (action_service P D act w) = system_op P D act w"
  using schedule_alone [of us w "action_thread P D act" vs]
  by (auto simp: run_action_service action_service_op simp del: action_thread.simps action_service.simps)

section \<open>More threads\<close>

lemma server_run_prefix: "server_run P (w, ts) (w', ts') \<Longrightarrow> server_run P (w, us @ ts) (w', us @ ts')"
proof -
  have step: "server_step P (fst s, us @ snd s) (fst s', us @ snd s')" if "server_step P s s'" for s s'
    using that
  proof (rule server_stepE)
    fix i f w ts assume "s = (w, ts)" "s' = (fst (f w), ts[i := snd (f w)])" "i < length ts" "ts ! i = Await f"
    with server_step.resumes [of "length us + i" "us @ ts" f P w] show ?thesis
      by (simp add: list_update_append)
  qed (auto intro: server_step.intros simp: server_step.surroundings simp flip: append_assoc)
  have "server_run P (fst s, us @ snd s) (fst s', us @ snd s')" if "server_run P s s'" for s s'
    using that unfolding server_run_def
    by (induction rule: rtranclp_induct) (auto dest: step intro: rtranclp.rtrancl_into_rtrancl)
  from this [of "(w, ts)" "(w', ts')"] show "server_run P (w, ts) (w', ts') \<Longrightarrow> server_run P (w, us @ ts) (w', us @ ts')"
    by simp
qed

lemma arrivals: "server_run P (w, []) (w, map (\<lambda>(D, act). action_thread P D act) reqs)"
proof (induction reqs rule: rev_induct)
  case Nil
  then show ?case by (simp add: server_run_def)
next
  case (snoc r reqs)
  obtain D act where r: "r = (D, act)" by (cases r)
  from snoc server_step.arrives [of P w _ D act] show ?case
    unfolding server_run_def by (auto simp: r intro: rtranclp.rtrancl_into_rtrancl)
qed

section \<open>A concrete schedule\<close>

definition late_view :: "draws \<times> action" where
  "late_view = (sample_draws 100000000 7, OnLink carol (ViewLink carols_token))"

definition timely_claim :: "draws \<times> action" where
  "timely_claim = (sample_draws 5000 6,
     OnLink dave (ClaimLink carols_token \<lparr>cp_pin = ''9999'', cp_idempotency_key = Uuid 9\<rparr>))"

text \<open>The view reads the link, the claim runs to its end, the view goes on.\<close>

definition raced_server :: "kv server" where
  "raced_server = schedule ([0] @ replicate 5 1 @ [0])
     (linked_world, map (\<lambda>(D, act). action_thread sample_platform D act) [late_view, timely_claim])"

lemma linked_reachable: "reachable sample_platform linked_world"
  unfolding linked_world_def by (rule performs_reachable) (rule paid_reachable)

lemma raced_run: "server_run sample_platform (linked_world, []) raced_server"
  unfolding raced_server_def by (rule server_run_trans [OF arrivals schedule_run])

lemma raced_served: "\<exists>ts. served sample_platform (fst raced_server, ts)"
proof -
  from reachable_served [OF linked_reachable] obtain us where us: "served sample_platform (linked_world, us)" by blast
  from raced_run have "server_run sample_platform (linked_world, us) (fst raced_server, us @ snd raced_server)"
    using server_run_prefix [of sample_platform linked_world "[]" "fst raced_server" "snd raced_server" us] by simp
  with served_run [OF us] show ?thesis by blast
qed

lemma raced_links:
  "map (\<lambda>k. (k_status k, k_creator_id k, k_claimer_id k, k_amount_paisa k)) (links (db (fst raced_server))) =
     [(''expired'', carol, Some dave, 20)]"
  by code_simp

section \<open>Properties\<close>

text \<open>C4: However the awaits of the handlers in flight interleave, and whatever the environment does in between,
the books are in order in every state of the server, and no idempotency key backs two transfers: the check for
a replay and the movement are separate steps, but nothing that a handler has read too early can spoil them.\<close>

theorem concurrent_books:
  assumes "served P (w, ts)"
  shows "books (db w) \<and> distinct (map t_idempotency_key (transfers (db w)))"
  using served_ok [OF assms] by (simp add: shared_ok_def system_ok_def keys_ok_def)

theorem concurrent_books_witness: "books (db (fst raced_server))"
proof -
  from raced_served obtain ts where "served sample_platform (fst raced_server, ts)" by blast
  from concurrent_books [OF this] show ?thesis by simp
qed

text \<open>C5: Requests and links are paid exactly once and exactly as agreed, however many people accept, reject,
cancel, claim or look at them at the same time: in every state of the server the payments of requests in the
ledger are the accepted requests, debtor, requester and amount, each as often as the other, and the payments of
links are the claimed links.\<close>

theorem concurrent_debts_paid_once:
  assumes "served P (w, ts)"
  shows "paid_as ''request_paid'' (db w) = accepted_debts (db w) \<and> paid_as ''link_paid'' (db w) = claimed_debts (db w)"
  using served_ok [OF assms] by (simp add: shared_ok_def settled_def)

theorem concurrent_debts_paid_once_witness:
  "paid_as ''link_paid'' (db (fst raced_server)) = {#(carol, Some dave, 20)#}"
proof -
  from raced_served obtain ts where "served sample_platform (fst raced_server, ts)" by blast
  then have "paid_as ''link_paid'' (db (fst raced_server)) = claimed_debts (db (fst raced_server))"
    using concurrent_debts_paid_once by blast
  also have "\<dots> = {#(carol, Some dave, 20)#}"
    using raced_links by (auto simp: claimed_debts_def)
  finally show ?thesis .
qed

lemma race_keeps:
  assumes "row_evolves link_race k k'" "dead_link k"
  shows "dead_link k' \<and> k_id k' = k_id k \<and> k_claimer_id k' = k_claimer_id k \<and> k_transfer_id k' = k_transfer_id k"
  using assms unfolding row_evolves_def
proof (induction rule: rtranclp_induct)
  case (step x y)
  from step.hyps(2) step.IH [OF step.prems] show ?case
    by (auto simp: dead_link_def expire_link_def mark_cancelled_def elim!: link_raceE)
qed simp

text \<open>C11: What is booked stays booked under every interleaving, a request that was accepted, rejected or
cancelled never changes again, and a link that was claimed, expired or cancelled is never claimed afterwards and
never loses its claimer or its transfer.\<close>

theorem concurrent_verdicts_final:
  assumes "served P (w, ts)" "server_run P (w, ts) (w', ts')"
  shows "extends (ledger (db w)) (ledger (db w')) \<and> extends (transfers (db w)) (transfers (db w')) \<and>
    extends (history (db w)) (history (db w')) \<and>
    (\<forall>r \<in> set (requests (db w)). r_status r \<noteq> ''pending'' \<longrightarrow> r \<in> set (requests (db w'))) \<and>
    (\<forall>k \<in> set (links (db w)). dead_link k \<longrightarrow> (\<exists>k' \<in> set (links (db w')). dead_link k' \<and> k_id k' = k_id k \<and>
       k_claimer_id k' = k_claimer_id k \<and> k_transfer_id k' = k_transfer_id k))"
proof (intro conjI ballI impI)
  note c = server_run_change [OF assms(2,1)]
  from c show "extends (ledger (db w)) (ledger (db w'))" "extends (transfers (db w)) (transfers (db w'))"
    "extends (history (db w)) (history (db w'))" by simp_all
  show "r \<in> set (requests (db w'))" if "r \<in> set (requests (db w))" "r_status r \<noteq> ''pending''" for r
    using c table_evolves_row [of request_step pending "requests (db w)" "requests (db w')" r] that
      request_evolves_terminal by auto
  show "\<exists>k' \<in> set (links (db w')). dead_link k' \<and> k_id k' = k_id k \<and> k_claimer_id k' = k_claimer_id k \<and>
      k_transfer_id k' = k_transfer_id k" if "k \<in> set (links (db w))" "dead_link k" for k
    using c table_evolves_row [of link_race is_active "links (db w)" "links (db w')" k] that race_keeps by fastforce
qed

theorem concurrent_verdicts_final_witness:
  "\<exists>ts us. server_run sample_platform (refused_world, ts) (too_late_world, us) \<and>
     (\<exists>r \<in> set (requests (db too_late_world)). r_status r = ''rejected'')"
proof -
  from reachable_served [OF refused_reachable] obtain ts where ts: "served sample_platform (refused_world, ts)" by blast
  let ?act = "OnRequest dave (AcceptRequest (Uuid 530) \<lparr>am_pin = ''9999'', am_idempotency_key = Uuid 8\<rparr>)"
  let ?t = "action_thread sample_platform (sample_draws 6000 7) ?act"
  have 1: "server_run sample_platform (refused_world, ts) (refused_world, ts @ [?t])"
    unfolding server_run_def by (rule r_into_rtranclp) (rule server_step.arrives)
  have "snd (run ?t refused_world) = too_late_world" by (simp only: run_action_thread too_late_world_def)
  with server_run_trans [OF 1 runs_alone [of sample_platform refused_world ts ?t "[]"]]
  obtain us where run: "server_run sample_platform (refused_world, ts) (too_late_world, us)" by metis
  have "map r_status (requests (db refused_world)) = [''rejected'']" by code_simp
  then obtain r where "r \<in> set (requests (db refused_world))" "r_status r = ''rejected''" by auto
  with concurrent_verdicts_final [OF ts run] run show ?thesis by auto
qed

end
