(* ===== verification/Backing.thy ===== *)
theory Backing
  imports Scenario
begin

text \<open>
  What the columns of a payment link mean (\<open>payment_links\<close> of the schema, written by
  \<open>features/links/service.rs\<close>): a link that says it was claimed is backed by the transfer it names, and a
  transfer backs one link at most.
\<close>

section \<open>The invariant\<close>

definition backed_by :: "link_row \<Rightarrow> transfer_row \<Rightarrow> bool" where
  "backed_by k t \<longleftrightarrow> k_transfer_id k = Some (t_id t) \<and> k_claimer_id k = Some (t_recipient_id t) \<and>
     t_sender_id t = k_creator_id k \<and> t_amount_paisa t = k_amount_paisa k \<and> t_note t = k_note k \<and>
     t_status t = ''completed''"

definition link_well_formed :: "database \<Rightarrow> link_row \<Rightarrow> bool" where
  "link_well_formed d k \<longleftrightarrow>
     (if k_status k = ''claimed'' then \<exists>t \<in> set (transfers d). backed_by k t
      else k_claimer_id k = None \<and> k_transfer_id k = None \<and> k_claimed_at k = None)"

definition links_backed :: "database \<Rightarrow> bool" where
  "links_backed d \<longleftrightarrow> (\<forall>k \<in> set (links d). link_well_formed d k) \<and>
     inj_on k_transfer_id {k \<in> set (links d). k_transfer_id k \<noteq> None}"

lemma link_well_formed_mono:
  "set (transfers d) \<subseteq> set (transfers d') \<Longrightarrow> link_well_formed d k \<Longrightarrow> link_well_formed d' k"
  unfolding link_well_formed_def by (simp split: if_splits) blast

lemma update_key_rows:
  assumes "distinct (map key xs)" "x \<in> set xs" "y \<in> set (update_where (\<lambda>r. key r = key x) f xs)"
  shows "y = f x \<or> y \<in> set xs \<and> y \<noteq> x"
proof -
  have only: "z = x" if "z \<in> set xs" "key z = key x" for z
    using that assms(1,2) by (metis distinct_map inj_onD)
  from set_update_where [OF assms(3)] obtain z where "z \<in> set xs" "y = (if key z = key x then f z else z)" by blast
  with only [of z] show ?thesis by (cases "key z = key x"; cases "z = x") simp_all
qed

lemma links_backed_frame:
  assumes "links d' = links d" "set (transfers d) \<subseteq> set (transfers d')" "links_backed d"
  shows "links_backed d'"
  using assms link_well_formed_mono [OF assms(2)] by (simp add: links_backed_def)

lemma links_backed_new:
  assumes "links d' = links d @ [k]" "transfers d' = transfers d" "links_backed d" "is_active k"
    "k_claimer_id k = None" "k_transfer_id k = None" "k_claimed_at k = None"
  shows "links_backed d'"
proof -
  have "{q \<in> set (links d'). k_transfer_id q \<noteq> None} = {q \<in> set (links d). k_transfer_id q \<noteq> None}"
    using assms(1,6) by auto
  with assms show ?thesis by (simp add: links_backed_def link_well_formed_def is_active_def)
qed

text \<open>A mark that leaves a link unclaimed.\<close>

lemma links_backed_unclaimed:
  assumes l: "links d' = update_where (\<lambda>q. k_id q = k_id k) f (links d)" and t: "transfers d' = transfers d"
    and k: "k \<in> set (links d)" "distinct (map k_id (links d))" "k_status k \<noteq> ''claimed''"
    and f: "k_status (f k) \<noteq> ''claimed''" "k_claimer_id (f k) = k_claimer_id k"
      "k_transfer_id (f k) = k_transfer_id k" "k_claimed_at (f k) = k_claimed_at k"
    and b: "links_backed d"
  shows "links_backed d'"
proof -
  have none: "k_transfer_id k = None" "k_claimer_id k = None" "k_claimed_at k = None"
    using b k by (auto simp: links_backed_def link_well_formed_def)
  have row: "q = f k \<or> q \<in> set (links d)" if "q \<in> set (links d')" for q
    using update_key_rows [OF k(2,1) that [unfolded l]] by blast
  have "{q \<in> set (links d'). k_transfer_id q \<noteq> None} \<subseteq> {q \<in> set (links d). k_transfer_id q \<noteq> None}"
    using row f(3) none by fastforce
  then have "inj_on k_transfer_id {q \<in> set (links d'). k_transfer_id q \<noteq> None}"
    using b unfolding links_backed_def by (blast intro: inj_on_subset)
  moreover have "link_well_formed d' q" if "q \<in> set (links d')" for q
    using row [OF that] b f none t by (auto simp: links_backed_def link_well_formed_def)
  ultimately show ?thesis by (simp add: links_backed_def)
qed

text \<open>The claim: the link is marked in the transaction that books the transfer.\<close>

lemma links_backed_claimed:
  assumes l: "links d' = update_where (\<lambda>q. k_id q = k_id k) (mark_claimed c i now) (links d)"
    and m: "moves t d d'" "backed_by (mark_claimed c i now k) t"
    and k: "k \<in> set (links d)" "distinct (map k_id (links d))" "k_status k \<noteq> ''claimed''"
    and b: "links_backed d"
  shows "links_backed d'"
proof -
  have t: "transfers d' = transfers d @ [t]" "t_id t \<notin> set (map t_id (transfers d))"
    using m(1) by (auto simp: moves_def movable_def same_money_def)
  have i: "i = t_id t" using m(2) by (simp add: backed_by_def mark_claimed_def)
  have row: "q = mark_claimed c i now k \<or> q \<in> set (links d) \<and> q \<noteq> k" if "q \<in> set (links d')" for q
    using update_key_rows [OF k(2,1) that [unfolded l]] .
  have old: "k_transfer_id q \<noteq> Some i" if "q \<in> set (links d)" for q
  proof -
    have "link_well_formed d q" using b that by (simp add: links_backed_def)
    with t(2) show ?thesis unfolding i by (auto simp: link_well_formed_def backed_by_def split: if_splits)
  qed
  have new: "k_transfer_id (mark_claimed c i now k) = Some i" by (simp add: mark_claimed_def)
  have "inj_on k_transfer_id {q \<in> set (links d'). k_transfer_id q \<noteq> None}"
  proof (rule inj_onI, clarify)
    fix q q' x assume q: "q \<in> set (links d')" "q' \<in> set (links d')" "k_transfer_id q = k_transfer_id q'"
      "k_transfer_id q = Some x"
    from row [OF q(1)] row [OF q(2)] show "q = q'"
    proof (elim disjE conjE)
      assume "q \<in> set (links d)" "q' \<in> set (links d)"
      moreover have "k_transfer_id q \<noteq> None" "k_transfer_id q' \<noteq> None"
        using q(3,4) by (cases "k_transfer_id q'"; simp)+
      moreover note inj = b [unfolded links_backed_def, THEN conjunct2]
      ultimately show ?thesis by (intro inj_onD [OF inj q(3)]) blast+
    qed (use old new q(3,4) in auto)
  qed
  moreover have "link_well_formed d' q" if "q \<in> set (links d')" for q
  proof (cases "q = mark_claimed c i now k")
    case True
    with m(2) t(1) show ?thesis by (auto simp: link_well_formed_def mark_claimed_def)
  next
    case False
    with row [OF that] b have "link_well_formed d q" by (simp add: links_backed_def)
    then show ?thesis by (rule link_well_formed_mono [rotated]) (use t(1) in auto)
  qed
  ultimately show ?thesis by (simp add: links_backed_def)
qed

section \<open>Every request keeps it\<close>

text \<open>Each transaction and statement that touches a link keeps the links backed.\<close>

lemma claim_backed:
  assumes "link_ids_ok (db w)" "links_backed (db w)" "find_link_by_token token (db w) = Some k"
    "claim_effect D actor key x k (db w) (db w')"
  shows "links_backed (db w')"
proof (cases x)
  case (Replayed k' tid tref)
  with assms show ?thesis by simp
next
  case FoundExpired
  with assms find_link_by_token_Some(1) [OF assms(3)] show ?thesis
    by (intro links_backed_unclaimed [OF _ _ _ _ _ _ _ _ _ assms(2), where k = k and f = expire_link])
      (auto simp: same_money_def expire_link_def link_ids_ok_def)
next
  case (ClaimedNow k')
  with assms find_link_by_token_Some(1) [OF assms(3)] show ?thesis
    by (intro links_backed_claimed [OF _ _ _ _ _ _ assms(2), where k = k and t = "claim_payment D actor k key"])
      (auto simp: backed_by_def mark_claimed_def claim_payment_def link_ids_ok_def)
qed

lemma view_backed:
  assumes "link_ids_ok (db w)" "links_backed (db w)" "get_link_by_token D token w = (r, w')"
  shows "links_backed (db w')"
  using get_link_by_token_db [OF assms(3)]
proof (elim disjE exE conjE)
  fix k assume k: "find_link_by_token token (db w) = Some k" "k_status k = ''active''"
    and d: "db w' = (db w)\<lparr>links := update_where (\<lambda>q. k_id q = k_id k) expire_link (links (db w))\<rparr>"
  show ?thesis
    using assms(1) find_link_by_token_Some(1) [OF k(1)] k(2)
    by (intro links_backed_unclaimed [OF _ _ _ _ _ _ _ _ _ assms(2), where k = k and f = expire_link])
      (simp_all add: d expire_link_def link_ids_ok_def)
qed (simp add: assms(2))

lemma cancel_backed:
  assumes "link_ids_ok (db w)" "links_backed (db w)" "runs (cancel_link_tx D actor token) (db w) k (db w')"
  shows "links_backed (db w')"
  using assms cancel_link_tx_runs [OF assms(3)] find_link_by_token_Some(1) [of token "db w" k]
  by (intro links_backed_unclaimed [OF _ _ _ _ _ _ _ _ _ assms(2), where k = k and f = "mark_cancelled (clock D 41)"])
    (auto simp: same_money_def mark_cancelled_def link_ids_ok_def)

lemma create_backed:
  assumes "links_backed (db w)" "runs (create_link_tx P D ttl (active_link D actor a n ttl)) (db w) x (db w')"
  shows "links_backed (db w')"
  using create_link_tx_runs [OF assms(2)]
  by (intro links_backed_new [OF _ _ assms(1)]) (auto simp: same_money_def active_link_def is_active_def)

lemma link_op_backed:
  assumes ids: "link_ids_ok (db w)" and bk: "books (db w)" and b: "links_backed (db w)"
  shows "links_backed (db (link_op P D actor act w))"
proof -
  have frame: "links_backed d'" if "only_events (db w) d'" for d'
    by (rule links_backed_frame [OF _ _ b]) (use that in \<open>auto simp: only_events_eq\<close>)
  show ?thesis
  proof (cases act)
    case (CreateLink req)
    obtain r w' where run: "create_link P D actor req w = (r, w')" by fastforce
    with create_link_db [OF run] frame create_backed [OF b] show ?thesis by (auto simp: CreateLink)
  next
    case (ViewLink token)
    obtain r w' where "get_link_by_token D token w = (r, w')" by fastforce
    with view_backed [OF ids b this] show ?thesis by (simp add: ViewLink)
  next
    case (ClaimLink token payload)
    obtain r w' where run: "claim_link P D actor token payload w = (r, w')" by fastforce
    with claim_link_step [OF bk run] frame claim_backed [OF ids b] show ?thesis by (auto simp: ClaimLink)
  next
    case (CancelLink token)
    obtain r w' where run: "cancel_link D actor token w = (r, w')" by fastforce
    with cancel_link_db [OF run] b cancel_backed [OF ids b] show ?thesis by (auto simp: CancelLink)
  qed
qed

lemma system_op_backed:
  assumes ok: "system_ok (db w)" and b: "links_backed (db w)"
  shows "links_backed (db (system_op P D act w))"
proof -
  let ?d = "db (system_op P D act w)"
  have "extends (transfers (db w)) (transfers ?d)"
    using step_change_evolves [OF system_op_change [OF ok]] by (simp add: evolves_def)
  then have t: "set (transfers (db w)) \<subseteq> set (transfers ?d)" by (auto simp: extends_def)
  show ?thesis
  proof (cases act)
    case (AuthAction a)
    have "links ?d = links (db w)"
      using auth_change_tables [OF auth_op_change [where P = P and D = D and act = a and w = w]]
      by (simp add: AuthAction)
    with t show ?thesis by (intro links_backed_frame [OF _ _ b]) simp_all
  next
    case (SendTransfer s req)
    obtain r w' where run: "process_transfer P D s req w = (r, w')" by fastforce
    have "links (db w') = links (db w)"
      using process_transfer_cases [OF run books_accounts] ok
      by (auto simp: system_ok_def only_events_eq refuses_def elim!: outcome_effect.elims)
    with t show ?thesis by (intro links_backed_frame [OF _ _ b]) (simp_all add: SendTransfer run)
  next
    case (OnRequest u a)
    have "request_change (db w) ?d"
      using ok books_accounts by (auto simp: OnRequest system_ok_def intro: request_op_change)
    with t show ?thesis by (intro links_backed_frame [OF _ _ b]) (simp_all add: request_change_def)
  next
    case (OnLink u a)
    with link_op_backed [of w P D u a] ok b show ?thesis by (simp add: system_ok_def)
  next
    case (MarkRead u req)
    obtain r w' where run: "mark_notifications_read D u req w = (r, w')" by fastforce
    with mark_notifications_read_db [OF run] t show ?thesis
      by (intro links_backed_frame [OF _ _ b]) (auto simp: MarkRead)
  qed
qed

lemma reachable_backed:
  assumes "reachable P w"
  shows "links_backed (db w)"
  using assms
proof (induction rule: reachable.induct)
  case (start w)
  then show ?case by (simp add: links_backed_def empty_db_def)
next
  case (step w w')
  from step.hyps(2) show ?case
  proof (rule system_stepE)
    fix D act assume "w' = system_op P D act w"
    with system_op_backed [OF reachable_ok [OF step.hyps(1)] step.IH] show ?thesis by simp
  qed (use step.IH in simp)
qed

text \<open>C20: In every state that the service reaches while it serves its requests one after the other, the links mean
what they say: a claimed link names its claimer and a completed transfer of its amount from its creator to that
claimer, a link that is not claimed names neither, and no transfer stands behind two links.  Handlers that
interleave can break the second part: \<open>late_expiry_overwrites_claim\<close> of the theory \<open>Races\<close> reaches an expired
link that names both.\<close>

theorem claimed_links_backed:
  assumes "reachable P w"
  shows "links_backed (db w)"
  by (rule reachable_backed [OF assms])

definition claimed_world :: "kv world" where
  "claimed_world = system_op sample_platform (sample_draws 5000 6)
     (OnLink dave (ClaimLink carols_token \<lparr>cp_pin = ''9999'', cp_idempotency_key = Uuid 9\<rparr>)) linked_world"

lemma claimed_reachable: "reachable sample_platform claimed_world"
  unfolding claimed_world_def linked_world_def by (intro performs_reachable) (rule paid_reachable)

theorem claimed_links_backed_witness:
  "\<exists>t \<in> set (transfers (db claimed_world)). t_sender_id t = carol \<and> t_recipient_id t = dave \<and> t_amount_paisa t = 20"
proof -
  have l: "map (\<lambda>k. (k_status k, k_creator_id k, k_claimer_id k, k_amount_paisa k)) (links (db claimed_world)) =
      [(''claimed'', carol, Some dave, 20)]" by code_simp
  then obtain k where "links (db claimed_world) = [k]" "k_status k = ''claimed''" "k_creator_id k = carol"
    "k_claimer_id k = Some dave" "k_amount_paisa k = 20" by auto
  with claimed_links_backed [OF claimed_reachable] show ?thesis
    by (auto simp: links_backed_def link_well_formed_def backed_by_def)
qed

end
