(* ===== verification/Races.thy ===== *)
theory Races
  imports Concurrency Backing
begin

text \<open>
  Two places where handlers that run at the same time do what no sequence of them does.  Both come from a
  check and the write that relies on it being two steps: the lazy expiry of a link
  (\<open>features/links/service.rs\<close>) and the failure counter of the transaction PIN (\<open>core/pin.rs\<close>).
\<close>

section \<open>The lazy expiry of a link\<close>

text \<open>C15: The lazy expiry of a link races with its claim: a claim has found the link open and in time and is about
to commit, somebody looks at the link after its deadline and finds it still active, the claim commits and pays,
and then the look-up marks the link as expired.  The server can reach a state with a link that says expired and
names its claimer and its transfer; no sequence of complete requests can.\<close>

theorem late_expiry_overwrites_claim:
  "\<exists>w ts. served sample_platform (w, ts) \<and>
     (\<exists>k \<in> set (links (db w)). k_status k = ''expired'' \<and> k_claimer_id k = Some dave \<and> k_transfer_id k \<noteq> None) \<and>
     balance_of (db w) dave = balance_of (db linked_world) dave + 20 \<and>
     \<not> (\<exists>v. db v = db w \<and> reachable sample_platform v)"
proof -
  obtain k where k: "links (db (fst raced_server)) = [k]" "k_status k = ''expired''" "k_claimer_id k = Some dave"
    using raced_links by auto
  have "map k_transfer_id (links (db (fst raced_server))) \<noteq> [None]"
    "balance_of (db (fst raced_server)) dave = balance_of (db linked_world) dave + 20" by code_simp+
  moreover have "\<not> reachable sample_platform v" if "db v = db (fst raced_server)" for v
    using reachable_backed [of sample_platform v] k that by (auto simp: links_backed_def link_well_formed_def)
  ultimately show ?thesis using raced_served k by auto
qed

section \<open>Wrong PINs at the same time\<close>

text \<open>What is left of the PIN check once the failure counter was read and found below the limit.\<close>

definition after_count :: "'r platform \<Rightarrow> draws \<Rightarrow> uuid \<Rightarrow> str \<Rightarrow> ('r, unit) thread" where
  "after_count P D user_id provided_pin =
     tbnd (await (pool_fetch (\<lambda>d. map_option u_pin_hash (find (\<lambda>u. u_id u = user_id) (users d))))) (\<lambda>row.
      tbnd (tlift (ok_or row (NotFound ''User not found''))) (\<lambda>pin_hash.
      tbnd (tlift (verify_pin_hash P provided_pin pin_hash)) (\<lambda>is_valid.
      if \<not> is_valid then pin_failure_thread P D user_id
      else await (redis_write (rd_del (rds P) (clock D 4) (pin_key P user_id))))))"

lemma count_read:
  assumes "var_or (rd_get_i64 (rds P) (clock D 0) (pin_key P u) (redis w)) 0 < MAX_PIN_FAILURES"
  shows "\<exists>f. tanswer k (tthn (enforce_user_pin_thread P D u pin) t) = Await f \<and>
     f w = (w, tanswer k (tthn (after_count P D u pin) t))"
  using assms
  by (simp add: enforce_user_pin_thread_def after_count_def await_def tanswer_def tthn_def redis_run tguard_def tret_def)

lemma pin_failure_compared:
  "\<exists>e w'. pin_failure P D u w = (Inl e, w') \<and> e \<in> {pin_incorrect, pin_locked_now} \<and>
     (fates w = [] \<longrightarrow> users (db w') = users (db w) \<and> fates w' = [])"
proof -
  let ?w = "snd (discard (log_event (clock D 3) ''auth'' u ''pin_failed'' (Some u) ''Incorrect transaction PIN entered''
      (JObj [(''failure_count'', JInt (var_or (fst (rd_incr (rds P) (clock D 1) (pin_key P u) 1 (redis w))) 1))]))
    (w\<lparr>redis := rd_expire (rds P) (clock D 2) (pin_key P u) PIN_LOCKOUT_SECONDS
      (snd (rd_incr (rds P) (clock D 1) (pin_key P u) 1 (redis w)))\<rparr>))"
  have "\<exists>e. pin_failure P D u w = (Inl e, ?w) \<and> e \<in> {pin_incorrect, pin_locked_now}"
    by (cases "MAX_PIN_FAILURES \<le> var_or (fst (rd_incr (rds P) (clock D 1) (pin_key P u) 1 (redis w))) 1")
      (simp_all add: pin_failure_def monad_simps Let_def)
  moreover have "users (db ?w) = users (db w) \<and> fates ?w = []" if "fates w = []"
    using that by (simp add: discard_run log_event_def pool_execute_proceeds insert_event_def
        split: sum.split if_split)
  ultimately show ?thesis by blast
qed

lemma wrong_pin_compared:
  assumes "find (\<lambda>x. u_id x = u) (users (db w)) = Some row" "phc_new P (u_pin_hash row) = None"
    "\<not> argon2_verify P pin (u_pin_hash row)" "fates w = []"
  shows "\<exists>e w'. run (tanswer k (tthn (after_count P D u pin) t)) w = (Inl e, w') \<and> e \<in> {pin_incorrect, pin_locked_now} \<and>
     users (db w') = users (db w) \<and> fates w' = []"
proof -
  from pin_failure_compared [of P D u w] assms(4) obtain e w' where
    f: "pin_failure P D u w = (Inl e, w')" "e \<in> {pin_incorrect, pin_locked_now}" "users (db w') = users (db w)" "fates w' = []" by blast
  have "run (after_count P D u pin) = bnd (pool_fetch (\<lambda>d. map_option u_pin_hash (find (\<lambda>x. u_id x = u) (users d)))) (\<lambda>row.
      bnd (lift (ok_or row (NotFound ''User not found''))) (\<lambda>pin_hash.
      bnd (lift (verify_pin_hash P pin pin_hash)) (\<lambda>is_valid.
      if \<not> is_valid then pin_failure P D u else redis_write (rd_del (rds P) (clock D 4) (pin_key P u)))))"
    by (simp add: after_count_def pin_failure_thread_def pin_failure_def run_simps cong: if_cong)
  then have "run (after_count P D u pin) w = (Inl e, w')"
    using assms f(1) by (simp add: bnd_run pool_fetch_proceeds lift_run verify_pin_hash_def)
  with f(2-4) show ?thesis by (simp add: run_simps answering_def bnd_run thn_run)
qed

text \<open>The rest of a transfer.\<close>

definition after_pin ::
  "'r platform \<Rightarrow> draws \<Rightarrow> uuid \<Rightarrow> create_transfer_request \<Rightarrow> ('r, transfer_response \<times> bool) thread" where
  "after_pin P D sender_id req =
     tbnd (tlift (parse_amount (ct_amount_paisa req))) (\<lambda>amount.
      tbnd (resolve_recipient_thread P (ct_recipient req)) (\<lambda>recipient_id.
      tthn (tguard (\<not> sender_id = recipient_id) (BadRequest ''Self transfers are not permitted''))
      (tbnd (await (pool_fetch (find_transfer_by_key (ct_idempotency_key req)))) (\<lambda>existing_row.
       tbnd (tlift (check_replay sender_id recipient_id (as_paisa amount) existing_row)) (\<lambda>replay.
       case replay of
         Some resp \<Rightarrow> tret (resp, True)
       | None \<Rightarrow> fresh_transfer_thread P D sender_id recipient_id (as_paisa amount)
                   (clean_note (ct_note req)) (ct_idempotency_key req))))))"

lemma transfer_after_pin:
  "process_transfer_thread P D u req = tthn (enforce_user_pin_thread P D u (ct_pin req)) (after_pin P D u req)"
  by (simp add: process_transfer_thread_def after_pin_def)

lemma all_advance:
  assumes "\<And>x. x \<in> set xs \<Longrightarrow> \<exists>f. a x = Await f \<and> f w = (w, b x)"
  shows "\<exists>is. schedule is (w, us @ map a xs) = (w, us @ map b xs)"
  using assms
proof (induction xs arbitrary: us)
  case Nil
  then show ?case by (intro exI [of _ "[]"]) simp
next
  case (Cons x xs)
  from Cons.prems [of x] obtain f where f: "a x = Await f" "f w = (w, b x)" by auto
  then have 1: "schedule [length us] (w, us @ map a (x # xs)) = (w, (us @ [b x]) @ map a xs)" by (simp add: schedule_def)
  from Cons.IH [of "us @ [b x]"] Cons.prems obtain "is" where
    "schedule is (w, (us @ [b x]) @ map a xs) = (w, (us @ [b x]) @ map b xs)" by auto
  with 1 have "schedule ([length us] @ is) (w, us @ map a (x # xs)) = (w, us @ map b (x # xs))"
    unfolding schedule_append by simp
  then show ?case by blast
qed

lemma all_finish:
  assumes "\<And>x v. x \<in> set xs \<Longrightarrow> I v \<Longrightarrow> I (snd (run (b x) v)) \<and> Q (fst (run (b x) v))" "I w"
  shows "\<exists>is w' rs. schedule is (w, us @ map b xs) = (w', us @ map Done rs) \<and> length rs = length xs \<and>
     (\<forall>r \<in> set rs. Q r)"
  using assms
proof (induction xs arbitrary: us w)
  case Nil
  show ?case by (intro exI [of _ "[]"] exI [of _ w]) simp
next
  case (Cons x xs)
  let ?r = "fst (run (b x) w)" and ?v = "snd (run (b x) w)"
  from schedule_alone [of us w "b x" "map b xs"] obtain n where
    1: "schedule (replicate n (length us)) (w, us @ map b (x # xs)) = (?v, (us @ [Done ?r]) @ map b xs)" by auto
  from Cons.IH [of ?v "us @ [Done ?r]"] Cons.prems obtain "is" w' rs where
    2: "schedule is (?v, (us @ [Done ?r]) @ map b xs) = (w', (us @ [Done ?r]) @ map Done rs)"
    and rs: "length rs = length xs" "\<forall>r \<in> set rs. Q r" by auto
  from 1 2 have "schedule (replicate n (length us) @ is) (w, us @ map b (x # xs)) = (w', us @ map Done (?r # rs))"
    unfolding schedule_append by simp
  moreover have "length (?r # rs) = length (x # xs)" "\<forall>r \<in> set (?r # rs). Q r" using rs Cons.prems by auto
  ultimately show ?case by blast
qed

lemma wrong_pins_at_once:
  fixes P :: "'r platform" and w :: "'r world" and guesses :: "(draws \<times> create_transfer_request) list"
  assumes "find (\<lambda>x. u_id x = u) (users (db w)) = Some row" "phc_new P (u_pin_hash row) = None" "fates w = []"
    "\<forall>(D, req) \<in> set guesses. \<not> argon2_verify P (ct_pin req) (u_pin_hash row) \<and>
       var_or (rd_get_i64 (rds P) (clock D 0) (pin_key P u) (redis w)) 0 < MAX_PIN_FAILURES"
  shows "\<exists>is w' rs. schedule is (w, map (\<lambda>(D, req). action_thread P D (SendTransfer u req)) guesses) = (w', map Done rs) \<and>
     length rs = length guesses \<and> (\<forall>r \<in> set rs. pin_compared r)"
proof -
  let ?a = "\<lambda>(D, req). action_thread P D (SendTransfer u req)"
  let ?b = "\<lambda>(D, req). tanswer TransferAnswer (tthn (after_count P D u (ct_pin req)) (after_pin P D u req))"
  let ?I = "\<lambda>v :: 'r world. users (db v) = users (db w) \<and> fates v = []"
  have "\<exists>is. schedule is (w, [] @ map ?a guesses) = (w, [] @ map ?b guesses)"
  proof (rule all_advance)
    fix x assume "x \<in> set guesses"
    with assms(4) show "\<exists>f. ?a x = Await f \<and> f w = (w, ?b x)"
      by (cases x) (auto simp: transfer_after_pin intro!: count_read)
  qed
  then obtain is1 where 1: "schedule is1 (w, map ?a guesses) = (w, map ?b guesses)" by auto
  have "\<exists>is w' rs. schedule is (w, [] @ map ?b guesses) = (w', [] @ map Done rs) \<and> length rs = length guesses \<and>
     (\<forall>r \<in> set rs. pin_compared r)"
  proof (rule all_finish [where I = ?I])
    fix x v assume x: "x \<in> set guesses" and v: "?I v"
    obtain D req where [simp]: "x = (D, req)" by (cases x)
    from assms x v have "find (\<lambda>x. u_id x = u) (users (db v)) = Some row" "\<not> argon2_verify P (ct_pin req) (u_pin_hash row)"
      by auto
    from wrong_pin_compared [OF this(1) assms(2) this(2), of TransferAnswer D "after_pin P D u req"] v
    obtain e w' where "run (?b x) v = (Inl e, w')" "e \<in> {pin_incorrect, pin_locked_now}" "?I w'" by auto
    then show "?I (snd (run (?b x) v)) \<and> pin_compared (fst (run (?b x) v))" by (auto simp: pin_compared_def)
  qed (use assms(3) in simp)
  then obtain is2 w' rs where 2: "schedule is2 (w, map ?b guesses) = (w', map Done rs)"
    and rs: "length rs = length guesses" "\<forall>r \<in> set rs. pin_compared r" by auto
  from 1 2 have "schedule (is1 @ is2) (w, map ?a guesses) = (w', map Done rs)" unfolding schedule_append by simp
  with rs show ?thesis by blast
qed

text \<open>The same guesses, one after the other.\<close>

lemma wrong_pin_transfer:
  assumes "enforce_user_pin P D u (ct_pin req) w = (r, w')" "\<not> pin_verified P u (ct_pin req) (db w)"
  shows "\<exists>e. r = Inl e \<and> process_transfer P D u req w = (Inl e, w')"
proof (cases r)
  case (Inl e)
  with assms(1) show ?thesis by (simp add: process_transfer_def thn_run)
next
  case (Inr x)
  with assms enforce_user_pin_verified(1) show ?thesis by blast
qed

lemma wrong_pins_in_turn:
  assumes "\<forall>g \<in> set gs. \<not> pin_verified P u (ct_pin (snd g)) (db w)"
    "run_all (\<lambda>(D, req). process_transfer P D u req) gs w = (rs, w')"
  shows "\<exists>as. run_all (pin_guess P u) (map (\<lambda>(D, req). (D, ct_pin req)) gs) w = (as, w') \<and>
     map pin_compared rs = map pin_compared as"
  using assms
proof (induction gs arbitrary: w rs)
  case (Cons g gs)
  obtain D req where g: "g = (D, req)" by (cases g)
  obtain a v where a: "enforce_user_pin P D u (ct_pin req) w = (a, v)" by fastforce
  from wrong_pin_transfer [OF a] Cons.prems(1) obtain e where
    e: "a = Inl e" "process_transfer P D u req w = (Inl e, v)" by (auto simp: g)
  obtain ts v' where ts: "run_all (\<lambda>(D, req). process_transfer P D u req) gs v = (ts, v')" by fastforce
  with Cons.prems(2) e(2) have rs: "rs = Inl e # ts" "v' = w'" by (auto simp: g)
  have "users (db v) = users (db w)" by (rule only_events_eq(1) [OF enforce_user_pin_db [OF a]])
  then have "\<forall>g \<in> set gs. \<not> pin_verified P u (ct_pin (snd g)) (db v)"
    using Cons.prems(1) pin_verified_users by (metis list.set_intros(2))
  from Cons.IH [OF this ts [unfolded rs(2)]] obtain as where
    "run_all (pin_guess P u) (map (\<lambda>(D, req). (D, ct_pin req)) gs) v = (as, w')" "map pin_compared ts = map pin_compared as"
    by blast
  moreover have "pin_compared (Inl e :: app_error + transfer_response \<times> bool) = pin_compared (Inl e :: app_error + unit)"
    by (simp add: pin_compared_def)
  ultimately show ?case using a e(1) rs(1) by (simp add: g pin_guess_def)
qed simp

text \<open>C16: The lock of the transaction PIN counts too late: the failure counter is read before the PIN is compared
and raised after it.  Take any number of transfers with wrong PINs, all of them within the lifetime of the counter, and an
account that is not locked.  Sent at once, there is an order of the turns of their handlers, with nothing else in between,
in which every one of them has its PIN compared with the stored hash; sent one after the other, at most five of the same
transfers have.\<close>

theorem pin_lock_races:
  fixes P :: "'r platform" and w :: "'r world" and guesses :: "(draws \<times> create_transfer_request) list"
  assumes "redis_counters (rds P) up failures" "up (redis w)" "fates w = []"
    "find (\<lambda>x. u_id x = u) (users (db w)) = Some row" "phc_new P (u_pin_hash row) = None"
    "\<forall>(D, req) \<in> set guesses. \<not> argon2_verify P (ct_pin req) (u_pin_hash row)"
    "in_lifetime T PIN_LOCKOUT_SECONDS guesses"
    "\<forall>t \<ge> T. 0 \<le> var_or (failures t (redis w) (pin_key P u)) 0 \<and> var_or (failures t (redis w) (pin_key P u)) 0 < MAX_PIN_FAILURES"
  shows "(\<exists>is w' rs. schedule is (w, map (\<lambda>(D, req). action_thread P D (SendTransfer u req)) guesses) = (w', map Done rs) \<and>
       length rs = length guesses \<and> (\<forall>r \<in> set rs. pin_compared r)) \<and>
    length (filter pin_compared (fst (run_all (\<lambda>(D, req). process_transfer P D u req) guesses w))) \<le> 5"
proof
  have life: "T \<le> clock D 0" if "(D, req) \<in> set guesses" for D req
    using assms(7) that by (auto simp: in_lifetime_def)
  have "var_or (rd_get_i64 (rds P) (clock D 0) (pin_key P u) (redis w)) 0 < MAX_PIN_FAILURES" if "(D, req) \<in> set guesses" for D req
    using assms(2,8) life [OF that] by (simp add: redis_counters.get [OF assms(1)])
  with assms(6) have "\<forall>(D, req) \<in> set guesses. \<not> argon2_verify P (ct_pin req) (u_pin_hash row) \<and>
      var_or (rd_get_i64 (rds P) (clock D 0) (pin_key P u) (redis w)) 0 < MAX_PIN_FAILURES" by auto
  from wrong_pins_at_once [OF assms(4,5,3) this]
  show "\<exists>is w' rs. schedule is (w, map (\<lambda>(D, req). action_thread P D (SendTransfer u req)) guesses) = (w', map Done rs) \<and>
       length rs = length guesses \<and> (\<forall>r \<in> set rs. pin_compared r)" .
  let ?gs = "map (\<lambda>(D, req). (D, ct_pin req)) guesses"
  have wrong: "\<forall>g \<in> set guesses. \<not> pin_verified P u (ct_pin (snd g)) (db w)"
    using assms(4,6) by (auto simp: pin_verified_def find_user_def)
  obtain rs w' where rs: "run_all (\<lambda>(D, req). process_transfer P D u req) guesses w = (rs, w')" by fastforce
  from wrong_pins_in_turn [OF wrong rs] obtain as where
    as: "run_all (pin_guess P u) ?gs w = (as, w')" "map pin_compared rs = map pin_compared as" by blast
  have "in_lifetime T PIN_LOCKOUT_SECONDS ?gs"
    using assms(7) by (auto simp: in_lifetime_def comp_def case_prod_unfold)
  moreover have "\<And>t. T \<le> t \<Longrightarrow> 0 \<le> var_or (failures t (redis w) (pin_key P u)) 0" using assms(8) by blast
  moreover have "\<forall>g \<in> set ?gs. \<not> pin_verified P u (snd g) (db w)" using wrong by auto
  ultimately have "length (filter pin_compared as) \<le> 5"
    using pin_guesses_counted [OF assms(1,2) _ _ _ as(1)] by blast
  moreover have "length (filter pin_compared xs) = length (filter id (map pin_compared xs))" for xs :: "(app_error + 'x) list"
    by (simp add: filter_map comp_def)
  ultimately show "length (filter pin_compared (fst (run_all (\<lambda>(D, req). process_transfer P D u req) guesses w))) \<le> 5"
    using as(2) rs by (metis fst_conv filter_map length_map id_comp o_id)
qed

theorem pin_lock_races_witness:
  "\<exists>is w' rs. schedule is (sample_world, replicate 100 (action_thread sample_platform (sample_draws 1000 2)
       (SendTransfer alice (sample_transfer\<lparr>ct_pin := ''0000''\<rparr>)))) = (w', map Done rs) \<and>
     length rs = 100 \<and> (\<forall>r \<in> set rs. pin_compared r)"
proof -
  let ?g = "(sample_draws 1000 2, sample_transfer\<lparr>ct_pin := ''0000''\<rparr>)"
  have f: "find (\<lambda>x. u_id x = alice) (users (db sample_world)) = Some (sample_user alice ''PSTU1'' ''01700000001'')"
    "phc_new sample_platform (u_pin_hash (sample_user alice ''PSTU1'' ''01700000001'')) = None" "fates sample_world = []"
    "\<not> argon2_verify sample_platform ''0000'' (u_pin_hash (sample_user alice ''PSTU1'' ''01700000001''))" by code_simp+
  have "\<forall>t \<ge> 0. 0 \<le> var_or (kv_count t (redis sample_world) (pin_key sample_platform alice)) 0 \<and>
      var_or (kv_count t (redis sample_world) (pin_key sample_platform alice)) 0 < MAX_PIN_FAILURES"
    by (simp add: sample_world_def kv_empty_def kv_count_def var_or_def MAX_PIN_FAILURES_def)
  moreover have "in_lifetime 0 PIN_LOCKOUT_SECONDS (replicate 100 ?g)"
    by (simp add: in_lifetime_def instant_def sample_draws_def PIN_LOCKOUT_SECONDS_def sorted_replicate)
  ultimately show ?thesis
    using pin_lock_races [OF sample_counters _ f(3,1,2), of "replicate 100 ?g" 0] f(4) by simp
qed

end
