(* ===== verification/History.thy ===== *)
theory History
  imports Limits
begin

text \<open>
  Transactions, statement and activity of a user (\<open>features/history/service.rs\<close>, \<open>routes.rs\<close>, \<open>dto.rs\<close>).
  \<open>ILIKE\<close> belongs to PostgreSQL and the RFC 3339 rendering of a timestamp to chrono: both are
  parameters.
\<close>

definition MAX_STATEMENT_ROWS :: nat where "MAX_STATEMENT_ROWS = 10000"

section \<open>Transactions\<close>

record transaction_history_query =
  hq_direction :: "str option"
  hq_kind :: "str option"
  hq_status :: "str option"
  hq_counterparty :: "str option"
  hq_from :: "int option"
  hq_to :: "int option"
  hq_amount_min :: "str option"
  hq_amount_max :: "str option"
  hq_q :: "str option"
  hq_cursor :: "int option"
  hq_limit :: "int option"

record history_counterparty =
  hc_name :: str
  hc_account_number :: str

record transaction_item_dto =
  ti_id :: int
  ti_reference :: str
  ti_kind :: str
  ti_direction :: str
  ti_status :: str
  ti_amount_paisa :: str
  ti_running_balance :: str
  ti_counterparty :: "history_counterparty option"
  ti_note :: str
  ti_created_at :: int

record paginated_transactions =
  pt_items :: "transaction_item_dto list"
  pt_next_cursor :: "int option"

definition bad_direction :: "str option \<Rightarrow> bool" where
  "bad_direction d = (case d of None \<Rightarrow> False
     | Some d \<Rightarrow> d \<noteq> ''sent'' \<and> d \<noteq> ''received'' \<and> d \<noteq> ''-1'' \<and> d \<noteq> ''1'')"

definition dir_normalized :: "str option \<Rightarrow> str option" where
  "dir_normalized = map_option (\<lambda>d.
     if d = ''-1'' \<or> d = ''sent'' then ''sent''
     else if d = ''1'' \<or> d = ''received'' then ''received'' else d)"

definition amount_bound :: "str \<Rightarrow> str option \<Rightarrow> app_error + int option" where
  "amount_bound name p = (case p of None \<Rightarrow> Inr None
     | Some p \<Rightarrow> map_sum (\<lambda>e. BadRequest (''Invalid '' @ name @ '': '' @ money_error_text e))
                   (\<lambda>a. Some (as_paisa a)) (parse_from_str p))"

text \<open>A filter that is absent (\<open>$n IS NULL\<close>) lets every row pass.\<close>

definition passes :: "'a option \<Rightarrow> ('a \<Rightarrow> bool) \<Rightarrow> bool" where
  "passes v ok = (case v of None \<Rightarrow> True | Some x \<Rightarrow> ok x)"

definition counterparty_row :: "database \<Rightarrow> uuid option \<Rightarrow> user_row option" where
  "counterparty_row d i = Option.bind i (\<lambda>i. find_user i d)"

definition history_matches ::
  "(str \<Rightarrow> str \<Rightarrow> bool) \<Rightarrow> uuid \<Rightarrow> transaction_history_query \<Rightarrow> int option \<Rightarrow> int option \<Rightarrow> database \<Rightarrow>
     history_row \<Rightarrow> bool" where
  "history_matches ilike user_id q lo hi d h \<longleftrightarrow> h_user_id h = user_id \<and>
     passes (dir_normalized (hq_direction q)) (\<lambda>v. h_direction h = v) \<and>
     passes (hq_kind q) (\<lambda>v. h_kind h = v) \<and>
     passes (hq_status q) (\<lambda>v. h_status h = v) \<and>
     passes (hq_from q) (\<lambda>t. h_created_at h \<ge> t) \<and>
     passes (hq_to q) (\<lambda>t. h_created_at h \<le> t) \<and>
     passes lo (\<lambda>a. h_amount_paisa h \<ge> a) \<and>
     passes hi (\<lambda>a. h_amount_paisa h \<le> a) \<and>
     passes (or_else (hq_counterparty q) (hq_q q)) (\<lambda>s. ilike (h_reference h) (s @ ''%'') \<or>
       (case counterparty_row d (h_counterparty_id h) of None \<Rightarrow> False
        | Some u \<Rightarrow> ilike (u_name u) (''%'' @ s @ ''%'') \<or> u_phone u = s \<or> u_account_number u = s))"

definition transaction_item :: "database \<Rightarrow> history_row \<Rightarrow> transaction_item_dto" where
  "transaction_item d h =
     \<lparr>ti_id = h_id h, ti_reference = h_reference h, ti_kind = h_kind h, ti_direction = h_direction h,
      ti_status = h_status h, ti_amount_paisa = show_int (h_amount_paisa h),
      ti_running_balance = show_int (h_balance_after h),
      ti_counterparty = map_option (\<lambda>u. \<lparr>hc_name = u_name u, hc_account_number = u_account_number u\<rparr>)
        (counterparty_row d (h_counterparty_id h)),
      ti_note = h_note h, ti_created_at = h_created_at h\<rparr>"

definition get_transactions ::
  "(str \<Rightarrow> str \<Rightarrow> bool) \<Rightarrow> uuid \<Rightarrow> transaction_history_query \<Rightarrow> ('r, paginated_transactions) service" where
  "get_transactions ilike user_id q =
     thn (guard (\<not> bad_direction (hq_direction q))
            (BadRequest (''Invalid direction filter: must be '' @ [CHR 39] @ ''sent'' @ [CHR 39] @ '' or '' @
               [CHR 39] @ ''received'' @ [CHR 39])))
     (let limit = clamp_limit (hq_limit q) in
      bnd (lift (amount_bound ''amount_min'' (hq_amount_min q))) (\<lambda>min_paisa.
      bnd (lift (amount_bound ''amount_max'' (hq_amount_max q))) (\<lambda>max_paisa.
      pool_fetch (\<lambda>d. case keyset_page h_id limit (hq_cursor q)
                           (filter (history_matches ilike user_id q min_paisa max_paisa d) (history d)) of
        (rows, nxt) \<Rightarrow> \<lparr>pt_items = map (transaction_item d) rows, pt_next_cursor = nxt\<rparr>))))"

section \<open>The statement\<close>

record statement_query =
  sq_from :: "int option"
  sq_to :: "int option"

text \<open>\<open>status = 'completed' .. ORDER BY th.id ASC LIMIT 10001\<close>.\<close>

definition statement_rows :: "uuid \<Rightarrow> statement_query \<Rightarrow> database \<Rightarrow> history_row list" where
  "statement_rows user_id q d = take (Suc MAX_STATEMENT_ROWS) (sort_key h_id
     (filter (\<lambda>h. h_user_id h = user_id \<and> h_status h = ''completed'' \<and>
        passes (sq_from q) (\<lambda>t. h_created_at h \<ge> t) \<and> passes (sq_to q) (\<lambda>t. h_created_at h \<le> t)) (history d)))"

definition statement_header :: str where
  "statement_header = ''reference,created_at,kind,direction,amount,running_balance,counterparty'' @ [CHR 10]"

definition statement_line :: "(int \<Rightarrow> str) \<Rightarrow> database \<Rightarrow> history_row \<Rightarrow> str" where
  "statement_line rfc3339 d h =
     h_reference h @ '','' @ rfc3339 (h_created_at h) @ '','' @ h_kind h @ '','' @ h_direction h @ '','' @
     show_int (h_amount_paisa h) @ '','' @ show_int (h_balance_after h) @ '','' @ [CHR 34] @
     (case counterparty_row d (h_counterparty_id h) of None \<Rightarrow> []
      | Some u \<Rightarrow> u_name u @ '' ('' @ u_account_number u @ '')'') @ [CHR 34, CHR 10]"

definition generate_statement_csv :: "(int \<Rightarrow> str) \<Rightarrow> uuid \<Rightarrow> statement_query \<Rightarrow> ('r, str) service" where
  "generate_statement_csv rfc3339 user_id q =
     bnd (pool_fetch (\<lambda>d. (d, statement_rows user_id q d))) (\<lambda>(d, rows).
     thn (guard (\<not> length rows > MAX_STATEMENT_ROWS)
            (Unprocessable ''Statement range contains too many records (max 10,000). Please narrow your date range.''))
     (ret (statement_header @ concat (map (statement_line rfc3339 d) rows))))"

section \<open>Activity\<close>

definition get_user_activity :: "uuid \<Rightarrow> int option \<Rightarrow> int option \<Rightarrow> ('r, process_event_dto list) service" where
  "get_user_activity user_id cursor limit =
     pool_fetch (\<lambda>d. map (process_event_of d) (keyset_rows e_id cursor (clamp_limit limit)
       (filter (\<lambda>r. e_actor_id r = Some user_id \<or> e_entity_id r = user_id) (events d))))"

section \<open>Handlers\<close>

definition get_transactions_handler ::
  "(str \<Rightarrow> str \<Rightarrow> bool) \<Rightarrow> str \<Rightarrow> authenticated_user \<Rightarrow> transaction_history_query \<Rightarrow>
     ('r, paginated_transactions api_response) service" where
  "get_transactions_handler ilike rid auth_user params =
     bnd (get_transactions ilike (au_user_id auth_user) params) (\<lambda>res. ret (api_response_new rid res))"

record csv_response =
  cr_status :: nat
  cr_headers :: "(str \<times> str) list"
  cr_body :: str

definition get_statement_csv_handler ::
  "(int \<Rightarrow> str) \<Rightarrow> authenticated_user \<Rightarrow> statement_query \<Rightarrow> ('r, csv_response) service" where
  "get_statement_csv_handler rfc3339 auth_user params =
     bnd (generate_statement_csv rfc3339 (au_user_id auth_user) params) (\<lambda>csv_content.
     ret \<lparr>cr_status = 200, cr_headers = [(''content-type'', ''text/csv; charset=utf-8''),
            (''content-disposition'', ''attachment; filename='' @ [CHR 34] @ ''statement.csv'' @ [CHR 34])],
          cr_body = csv_content\<rparr>)"

definition get_activity_handler ::
  "str \<Rightarrow> authenticated_user \<Rightarrow> int option \<Rightarrow> int option \<Rightarrow> ('r, process_event_dto list api_response) service" where
  "get_activity_handler rid auth_user cursor limit =
     bnd (get_user_activity (au_user_id auth_user) cursor limit) (\<lambda>events. ret (api_response_new rid events))"

section \<open>Pages\<close>

text \<open>A client that follows the cursors, at most \<open>n\<close> pages far.\<close>

fun follow_transactions ::
  "(str \<Rightarrow> str \<Rightarrow> bool) \<Rightarrow> uuid \<Rightarrow> nat \<Rightarrow> transaction_history_query \<Rightarrow> 'r world \<Rightarrow> transaction_item_dto list" where
  "follow_transactions ilike u 0 q w = []"
| "follow_transactions ilike u (Suc n) q w =
     (case get_transactions ilike u q w of
        (Inl e, w1) \<Rightarrow> []
      | (Inr p, w1) \<Rightarrow> pt_items p @ (case pt_next_cursor p of None \<Rightarrow> []
          | Some c \<Rightarrow> follow_transactions ilike u n (q\<lparr>hq_cursor := Some c\<rparr>) w1))"

definition well_formed_query :: "transaction_history_query \<Rightarrow> int option \<Rightarrow> int option \<Rightarrow> bool" where
  "well_formed_query q lo hi \<longleftrightarrow> \<not> bad_direction (hq_direction q) \<and>
     amount_bound ''amount_min'' (hq_amount_min q) = Inr lo \<and>
     amount_bound ''amount_max'' (hq_amount_max q) = Inr hi"

lemma history_matches_cursor [simp]:
  "history_matches ilike u (q\<lparr>hq_cursor := c\<rparr>) lo hi d h = history_matches ilike u q lo hi d h"
  by (simp add: history_matches_def)

lemma get_transactions_run:
  assumes "well_formed_query q lo hi" "fates w = []"
  shows "get_transactions ilike u q w =
    (Inr (case keyset_page h_id (clamp_limit (hq_limit q)) (hq_cursor q)
            (filter (history_matches ilike u q lo hi (db w)) (history (db w))) of
          (rows, nxt) \<Rightarrow> \<lparr>pt_items = map (transaction_item (db w)) rows, pt_next_cursor = nxt\<rparr>), w)"
  using assms
  by (simp add: well_formed_query_def get_transactions_def Let_def bnd_run thn_run guard_run lift_run pool_fetch_proceeds)

lemma follow_transactions_walk:
  assumes "well_formed_query q lo hi" "fates w = []"
  shows "follow_transactions ilike u n q w = map (transaction_item (db w))
    (walk h_id (clamp_limit (hq_limit q))
       (filter (history_matches ilike u q lo hi (db w)) (history (db w))) n (hq_cursor q))"
  using assms(1)
proof (induction n arbitrary: q)
  case 0
  then show ?case by simp
next
  case (Suc n)
  have IH: "follow_transactions ilike u n (q\<lparr>hq_cursor := Some c\<rparr>) w = map (transaction_item (db w))
    (walk h_id (clamp_limit (hq_limit q))
       (filter (history_matches ilike u q lo hi (db w)) (history (db w))) n (Some c))" for c
    using Suc.IH [of "q\<lparr>hq_cursor := Some c\<rparr>"] Suc.prems by (simp add: well_formed_query_def)
  show ?case
    using IH by (simp add: get_transactions_run [OF Suc.prems assms(2)] split: prod.split option.split)
qed

lemma sort_key_eqI:
  assumes "set xs = set ys" "distinct (map f xs)" "distinct (map f ys)" "sorted (map f ys)"
  shows "sort_key f xs = ys"
proof -
  have "map f (sort_key f xs) = map f ys"
    by (rule sorted_distinct_set_unique) (use assms in \<open>auto simp: distinct_map\<close>)
  moreover have "inj_on f (set (sort_key f xs) \<union> set ys)" using assms by (simp add: distinct_map)
  ultimately show ?thesis by (rule map_inj_on)
qed

text \<open>C32: A client that follows the cursors of its transactions sees every transaction that matches its
filters, exactly once, newest first, whatever the page size.\<close>

theorem history_pages_complete:
  assumes "books (db w)" "fates w = []" "well_formed_query q lo hi" "hq_cursor q = None"
    "length (history (db w)) < n"
  shows "follow_transactions ilike u n q w = map (transaction_item (db w)) (rev
      (filter (history_matches ilike u q lo hi (db w)) (history (db w))))"
proof -
  let ?p = "history_matches ilike u q lo hi (db w)"
  let ?T = "filter ?p (history (db w))"
  have "length ?T < n" by (rule le_less_trans [OF length_filter_le assms(5)])
  then have "walk h_id (clamp_limit (hq_limit q)) ?T n None = sort_key (\<lambda>h. - h_id h) ?T"
    using hk.walk_complete [OF assms(1) clamp_limit_range(1)] by (simp add: hk.ordered_def)
  moreover have ids: "distinct (map h_id ?T)"
    using books_history_ids [OF assms(1)] by (rule distinct_map_filter)
  moreover have "sort_key (\<lambda>h. - h_id h) ?T = rev ?T"
  proof (rule sort_key_eqI)
    show "distinct (map (\<lambda>h. - h_id h) ?T)" "distinct (map (\<lambda>h. - h_id h) (rev ?T))"
      using ids by (auto simp: distinct_map inj_on_def)
    have "sorted (map h_id ?T)"
      using assms(1) by (intro sorted_filter strict_sorted_imp_sorted serial_ids_sorted)
        (simp add: books_def serial_ok_def)
    then show "sorted (map (\<lambda>h. - h_id h) (rev ?T))"
      by (simp add: rev_map [symmetric] sorted_wrt_rev sorted_wrt_map sorted_map)
  qed simp
  ultimately show ?thesis using follow_transactions_walk [OF assms(3,2)] assms(4) by simp
qed

definition all_history :: transaction_history_query where
  "all_history = \<lparr>hq_direction = None, hq_kind = None, hq_status = None, hq_counterparty = None,
     hq_from = None, hq_to = None, hq_amount_min = Some ''0.01'', hq_amount_max = None, hq_q = None,
     hq_cursor = None, hq_limit = Some 1\<rparr>"

text \<open>Two transfers and a refused one, by Alice.\<close>

definition booked_world :: "kv world" where
  "booked_world = snd (run_all (\<lambda>x. process_transfer sample_platform (fst x) alice (snd x)) sample_day sample_world)"

lemma run_transfers_books:
  "books (db w) \<Longrightarrow> books (db (snd (run_all (\<lambda>x. process_transfer P (fst x) s (snd x)) xs w)))"
proof (induction xs arbitrary: w)
  case (Cons x xs)
  obtain r w1 where run: "process_transfer P (fst x) s (snd x) w = (r, w1)" by fastforce
  from process_transfer_books [OF Cons.prems, of P "fst x" s "snd x"] run have "books (db w1)" by simp
  from Cons.IH [OF this] run show ?case by (simp add: case_prod_beta)
qed simp

lemma booked_facts: "books (db booked_world)" "fates booked_world = []" "length (history (db booked_world)) = 6"
  using run_transfers_books [OF books_sample] by (simp add: booked_world_def, code_simp+)

theorem history_pages_complete_witness:
  "map ti_amount_paisa (follow_transactions (\<lambda>_ _. True) alice 7 all_history booked_world) =
     [''40'', ''1250'', ''10000000'']"
proof -
  let ?T = "filter (history_matches (\<lambda>_ _. True) alice all_history (Some 1) None (db booked_world))
    (history (db booked_world))"
  have q: "well_formed_query all_history (Some 1) None" by code_simp
  have l: "length (history (db booked_world)) < 7" by (simp add: booked_facts)
  have "hq_cursor all_history = None" by (simp add: all_history_def)
  note c = history_pages_complete [OF booked_facts(1,2) q this l]
  have "map ti_amount_paisa (map (transaction_item (db booked_world)) (rev ?T)) = [''40'', ''1250'', ''10000000'']"
    by code_simp
  then show ?thesis by (simp only: c)
qed

section \<open>The statement reconciles\<close>

lemma chain_sums:
  "chain_from p ls \<Longrightarrow> i < length ls \<Longrightarrow> l_running_balance (ls ! i) = p + sum_list (map delta (take (Suc i) ls))"
proof (induction ls arbitrary: p i)
  case (Cons l ls)
  then show ?case by (cases i) auto
qed simp

text \<open>The completed history of a user is the user's ledger, row by row.\<close>

lemma user_history_ledger:
  assumes "books d"
  shows "map history_facts (filter (\<lambda>h. h_user_id h = u \<and> h_status h = ''completed'') (history d)) =
    map ledger_facts (user_ledger d u)"
proof -
  let ?H = "filter (\<lambda>h. h_status h = ''completed'') (history d)"
  have "map history_facts ?H = map ledger_facts (ledger d)" using assms by (simp add: books_def history_agrees_def)
  then have "filter (\<lambda>f. fst f = u) (map history_facts ?H) = filter (\<lambda>f. fst f = u) (map ledger_facts (ledger d))"
    by simp
  then show ?thesis
    by (simp add: filter_map comp_def history_facts_def ledger_facts_def user_ledger_def conj_commute)
qed

lemma counterparty_found: "counterparty_row d c = find (\<lambda>x. Some (u_id x) = c) (users d)"
  using find_None_iff [of "\<lambda>_. False" "users d"] by (cases c) (auto simp: counterparty_row_def find_user_def)

text \<open>Read from the ledger, a line of the statement says what it says read from the history.\<close>

lemma statement_line_ledger:
  assumes "history_facts h = ledger_facts l"
  shows "statement_line rfc3339 d h =
     l_reference l @ '','' @ rfc3339 (h_created_at h) @ '','' @ h_kind h @ '','' @ h_direction h @ '','' @
     show_int (l_amount_paisa l) @ '','' @ show_int (l_running_balance l) @ '','' @ [CHR 34] @
     (case find (\<lambda>x. Some (u_id x) = l_counterparty_id l) (users d) of None \<Rightarrow> []
      | Some x \<Rightarrow> u_name x @ '' ('' @ u_account_number x @ '')'') @ [CHR 34, CHR 10]"
    "(h_direction h = ''received'') = (l_direction l = 1)"
  using assms by (simp_all add: history_facts_def ledger_facts_def statement_line_def counterparty_found)

lemma map_same_facts:
  "map f xs = map g ys \<Longrightarrow> (\<And>x y. f x = g y \<Longrightarrow> p x = q y) \<Longrightarrow> map p xs = map q ys"
proof (induction xs arbitrary: ys)
  case (Cons x xs)
  then show ?case by (cases ys) auto
qed simp

lemma map_zip_facts:
  "map f xs = map g ys \<Longrightarrow> (\<And>x y. f x = g y \<Longrightarrow> p x = q (x, y)) \<Longrightarrow> map p xs = map q (zip xs ys)"
proof (induction xs arbitrary: ys)
  case (Cons x xs)
  then show ?case by (cases ys) auto
qed simp

text \<open>C33: A full statement is the user's ledger, row by row.  There is one completed entry of the history for every
ledger row of the user, in the same order and direction; the statement has one line for each of them, oldest first,
and the line shows the reference, the amount, the running balance and the counterparty of the ledger row with the time
and the kind of the entry; the running balance shown is the sum of the movements so far, and their total is the balance
of the account.  With more than ten thousand rows the statement is refused.\<close>

theorem statement_reconciles:
  assumes "books (db w)" "fates w = []" "u \<in> set (map u_id (users (db w)))"
  shows "let rows = filter (\<lambda>h. h_user_id h = u \<and> h_status h = ''completed'') (history (db w));
        L = filter (\<lambda>l. l_user_id l = u) (ledger (db w)) in
    generate_statement_csv rfc3339 u \<lparr>sq_from = None, sq_to = None\<rparr> w =
      (if 10000 < length L
       then Inl (Unprocessable ''Statement range contains too many records (max 10,000). Please narrow your date range.'')
       else Inr (''reference,created_at,kind,direction,amount,running_balance,counterparty'' @ [CHR 10] @
         concat (map (\<lambda>(h, l). l_reference l @ '','' @ rfc3339 (h_created_at h) @ '','' @ h_kind h @ '','' @
           h_direction h @ '','' @ show_int (l_amount_paisa l) @ '','' @ show_int (l_running_balance l) @ '','' @ [CHR 34] @
           (case find (\<lambda>x. Some (u_id x) = l_counterparty_id l) (users (db w)) of None \<Rightarrow> []
            | Some x \<Rightarrow> u_name x @ '' ('' @ u_account_number x @ '')'') @ [CHR 34, CHR 10]) (zip rows L))), w) \<and>
    map (\<lambda>h. h_direction h = ''received'') rows = map (\<lambda>l. l_direction l = 1) L \<and>
    map l_running_balance L =
      map (\<lambda>i. sum_list (map (\<lambda>l. l_direction l * l_amount_paisa l) (take (Suc i) L))) [0..<length L] \<and>
    sum_list (map (\<lambda>l. l_direction l * l_amount_paisa l) L) = balance_of (db w) u"
proof -
  let ?R = "filter (\<lambda>h. h_user_id h = u \<and> h_status h = ''completed'') (history (db w))"
  let ?L = "user_ledger (db w) u"
  let ?line = "\<lambda>h l. l_reference l @ '','' @ rfc3339 (h_created_at h) @ '','' @ h_kind h @ '','' @
           h_direction h @ '','' @ show_int (l_amount_paisa l) @ '','' @ show_int (l_running_balance l) @ '','' @ [CHR 34] @
           (case find (\<lambda>x. Some (u_id x) = l_counterparty_id l) (users (db w)) of None \<Rightarrow> []
            | Some x \<Rightarrow> u_name x @ '' ('' @ u_account_number x @ '')'') @ [CHR 34, CHR 10]"
  have L: "filter (\<lambda>l. l_user_id l = u) (ledger (db w)) = ?L" and d: "(\<lambda>l. l_direction l * l_amount_paisa l) = delta"
    by (simp_all add: user_ledger_def delta_def fun_eq_iff)
  note same = user_history_ledger [OF assms(1), of u]
  have "u \<in> set (map b_user_id (balances (db w)))" using assms(1,3) by (simp add: books_def accounts_ok_def)
  then obtain b where b: "b \<in> set (balances (db w))" "b_user_id b = u" by auto
  have ok: "account_ok (db w) b" using assms(1) b(1) by (simp add: books_def accounts_ok_def)
  then have chain: "chain_from 0 ?L" "last_running 0 ?L = b_amount_paisa b"
    by (simp_all add: account_ok_def b(2))
  have "map l_running_balance ?L = map (\<lambda>i. sum_list (map delta (take (Suc i) ?L))) [0..<length ?L]"
    by (rule nth_equalityI) (simp_all add: chain_sums [OF chain(1)])
  moreover have "sum_list (map delta ?L) = balance_of (db w) u"
    using last_running_sum [OF chain(1)] chain(2) balance_of_row [OF books_balances_distinct [OF assms(1)] b(1)] b(2)
    by simp
  moreover have "map (\<lambda>h. h_direction h = ''received'') ?R = map (\<lambda>l. l_direction l = 1) ?L"
    by (rule map_same_facts [OF same]) (rule statement_line_ledger(2))
  moreover have "sort_key h_id ?R = ?R"
    by (rule sort_key_id_if_sorted, intro sorted_filter strict_sorted_imp_sorted serial_ids_sorted)
      (use assms(1) in \<open>simp add: books_def serial_ok_def\<close>)
  then have "generate_statement_csv rfc3339 u \<lparr>sq_from = None, sq_to = None\<rparr> w =
      (if 10000 < length ?L
       then Inl (Unprocessable ''Statement range contains too many records (max 10,000). Please narrow your date range.'')
       else Inr (statement_header @ concat (map (statement_line rfc3339 (db w)) ?R)), w)"
    using assms(2) map_eq_imp_length_eq [OF same]
    by (simp add: Let_def generate_statement_csv_def statement_rows_def passes_def bnd_run thn_run guard_run
        ret_run pool_fetch_proceeds MAX_STATEMENT_ROWS_def)
  moreover have "map (statement_line rfc3339 (db w)) ?R = map (\<lambda>(h, l). ?line h l) (zip ?R ?L)"
    by (rule map_zip_facts [OF same]) (simp add: statement_line_ledger(1))
  ultimately show ?thesis unfolding Let_def L d statement_header_def by simp
qed

theorem statement_reconciles_witness:
  "sum_list (map (\<lambda>l. l_direction l * l_amount_paisa l) (filter (\<lambda>l. l_user_id l = alice) (ledger (db booked_world)))) =
     9998710 \<and> length (filter (\<lambda>l. l_user_id l = alice) (ledger (db booked_world))) = 3"
proof -
  have "alice \<in> set (map u_id (users (db booked_world)))" by code_simp
  note s = statement_reconciles [OF booked_facts(1,2) this, unfolded Let_def]
  have "balance_of (db booked_world) alice = 9998710"
    "length (filter (\<lambda>l. l_user_id l = alice) (ledger (db booked_world))) = 3" by code_simp+
  with s show ?thesis by metis
qed

end
