(* ===== verification/Regex.thy ===== *)
theory Regex
  imports Prelude
begin

text \<open>
  Regular expressions as the program's patterns use them, with the documented matching order of the
  \<open>regex\<close> crate: the leftmost match, and among the matches that start there the one that the order of
  alternatives and the greediness of repetitions prefer.  Matching enumerates the ways to match in the
  order of preference; the first one is the match.
\<close>

section \<open>Expressions\<close>

text \<open>
  \<open>Cls p\<close>: one character; \<open>Rep greedy lo hi p\<close>: \<open>lo\<close> to \<open>hi\<close> characters; \<open>Grp n r\<close>: the n-th capture
  group; \<open>WordB\<close>: a word boundary.  The patterns repeat single characters only.
\<close>

datatype re =
    Cls "char \<Rightarrow> bool"
  | Seq re re
  | Alt re re
  | Opt re
  | Rep bool nat "nat option" "char \<Rightarrow> bool"
  | Grp nat re
  | WordB

text \<open>A position: the character before it, the rest of the text, and the groups captured so far.\<close>

type_synonym position = "char option \<times> str \<times> (nat \<times> str) list"

definition is_word_char :: "char \<Rightarrow> bool" where
  "is_word_char c \<longleftrightarrow> (let n = (of_char c :: nat) in
     48 \<le> n \<and> n \<le> 57 \<or> 65 \<le> n \<and> n \<le> 90 \<or> n = 95 \<or> 97 \<le> n \<and> n \<le> 122 \<or>
     n = 170 \<or> n = 181 \<or> n = 186 \<or> 192 \<le> n \<and> n \<noteq> 215 \<and> n \<noteq> 247)"

definition lower_char :: "char \<Rightarrow> char" where
  "lower_char c = (let n = (of_char c :: nat) in
     if 65 \<le> n \<and> n \<le> 90 \<or> 192 \<le> n \<and> n \<le> 222 \<and> n \<noteq> 215 then char_of (n + 32) else c)"

lemma lower_char_code [code]:
  "lower_char (Char b0 b1 b2 b3 b4 b5 b6 b7) =
     (if b6 \<and> \<not> b5 \<and> (if b7 then \<not> (b4 \<and> b3 \<and> b2 \<and> b1 \<and> b0) \<and> \<not> (b4 \<and> \<not> b3 \<and> b2 \<and> b1 \<and> b0)
                        else (b4 \<or> b3 \<or> b2 \<or> b1 \<or> b0) \<and> \<not> (b4 \<and> b3 \<and> (b2 \<or> b1 \<and> b0)))
      then Char b0 b1 b2 b3 b4 True b6 b7 else Char b0 b1 b2 b3 b4 b5 b6 b7)"
  by (cases b0; cases b1; cases b2; cases b3; cases b4; cases b5; cases b6; cases b7; simp add: lower_char_def char_of_def bit_simps)

definition to_lowercase :: "str \<Rightarrow> str" where
  "to_lowercase = map lower_char"

fun contains_str :: "str \<Rightarrow> str \<Rightarrow> bool" where
  "contains_str [] p \<longleftrightarrow> p = []"
| "contains_str (c # cs) p \<longleftrightarrow> starts_with (c # cs) p \<or> contains_str cs p"

text \<open>The positions after \<open>0, 1, ..\<close> characters of a class, as far as the bound and the text allow.\<close>

fun many :: "(char \<Rightarrow> bool) \<Rightarrow> nat option \<Rightarrow> char option \<Rightarrow> str \<Rightarrow> (char option \<times> str) list" where
  "many p hi prev [] = [(prev, [])]"
| "many p hi prev (c # cs) =
     (prev, c # cs) # (if p c \<and> hi \<noteq> Some 0 then many p (map_option (\<lambda>n. n - 1) hi) (Some c) cs else [])"

definition at_boundary :: "char option \<Rightarrow> str \<Rightarrow> bool" where
  "at_boundary prev rest \<longleftrightarrow>
     (case prev of None \<Rightarrow> False | Some c \<Rightarrow> is_word_char c) \<noteq>
     (case rest of [] \<Rightarrow> False | c # cs \<Rightarrow> is_word_char c)"

fun steps :: "re \<Rightarrow> position \<Rightarrow> position list" where
  "steps (Cls p) (prev, rest, caps) =
     (case rest of [] \<Rightarrow> [] | c # cs \<Rightarrow> if p c then [(Some c, cs, caps)] else [])"
| "steps (Seq a b) x = concat (map (steps b) (steps a x))"
| "steps (Alt a b) x = steps a x @ steps b x"
| "steps (Opt a) x = steps a x @ [x]"
| "steps (Rep greedy lo hi p) (prev, rest, caps) =
     (let ends = drop lo (many p hi prev rest)
      in map (\<lambda>(q, r). (q, r, caps)) (if greedy then rev ends else ends))"
| "steps (Grp n a) (prev, rest, caps) =
     map (\<lambda>(q, r, cs). (q, r, (n, take (length rest - length r) rest) # cs)) (steps a (prev, rest, caps))"
| "steps WordB (prev, rest, caps) = (if at_boundary prev rest then [(prev, rest, caps)] else [])"

section \<open>Searching and replacing\<close>

text \<open>The captures of the first match.\<close>

fun find_from :: "re \<Rightarrow> char option \<Rightarrow> str \<Rightarrow> (nat \<times> str) list option" where
  "find_from r prev rest =
     (case steps r (prev, rest, []) of
        (q, s, caps) # _ \<Rightarrow> Some caps
      | [] \<Rightarrow> (case rest of [] \<Rightarrow> None | c # cs \<Rightarrow> find_from r (Some c) cs))"

declare find_from.simps [simp del]

definition captures :: "re \<Rightarrow> str \<Rightarrow> (nat \<times> str) list option" where
  "captures r s = find_from r None s"

definition is_match :: "re \<Rightarrow> str \<Rightarrow> bool" where
  "is_match r s \<longleftrightarrow> captures r s \<noteq> None"

text \<open>\<open>replace_all(s, "")\<close>: the search goes on behind each match.\<close>

function remove_from :: "re \<Rightarrow> char option \<Rightarrow> str \<Rightarrow> str" where
  "remove_from r prev rest =
     (case rest of [] \<Rightarrow> []
      | c # cs \<Rightarrow> (case steps r (prev, rest, []) of
          (q, s, caps) # _ \<Rightarrow> if length s < length rest then remove_from r q s else c # remove_from r (Some c) cs
        | [] \<Rightarrow> c # remove_from r (Some c) cs))"
  by pat_completeness auto
termination by (relation "measure (\<lambda>(r, prev, rest). length rest)") auto

declare remove_from.simps [simp del]

definition remove_all :: "re \<Rightarrow> str \<Rightarrow> str" where
  "remove_all r s = remove_from r None s"

section \<open>The parts of the patterns\<close>

text \<open>\<open>(?i)\<close>: the letters of a literal match in either case.\<close>

fun lit :: "str \<Rightarrow> re" where
  "lit [] = Rep True 0 (Some 0) (\<lambda>_. False)"
| "lit (c # cs) = (if cs = [] then Cls (\<lambda>x. lower_char x = c) else Seq (Cls (\<lambda>x. lower_char x = c)) (lit cs))"

fun seqs :: "re list \<Rightarrow> re" where
  "seqs [] = Rep True 0 (Some 0) (\<lambda>_. False)"
| "seqs (r # rs) = (if rs = [] then r else Seq r (seqs rs))"

fun alts :: "re list \<Rightarrow> re" where
  "alts [] = Cls (\<lambda>_. False)"
| "alts (r # rs) = (if rs = [] then r else Alt r (alts rs))"

definition spaces :: re where "spaces = Rep True 0 None is_space"
definition some_spaces :: re where "some_spaces = Rep True 1 None is_space"
definition digits :: re where "digits = Rep True 1 None is_digit"

section \<open>Preferred matches\<close>

text \<open>\<open>first r x y\<close>: the preferred way to match \<open>r\<close> at \<open>x\<close> ends at \<open>y\<close>.\<close>

definition first :: "re \<Rightarrow> position \<Rightarrow> position \<Rightarrow> bool" where
  "first r x y \<longleftrightarrow> (\<exists>ys. steps r x = y # ys)"

lemma first_Seq: "first a x y \<Longrightarrow> first b y z \<Longrightarrow> first (Seq a b) x z"
  by (auto simp: first_def)

lemma first_Alt1: "first a x y \<Longrightarrow> first (Alt a b) x y"
  by (auto simp: first_def)

lemma first_Alt2: "steps a x = [] \<Longrightarrow> first b x y \<Longrightarrow> first (Alt a b) x y"
  by (auto simp: first_def)

lemma first_Opt: "first a x y \<Longrightarrow> first (Opt a) x y"
  by (auto simp: first_def)

lemma first_skip: "steps a x = [] \<Longrightarrow> first (Opt a) x x"
  by (auto simp: first_def)

lemma first_Cls: "p c \<Longrightarrow> first (Cls p) (prev, c # cs, caps) (Some c, cs, caps)"
  by (simp add: first_def)

lemma first_WordB: "at_boundary prev rest \<Longrightarrow> first WordB (prev, rest, caps) (prev, rest, caps)"
  by (simp add: first_def)

lemma first_Grp:
  "first a (prev, u @ r, caps) (q, r, cs) \<Longrightarrow> first (Grp n a) (prev, u @ r, caps) (q, r, (n, u) # cs)"
  by (auto simp: first_def)

definition last_of :: "char option \<Rightarrow> str \<Rightarrow> char option" where
  "last_of prev u = (if u = [] then prev else Some (last u))"

definition stops :: "(char \<Rightarrow> bool) \<Rightarrow> nat option \<Rightarrow> str \<Rightarrow> str \<Rightarrow> bool" where
  "stops p hi u r \<longleftrightarrow> (case hi of None \<Rightarrow> True | Some h \<Rightarrow> length u \<le> h) \<and>
     (hi = Some (length u) \<or> (case r of [] \<Rightarrow> True | c # cs \<Rightarrow> \<not> p c))"

lemma many_run:
  "list_all p u \<Longrightarrow> stops p hi u r \<Longrightarrow>
     many p hi prev (u @ r) = map (\<lambda>i. (last_of prev (take i u), drop i (u @ r))) [0..<Suc (length u)]"
proof (induction u arbitrary: prev hi)
  case Nil
  then show ?case by (cases r) (auto simp: stops_def last_of_def)
next
  case (Cons c u)
  have "stops p (map_option (\<lambda>n. n - 1) hi) u r" and "hi \<noteq> Some 0"
    using Cons.prems(2) by (auto simp: stops_def split: option.splits)
  moreover have "list_all p u" "p c" using Cons.prems(1) by simp_all
  ultimately have "many p hi prev ((c # u) @ r) = (prev, (c # u) @ r) #
      map (\<lambda>i. (last_of (Some c) (take i u), drop i (u @ r))) [0..<Suc (length u)]"
    using Cons.IH by simp
  moreover have "map (\<lambda>i. (last_of (Some c) (take i u), drop i (u @ r))) [0..<Suc (length u)] =
      map (\<lambda>i. (last_of prev (take i (c # u)), drop i ((c # u) @ r))) [1..<Suc (length (c # u))]"
    by (rule nth_equalityI) (auto simp: last_of_def nth_append simp del: upt_Suc)
  ultimately show ?case by (simp add: upt_conv_Cons last_of_def del: upt_Suc)
qed

lemma first_Rep:
  assumes "list_all p u" "stops p hi u r" "lo \<le> length u"
  shows "first (Rep True lo hi p) (prev, u @ r, caps) (last_of prev u, r, caps)"
proof -
  have "drop lo (many p hi prev (u @ r)) =
      map (\<lambda>i. (last_of prev (take i u), drop i (u @ r))) [lo..<length u] @ [(last_of prev u, r)]"
    unfolding many_run [OF assms(1,2)] using assms(3) by (simp add: drop_map)
  then show ?thesis by (simp add: first_def Let_def)
qed

lemma first_lit:
  "s \<noteq> [] \<Longrightarrow> map lower_char u = s \<Longrightarrow> first (lit s) (prev, u @ r, caps) (Some (last u), r, caps)"
proof (induction s arbitrary: u prev)
  case (Cons c s)
  then obtain x v where u: "u = x # v" "lower_char x = c" "map lower_char v = s" by (cases u) auto
  show ?case
  proof (cases "s = []")
    case True
    with u show ?thesis by (simp add: first_def)
  next
    case False
    then have "v \<noteq> []" using u(3) by auto
    have "first (Seq (Cls (\<lambda>x. lower_char x = c)) (lit s)) (prev, u @ r, caps) (Some (last v), r, caps)"
      by (rule first_Seq [of _ _ "(Some x, v @ r, caps)"]) (use u Cons.IH [OF False u(3)] in \<open>auto simp: first_def\<close>)
    with False \<open>v \<noteq> []\<close> u(1) show ?thesis by simp
  qed
qed simp

lemma first_seqs: "rs \<noteq> [] \<Longrightarrow> first r x y \<Longrightarrow> first (seqs rs) y z \<Longrightarrow> first (seqs (r # rs)) x z"
  by (simp add: first_Seq)

text \<open>Where a pattern cannot start, it does not match.\<close>

lemma steps_lit_hd: "s \<noteq> [] \<Longrightarrow> (case rest of [] \<Rightarrow> True | c # cs \<Rightarrow> lower_char c \<noteq> hd s) \<Longrightarrow>
    steps (lit s) (prev, rest, caps) = []"
  by (cases s; cases rest; simp)

lemma steps_Seq_Nil: "steps a x = [] \<Longrightarrow> steps (Seq a b) x = []"
  by simp

lemma find_from_first: "first r (prev, rest, []) (q, s, caps) \<Longrightarrow> find_from r prev rest = Some caps"
  by (subst find_from.simps) (auto simp: first_def)

lemma find_from_None:
  assumes "\<And>prev rest. \<exists>a. s = a @ rest \<Longrightarrow> steps r (prev, rest, []) = []"
  shows "s = a @ rest \<Longrightarrow> find_from r prev rest = None"
proof (induction rest arbitrary: a prev)
  case Nil
  then have "steps r (prev, [], []) = []" using assms by blast
  then show ?case by (subst find_from.simps) simp
next
  case (Cons c cs)
  then have "steps r (prev, c # cs, []) = []" using assms by blast
  with Cons.IH [of "a @ [c]"] Cons.prems show ?case by (subst find_from.simps) simp
qed

lemma captures_None:
  assumes "\<And>prev rest. \<exists>a. s = a @ rest \<Longrightarrow> steps r (prev, rest, []) = []"
  shows "captures r s = None"
  unfolding captures_def by (rule find_from_None [OF assms, of s]) auto

section \<open>What a match is made of\<close>

text \<open>Every position of a match is a suffix of the text, and what a group has captured stands in it.\<close>

definition part_of :: "str \<Rightarrow> str \<Rightarrow> bool" where
  "part_of t s \<longleftrightarrow> (\<exists>a b. s = a @ t @ b)"

definition inside :: "str \<Rightarrow> position \<Rightarrow> bool" where
  "inside s x \<longleftrightarrow> (case x of (prev, rest, caps) \<Rightarrow> (\<exists>a. s = a @ rest) \<and> (\<forall>c \<in> set caps. part_of (snd c) s))"

lemma many_suffix: "(q, r) \<in> set (many p hi prev rest) \<Longrightarrow> \<exists>a. rest = a @ r"
  by (induction p hi prev rest rule: many.induct) (auto split: if_splits intro: exI [of _ "_ # _"])

lemma steps_inside: "y \<in> set (steps r x) \<Longrightarrow> inside s x \<Longrightarrow> inside s y \<and> (\<exists>a. fst (snd x) = a @ fst (snd y))"
proof (induction r x arbitrary: y rule: steps.induct)
  case (1 p prev rest caps)
  then show ?case by (auto simp: inside_def split: list.splits if_splits)
next
  case (2 a b x)
  then obtain z where z: "z \<in> set (steps a x)" "y \<in> set (steps b z)" by auto
  from "2.IH"(1) [OF z(1) "2.prems"(2)] "2.IH"(2) [OF z(1) z(2)] show ?case by (metis append.assoc)
next
  case (5 g lo hi p prev rest caps)
  then obtain q r where y: "y = (q, r, caps)" "(q, r) \<in> set (drop lo (many p hi prev rest))"
    by (auto simp: Let_def split: if_splits)
  from many_suffix [OF set_drop_subset [THEN subsetD, OF y(2)]] obtain a where a: "rest = a @ r" ..
  with y(1) "5.prems"(2) show ?case by (auto simp: inside_def)
next
  case (6 n a prev rest caps)
  then obtain q r cs where z: "(q, r, cs) \<in> set (steps a (prev, rest, caps))"
    and y: "y = (q, r, (n, take (length rest - length r) rest) # cs)" by auto
  from "6.IH" [OF z "6.prems"(2)] obtain b where i: "inside s (q, r, cs)" "rest = b @ r" by auto
  moreover from "6.prems"(2) obtain a' where "s = a' @ rest" by (auto simp: inside_def)
  ultimately have "part_of (take (length rest - length r) rest) s"
    unfolding part_of_def by (intro exI [of _ a'] exI [of _ r]) simp
  with i y show ?case by (auto simp: inside_def)
qed (auto split: if_splits)

lemma find_from_inside:
  "find_from r prev rest = Some caps \<Longrightarrow> s = a @ rest \<Longrightarrow> \<forall>c \<in> set caps. part_of (snd c) s"
proof (induction r prev rest arbitrary: a rule: find_from.induct)
  case (1 r prev rest)
  show ?case
  proof (cases "steps r (prev, rest, [])")
    case Nil
    with "1.prems" obtain c cs where "rest = c # cs" "find_from r (Some c) cs = Some caps"
      by (subst (asm) find_from.simps) (auto split: list.splits)
    with "1.IH" [OF Nil this(1), of "a @ [c]"] "1.prems"(2) show ?thesis by simp
  next
    case (Cons x xs)
    then have x: "x \<in> set (steps r (prev, rest, []))" by simp
    have "inside s (prev, rest, [])" using "1.prems"(2) by (auto simp: inside_def)
    with steps_inside [OF x] have "inside s x" by simp
    with Cons "1.prems"(1) show ?thesis
      by (subst (asm) find_from.simps) (auto simp: inside_def split: prod.splits)
  qed
qed

lemma captured_part: "captures r s = Some caps \<Longrightarrow> map_of caps n = Some t \<Longrightarrow> part_of t s"
  using find_from_inside [of r None s caps s "[]"] by (auto simp: captures_def dest!: map_of_SomeD)

section \<open>What a match depends on\<close>

text \<open>
  \<open>stays k r\<close>: a match of \<open>r\<close> never passes a character \<open>k\<close>, and does not depend on what follows it.
\<close>

definition stays :: "char \<Rightarrow> re \<Rightarrow> bool" where
  "stays k r \<longleftrightarrow> (\<forall>prev b caps z. steps r (prev, b @ k # z, caps) = map (\<lambda>(q, s, c). (q, s @ z, c)) (steps r (prev, b @ [k], caps)) \<and>
     (\<forall>y \<in> set (steps r (prev, b @ [k], caps)). \<exists>b'. fst (snd y) = b' @ [k]))"

lemma staysI:
  assumes "\<And>prev b caps z. steps r (prev, b @ k # z, caps) = map (\<lambda>(q, s, c). (q, s @ z, c)) (steps r (prev, b @ [k], caps))"
    "\<And>prev b caps y. y \<in> set (steps r (prev, b @ [k], caps)) \<Longrightarrow> \<exists>b'. fst (snd y) = b' @ [k]"
  shows "stays k r"
  using assms unfolding stays_def by blast

lemma staysD:
  assumes "stays k r"
  shows "steps r (prev, b @ k # z, caps) = map (\<lambda>(q, s, c). (q, s @ z, c)) (steps r (prev, b @ [k], caps))"
    "y \<in> set (steps r (prev, b @ [k], caps)) \<Longrightarrow> \<exists>b'. fst (snd y) = b' @ [k]"
  using assms unfolding stays_def by blast+

lemma stays_Cls: "\<not> p k \<Longrightarrow> stays k (Cls p)"
proof (rule staysI)
  fix prev b caps z y assume k: "\<not> p k"
  then show "steps (Cls p) (prev, b @ k # z, caps) = map (\<lambda>(q, s, c). (q, s @ z, c)) (steps (Cls p) (prev, b @ [k], caps))"
    by (cases b) simp_all
  from k show "y \<in> set (steps (Cls p) (prev, b @ [k], caps)) \<Longrightarrow> \<exists>b'. fst (snd y) = b' @ [k]"
    by (cases b) (auto split: if_splits)
qed

lemma stays_WordB: "stays k WordB"
proof (rule staysI)
  fix prev b caps z y
  have "at_boundary prev (b @ k # z) = at_boundary prev (b @ [k])" by (cases b) (simp_all add: at_boundary_def)
  then show "steps WordB (prev, b @ k # z, caps) = map (\<lambda>(q, s, c). (q, s @ z, c)) (steps WordB (prev, b @ [k], caps))"
    by simp
  show "y \<in> set (steps WordB (prev, b @ [k], caps)) \<Longrightarrow> \<exists>b'. fst (snd y) = b' @ [k]" by (auto split: if_splits)
qed

lemma stays_Seq:
  assumes "stays k a" "stays k b"
  shows "stays k (Seq a b)"
proof (rule staysI)
  fix prev u caps z y
  have *: "steps b (q, s @ z, c) = map (\<lambda>(q, s, c). (q, s @ z, c)) (steps b (q, s, c))"
    if "(q, s, c) \<in> set (steps a (prev, u @ [k], caps))" for q s c
  proof -
    from staysD(2) [OF assms(1) that] obtain b' where "s = b' @ [k]" by auto
    with staysD(1) [OF assms(2), of q b' z c] show ?thesis by simp
  qed
  show "steps (Seq a b) (prev, u @ k # z, caps) = map (\<lambda>(q, s, c). (q, s @ z, c)) (steps (Seq a b) (prev, u @ [k], caps))"
    using * by (auto simp: staysD(1) [OF assms(1), of prev u z caps] map_concat comp_def intro!: arg_cong [of _ _ concat])
  assume "y \<in> set (steps (Seq a b) (prev, u @ [k], caps))"
  then obtain x where x: "x \<in> set (steps a (prev, u @ [k], caps))" "y \<in> set (steps b x)" by auto
  obtain q s c where [simp]: "x = (q, s, c)" by (cases x)
  from staysD(2) [OF assms(1) x(1)] obtain b' where "s = b' @ [k]" by auto
  with x(2) staysD(2) [OF assms(2)] show "\<exists>b'. fst (snd y) = b' @ [k]" by simp
qed

lemma stays_Opt: "stays k a \<Longrightarrow> stays k (Opt a)"
proof (rule staysI)
  fix prev b caps z y assume a: "stays k a"
  show "steps (Opt a) (prev, b @ k # z, caps) = map (\<lambda>(q, s, c). (q, s @ z, c)) (steps (Opt a) (prev, b @ [k], caps))"
    by (simp add: staysD(1) [OF a, of prev b z caps])
  show "y \<in> set (steps (Opt a) (prev, b @ [k], caps)) \<Longrightarrow> \<exists>b'. fst (snd y) = b' @ [k]"
    using staysD(2) [OF a, of y prev b caps] by auto
qed

lemma many_stays:
  assumes "\<not> p k"
  shows "many p hi prev (b @ k # z) = map (\<lambda>(q, s). (q, s @ z)) (many p hi prev (b @ [k]))"
    "(q, s) \<in> set (many p hi prev (b @ [k])) \<Longrightarrow> \<exists>b'. s = b' @ [k]"
  using assms by (induction b arbitrary: prev hi) (auto split: if_splits)

lemma stays_Rep:
  assumes "\<not> p k"
  shows "stays k (Rep g lo hi p)"
proof (rule staysI)
  fix prev b caps z y
  show "steps (Rep g lo hi p) (prev, b @ k # z, caps) = map (\<lambda>(q, s, c). (q, s @ z, c)) (steps (Rep g lo hi p) (prev, b @ [k], caps))"
    by (simp add: many_stays(1) [of p k hi prev b z, OF assms] Let_def drop_map rev_map split_def comp_def)
  assume "y \<in> set (steps (Rep g lo hi p) (prev, b @ [k], caps))"
  then have "(fst y, fst (snd y)) \<in> set (drop lo (many p hi prev (b @ [k])))"
    by (auto simp: Let_def split: if_splits)
  from many_stays(2) [OF assms set_drop_subset [THEN subsetD, OF this]] show "\<exists>b'. fst (snd y) = b' @ [k]" .
qed


lemma find_from_later: "find_from r prev (u @ s) = None \<Longrightarrow> find_from r (last_of prev u) s = None"
proof (induction u arbitrary: prev)
  case (Cons c u)
  then have "find_from r (Some c) (u @ s) = None"
    by (subst (asm) find_from.simps) (simp split: list.splits prod.splits)
  with Cons.IH [of "Some c"] show ?case by (simp add: last_of_def split: if_splits)
qed (simp add: last_of_def)

end
