(* ===== verification/Assistant.thy ===== *)
theory Assistant
  imports Regex Limits
begin

text \<open>
  The intent parser (\<open>features/ai/parser.rs\<close>, \<open>dto.rs\<close>, \<open>routes.rs\<close>): it turns a sentence into an intent
  that the client still has to confirm through the ordinary end points.  The patterns are those of the
  source; their Bangla alternatives lie outside the characters of the model.  The confidence, an \<open>f32\<close>
  constant, is kept in hundredths.
\<close>

record ai_intent =
  ai_action :: str
  ai_amount_paisa :: "str option"
  ai_recipient :: "str option"
  ai_expires_in_seconds :: "int option"
  ai_note :: "str option"

record ai_response =
  ap_intent :: ai_intent
  ap_summary :: str
  ap_confidence :: nat
  ap_flags :: "str list"

section \<open>The patterns\<close>

definition PIN_STRIP_REGEX :: re where
  "PIN_STRIP_REGEX = seqs [WordB, lit ''pin'', spaces, Opt (Cls (\<lambda>c. c = CHR '':'' \<or> c = CHR ''#'')), spaces,
     Rep True 4 (Some 6) is_digit, WordB]"

text \<open>\<open>\d+(?:\.\d{1,2})?\<close> and \<open>(?:bdt|taka|tk)?\<close>.\<close>

definition amount_re :: re where
  "amount_re = Seq digits (Opt (Seq (Cls (\<lambda>c. c = CHR ''.'')) (Rep True 1 (Some 2) is_digit)))"

definition currency_re :: re where
  "currency_re = Opt (alts [lit ''bdt'', lit ''taka'', lit ''tk''])"

definition any_but_newline :: "char \<Rightarrow> bool" where
  "any_but_newline c \<longleftrightarrow> c \<noteq> CHR 10"

definition LINK_REGEX :: re where
  "LINK_REGEX = seqs [alts [lit ''create'', lit ''make'', lit ''generate''],
     Rep False 0 (Some 20) any_but_newline, alts [lit ''link'', lit ''payment link''],
     Rep False 0 (Some 30) any_but_newline, Grp 1 amount_re, spaces, currency_re]"

definition EXPIRY_REGEX :: re where
  "EXPIRY_REGEX = seqs [alts [lit ''expires'', Seq (lit ''valid '') (Alt (lit ''for'') (lit ''in'')), lit ''for''],
     spaces, Grp 1 digits, spaces,
     Grp 2 (alts [lit ''min'', lit ''minute'', lit ''hr'', lit ''hour'', lit ''day'']), Opt (lit ''s'')]"

text \<open>\<open>(0\d{9,10}|account#?\d*)\<close>.\<close>

definition party_re :: re where
  "party_re = Alt (Seq (Cls (\<lambda>c. c = CHR ''0'')) (Rep True 9 (Some 10) is_digit))
     (seqs [lit ''account'', Opt (Cls (\<lambda>c. c = CHR ''#'')), Rep True 0 None is_digit])"

definition TRANSFER_REGEX :: re where
  "TRANSFER_REGEX = seqs [alts [lit ''send'', lit ''pay'', lit ''transfer''], some_spaces, Grp 1 amount_re,
     spaces, currency_re, spaces, Opt (lit ''to''), spaces, Grp 2 party_re]"

definition REQUEST_REGEX :: re where
  "REQUEST_REGEX = seqs [alts [lit ''request'', lit ''ask''], some_spaces, Grp 1 amount_re,
     spaces, currency_re, spaces, Opt (lit ''from''), spaces, Grp 2 party_re]"

definition BALANCE_REGEX :: re where
  "BALANCE_REGEX = Seq (Opt (Seq (lit ''my'') some_spaces)) (Alt (lit ''balance'') (lit ''statement''))"

definition HISTORY_REGEX :: re where
  "HISTORY_REGEX = alts [lit ''history'', lit ''transactions'', lit ''activity'']"

section \<open>Amounts\<close>

text \<open>A whole number is in Taka, unlike in \<open>parse_from_str\<close>; \<open>len()\<close> counts digits, as the captures have no others.\<close>

definition parse_natural_taka_to_paisa :: "str \<Rightarrow> paisa option" where
  "parse_natural_taka_to_paisa s =
     (let trimmed = trim s in
      case split_once (CHR ''.'') trimmed of
        Some (taka_part, poisha_part) \<Rightarrow>
          Option.bind (i64_from_str taka_part) (\<lambda>taka.
          Option.bind (if length poisha_part = 1 then Some (poisha_part @ ''0'')
                       else if length poisha_part = 2 then Some poisha_part else None) (\<lambda>poisha_str.
          Option.bind (i64_from_str poisha_str) (\<lambda>poisha.
          Option.bind (i64_checked_mul taka 100) (\<lambda>t.
          map_option Paisa (i64_checked_add t poisha)))))
      | None \<Rightarrow>
          Option.bind (i64_from_str trimmed) (\<lambda>taka. map_option Paisa (i64_checked_mul taka 100)))"

section \<open>The parser\<close>

definition u64_mul :: "int \<Rightarrow> int \<Rightarrow> int" where "u64_mul a b = (a * b) mod 2 ^ 64"

text \<open>The time to live of a link: three hours, unless the sentence names another.\<close>

definition link_ttl :: "str \<Rightarrow> int" where
  "link_ttl trimmed =
     (case captures EXPIRY_REGEX trimmed of None \<Rightarrow> 10800
      | Some caps \<Rightarrow> (case (map_of caps 1, map_of caps 2) of
          (Some num_m, Some unit_m) \<Rightarrow> (case unsigned_from_str 64 num_m of None \<Rightarrow> 10800
            | Some num \<Rightarrow> (let u = to_lowercase unit_m in
                if starts_with u ''min'' then u64_mul num 60
                else if starts_with u ''hr'' \<or> starts_with u ''hour'' then u64_mul num 3600
                else if starts_with u ''day'' then u64_mul num 86400 else 10800))
        | _ \<Rightarrow> 10800))"

definition link_intent :: "str list \<Rightarrow> str \<Rightarrow> ai_response option" where
  "link_intent flags trimmed =
     Option.bind (captures LINK_REGEX trimmed) (\<lambda>caps.
     Option.bind (map_of caps 1) (\<lambda>amt_match.
     Option.bind (parse_natural_taka_to_paisa amt_match) (\<lambda>paisa.
       let ttl = link_ttl trimmed in
       Some \<lparr>ap_intent = \<lparr>ai_action = ''create_link'', ai_amount_paisa = Some (paisa_display paisa),
               ai_recipient = None, ai_expires_in_seconds = Some ttl, ai_note = None\<rparr>,
             ap_summary = ''Create a payment link for '' @ paisa_display paisa @ '' paisa valid for '' @
               show_int ttl @ '' seconds'',
             ap_confidence = 95, ap_flags = flags\<rparr>)))"

text \<open>The transfer and the request: the same branch with another pattern, action and wording.\<close>

definition party_intent ::
  "re \<Rightarrow> str \<Rightarrow> str \<Rightarrow> str \<Rightarrow> str list \<Rightarrow> str \<Rightarrow> ai_response option" where
  "party_intent regex action verb preposition flags trimmed =
     Option.bind (captures regex trimmed) (\<lambda>caps.
     Option.bind (map_of caps 1) (\<lambda>amt_m. Option.bind (map_of caps 2) (\<lambda>recipient.
     map_option (\<lambda>paisa.
       \<lparr>ap_intent = \<lparr>ai_action = action, ai_amount_paisa = Some (paisa_display paisa),
          ai_recipient = Some recipient, ai_expires_in_seconds = None, ai_note = None\<rparr>,
        ap_summary = verb @ '' '' @ paisa_display paisa @ '' paisa '' @ preposition @ '' '' @ recipient,
        ap_confidence = 95, ap_flags = flags\<rparr>)
       (parse_natural_taka_to_paisa amt_m))))"

definition plain_intent :: "str \<Rightarrow> str \<Rightarrow> nat \<Rightarrow> str list \<Rightarrow> ai_response" where
  "plain_intent action summary confidence flags =
     \<lparr>ap_intent = \<lparr>ai_action = action, ai_amount_paisa = None, ai_recipient = None,
        ai_expires_in_seconds = None, ai_note = None\<rparr>,
      ap_summary = summary, ap_confidence = confidence, ap_flags = flags\<rparr>"

definition needs_review :: "str \<Rightarrow> bool" where
  "needs_review trimmed \<longleftrightarrow>
     contains_str (to_lowercase trimmed) ''tomorrow'' \<or> contains_str (to_lowercase trimmed) ''next week''"

text \<open>The six steps of the grammar, in order.\<close>

definition match_intent :: "str list \<Rightarrow> str \<Rightarrow> ai_response" where
  "match_intent flags trimmed =
     (case link_intent flags trimmed of Some r \<Rightarrow> r | None \<Rightarrow>
     (case party_intent TRANSFER_REGEX ''transfer'' ''Transfer'' ''to'' flags trimmed of Some r \<Rightarrow> r | None \<Rightarrow>
     (case party_intent REQUEST_REGEX ''request'' ''Request'' ''from'' flags trimmed of Some r \<Rightarrow> r | None \<Rightarrow>
      if is_match BALANCE_REGEX trimmed
      then plain_intent ''balance'' ''Check current wallet balance'' 99 flags
      else if is_match HISTORY_REGEX trimmed
      then plain_intent ''history'' ''View recent transaction history'' 99 flags
      else plain_intent ''help''
        (''I didn'' @ [CHR 39] @ ''t recognize that command. Try: '' @ [CHR 39] @ ''Send 500 to 01711000000'' @
         [CHR 39] @ '' or '' @ [CHR 39] @ ''Create link 200 for 2 hours'' @ [CHR 39]) 10 flags)))"

definition parse_intent :: "str \<Rightarrow> ai_response" where
  "parse_intent text =
     (let stripped = is_match PIN_STRIP_REGEX text;
          cleaned_text = (if stripped then remove_all PIN_STRIP_REGEX text else text);
          trimmed = trim cleaned_text;
          flags = (if stripped then [''pin_via_text_ignored''] else []) @
                  (if needs_review trimmed then [''needs_review''] else [])
      in match_intent flags trimmed)"

section \<open>The handler\<close>

text \<open>
  \<open>error_text\<close>: the rendering of \<open>ValidationErrors\<close> by the \<open>validator\<close> crate.
\<close>

definition validate_parse_request :: "str \<Rightarrow> (str \<times> str) list" where
  "validate_parse_request text = failed_fields
     [(1 \<le> length text \<and> length text \<le> 500, ''text'', ''text must be between 1 and 500 characters'')]"

definition parse_ai_intent_handler ::
  "((str \<times> str) list \<Rightarrow> str) \<Rightarrow> 'r platform \<Rightarrow> draws \<Rightarrow> str \<Rightarrow> authenticated_user \<Rightarrow> str \<Rightarrow>
     ('r, ai_response api_response) service" where
  "parse_ai_intent_handler error_text P D rid auth_user text =
     thn (enforce_rate_limit P D ''ai_parse'' (uuid_to_string P (au_user_id auth_user)) 30 60)
     (thn (guard (validate_parse_request text = [])
             (BadRequest (error_text (validate_parse_request text))))
     (ret (api_response_new rid (parse_intent text))))"

section \<open>Amounts in sentences\<close>

definition sentence_value :: "str \<Rightarrow> str option \<Rightarrow> int" where
  "sentence_value ds fs = (case fs of None \<Rightarrow> 100 * digits_val ds | Some f \<Rightarrow> money_value ds fs)"

lemma natural_amount:
  assumes "money_grammar ds fs"
  shows "parse_natural_taka_to_paisa (money_text ds fs) = Some (Paisa (sentence_value ds fs))"
proof -
  have ds: "list_all is_digit ds" "ds \<noteq> []" "length ds \<le> 14" using assms by (auto simp: money_grammar_def)
  have v: "i64_from_str ds = Some (digits_val ds)" using i64_from_str_digits_value ds by simp
  have b: "0 \<le> digits_val ds" "digits_val ds < 10 ^ 14"
    using digits_val_bounds [of ds] digits_val_bound_le [of ds 14] ds by auto
  have no: "\<not> is_space c" if "c \<in> set (money_text ds fs)" for c
    using that assms is_digit_not(1) by (auto simp: money_text_def money_grammar_def list_all_iff is_space_def split: option.splits)
  have t: "trim (money_text ds fs) = money_text ds fs" by (rule trim_id) (use no in blast)
  show ?thesis
  proof (cases fs)
    case None
    then have "trim ds = ds" "split_once (CHR ''.'') ds = None" "money_text ds fs = ds"
      using t split_once_money [OF assms] by (simp_all add: money_text_def)
    with b None show ?thesis
      by (simp add: parse_natural_taka_to_paisa_def Let_def sentence_value_def v i64_checked_mul_def in_i64_def i64_min_def i64_max_def mult.commute)
  next
    case (Some f)
    then have f: "list_all is_digit f" "1 \<le> length f" "length f \<le> 2" using assms by (auto simp: money_grammar_def)
    have f2: "list_all is_digit (f @ ''0'')" "digits_val (f @ ''0'') = 10 * digits_val f"
      using f(1) by (auto simp: is_digit_def digits_val_def digit_val_def)
    have bf: "0 \<le> digits_val f" "digits_val f < 10 ^ length f" using digits_val_bounds [of f] f by auto
    have vf: "i64_from_str f = Some (digits_val f)" "i64_from_str (f @ ''0'') = Some (10 * digits_val f)"
      using i64_from_str_digits_value [of f] i64_from_str_digits_value [of "f @ ''0''"] f f2 by (cases f; simp)+
    note ts = t [unfolded Some] split_once_money [OF assms, unfolded Some]
    have c: "length f = 1 \<or> length f = 2" using f by linarith
    then show ?thesis
    proof
      assume "length f = 1"
      with b bf show ?thesis
        by (simp add: parse_natural_taka_to_paisa_def Let_def ts sentence_value_def v Some
          money_value_def vf i64_checked_mul_def i64_checked_add_def in_i64_def i64_min_def i64_max_def mult.commute)
    next
      assume "length f = 2"
      with b bf show ?thesis
        by (simp add: parse_natural_taka_to_paisa_def Let_def ts sentence_value_def v Some
          money_value_def vf i64_checked_mul_def i64_checked_add_def in_i64_def i64_min_def i64_max_def mult.commute)
    qed
  qed
qed

lemma first_amount:
  assumes "money_grammar ds fs" "r = [] \<or> hd r = CHR '' ''"
  shows "\<exists>q. first amount_re (prev, money_text ds fs @ r, caps) (q, r, caps)"
proof -
  have ds: "list_all is_digit ds" "1 \<le> length ds" using assms by (auto simp: money_grammar_def)
  have sp: "case r of [] \<Rightarrow> True | c # cs \<Rightarrow> \<not> is_digit c" "steps (Seq (Cls (\<lambda>c. c = CHR ''.'')) x) (p, r, caps) = []" for x p
    using assms(2) by (auto split: list.splits simp: is_digit_def)
  show ?thesis
  proof (cases fs)
    case None
    have "first digits (prev, ds @ r, caps) (last_of prev ds, r, caps)"
      unfolding digits_def by (rule first_Rep) (use ds sp in \<open>auto simp: stops_def\<close>)
    from first_Seq [OF this first_skip [OF sp(2)]] None show ?thesis by (auto simp: amount_re_def money_text_def)
  next
    case (Some f)
    then have f: "list_all is_digit f" "1 \<le> length f" "length f \<le> 2" using assms by (auto simp: money_grammar_def)
    have "first digits (prev, ds @ CHR ''.'' # f @ r, caps) (last_of prev ds, CHR ''.'' # f @ r, caps)"
      unfolding digits_def by (rule first_Rep) (use ds in \<open>auto simp: stops_def is_digit_def\<close>)
    moreover have "first (Rep True 1 (Some 2) is_digit) (Some (CHR ''.''), f @ r, caps) (last_of (Some (CHR ''.'')) f, r, caps)"
      by (rule first_Rep) (use f sp in \<open>auto simp: stops_def\<close>)
    ultimately have "first amount_re (prev, ds @ CHR ''.'' # f @ r, caps) (last_of (Some (CHR ''.'')) f, r, caps)"
      unfolding amount_re_def by (auto intro!: first_Seq first_Opt first_Cls)
    with Some show ?thesis by (auto simp: money_text_def)
  qed
qed

section \<open>A sentence and its intent\<close>

definition phone_number :: "str \<Rightarrow> bool" where
  "phone_number s \<longleftrightarrow> (\<exists>t. s = CHR ''0'' # t \<and> list_all is_digit t \<and> (length t = 9 \<or> length t = 10))"

lemma first_party:
  assumes "phone_number s"
  shows "\<exists>q. first party_re (prev, s, caps) (q, [], caps)"
proof -
  from assms obtain t where t: "s = CHR ''0'' # t" "list_all is_digit t" "length t = 9 \<or> length t = 10"
    by (auto simp: phone_number_def)
  have "first (Rep True 9 (Some 10) is_digit) (Some (CHR ''0''), t @ [], caps) (last_of (Some (CHR ''0'')) t, [], caps)"
    by (rule first_Rep) (use t in \<open>auto simp: stops_def\<close>)
  moreover have "first (Cls (\<lambda>c. c = CHR ''0'')) (prev, CHR ''0'' # t, caps) (Some (CHR ''0''), t, caps)"
    by (rule first_Cls) simp
  ultimately have "first party_re (prev, s, caps) (last_of (Some (CHR ''0'')) t, [], caps)"
    unfolding party_re_def t(1) append_Nil2 by (intro first_Alt1 first_Seq)
  then show ?thesis by blast
qed

lemma first_transfer:
  assumes "money_grammar ds fs" "phone_number s"
  shows "captures TRANSFER_REGEX (''Send '' @ money_text ds fs @ '' to '' @ s) = Some [(2, s), (1, money_text ds fs)]"
proof -
  let ?m = "money_text ds fs"
  obtain c t where m: "?m = c # t" "is_digit c"
    using assms(1) by (cases ds) (auto simp: money_text_def money_grammar_def split: option.splits)
  obtain s' where s: "s = CHR ''0'' # s'" using assms(2) by (auto simp: phone_number_def)
  obtain q where q: "first amount_re (Some (CHR '' ''), ?m @ '' to '' @ s, []) (q, '' to '' @ s, [])"
    using first_amount [OF assms(1), of "'' to '' @ s"] by auto
  obtain q' where q': "first party_re (Some (CHR '' ''), s @ [], [(1, ?m)]) (q', [], [(1, ?m)])"
    using first_party [OF assms(2)] by auto
  have "first (alts [lit ''send'', lit ''pay'', lit ''transfer'']) (None, ''Send'' @ '' '' @ ?m @ '' to '' @ s, [])
      (Some (CHR ''d''), '' '' @ ?m @ '' to '' @ s, [])"
    using first_Alt1 [OF first_lit [of "''send''" "''Send''" None "'' '' @ ?m @ '' to '' @ s" "[]"]]
    by (simp add: lower_char_code)
  moreover have "first some_spaces (Some (CHR ''d''), '' '' @ ?m @ '' to '' @ s, []) (last_of (Some (CHR ''d'')) '' '', ?m @ '' to '' @ s, [])"
    unfolding some_spaces_def by (rule first_Rep) (use m is_digit_not(1) in \<open>auto simp: stops_def is_space_code\<close>)
  moreover have "first (Grp 1 amount_re) (Some (CHR '' ''), ?m @ '' to '' @ s, []) (q, '' to '' @ s, [(1, ?m)])"
    by (rule first_Grp [OF q])
  moreover have "first spaces (q, '' '' @ ''to '' @ s, [(1, ?m)]) (last_of q '' '', ''to '' @ s, [(1, ?m)])"
    unfolding spaces_def by (rule first_Rep) (simp_all add: stops_def is_space_code)
  moreover have "first currency_re (Some (CHR '' ''), ''to '' @ s, [(1, ?m)]) (Some (CHR '' ''), ''to '' @ s, [(1, ?m)])"
    unfolding currency_re_def by (rule first_skip) (simp add: lower_char_code)
  moreover have "first spaces (Some (CHR '' ''), [] @ ''to '' @ s, [(1, ?m)]) (last_of (Some (CHR '' '')) [], ''to '' @ s, [(1, ?m)])"
    unfolding spaces_def by (rule first_Rep) (simp_all add: stops_def is_space_code)
  moreover have "first (Opt (lit ''to'')) (Some (CHR '' ''), ''to'' @ '' '' @ s, [(1, ?m)]) (Some (last ''to''), '' '' @ s, [(1, ?m)])"
    by (rule first_Opt, rule first_lit) (simp_all add: lower_char_code)
  moreover have "first spaces (Some (CHR ''o''), '' '' @ s, [(1, ?m)]) (last_of (Some (CHR ''o'')) '' '', s, [(1, ?m)])"
    unfolding spaces_def by (rule first_Rep) (simp_all add: stops_def is_space_code s)
  moreover have "first (Grp 2 party_re) (Some (CHR '' ''), s @ [], [(1, ?m)]) (q', [], [(2, s), (1, ?m)])"
    by (rule first_Grp [OF q'])
  ultimately have "first TRANSFER_REGEX (None, ''Send '' @ ?m @ '' to '' @ s, []) (q', [], [(2, s), (1, ?m)])"
    unfolding TRANSFER_REGEX_def
    by (auto simp: last_of_def intro!: first_seqs first_Seq)
  then show ?thesis unfolding captures_def by (rule find_from_first)
qed

lemma trim_between: "\<not> is_space c \<Longrightarrow> \<not> is_space d \<Longrightarrow> trim (c # m @ [d]) = c # m @ [d]"
  by (simp add: trim_def)

lemma contains_chars: "contains_str s p \<Longrightarrow> set p \<subseteq> set s"
proof (induction s)
  case (Cons c cs)
  then show ?case
  proof (cases "starts_with (c # cs) p")
    case True
    then have "p = take (length p) (c # cs)" by (simp add: starts_with_def)
    then show ?thesis by (metis set_take_subset)
  qed auto
qed simp

text \<open>A pattern that needs a letter the text does not have.\<close>

lemma captures_no_letter:
  assumes "\<And>prev c cs. lower_char c \<notin> L \<Longrightarrow> steps r (prev, c # cs, []) = []" "\<And>prev. steps r (prev, [], []) = []"
    "\<forall>c \<in> set s. lower_char c \<notin> L"
  shows "captures r s = None"
proof (rule captures_None)
  fix prev rest assume "\<exists>a. s = a @ rest"
  with assms show "steps r (prev, rest, []) = []" by (cases rest) auto
qed

lemma link_letters: "lower_char c \<notin> {CHR ''c'', CHR ''m'', CHR ''g''} \<Longrightarrow> steps LINK_REGEX (prev, c # cs, []) = []"
  "steps LINK_REGEX (prev, [], []) = []"
  by (simp_all add: LINK_REGEX_def)

lemma pin_letters: "lower_char c \<notin> {CHR ''p''} \<Longrightarrow> steps PIN_STRIP_REGEX (prev, c # cs, []) = []"
  "steps PIN_STRIP_REGEX (prev, [], []) = []"
  by (simp_all add: PIN_STRIP_REGEX_def)

lemma lower_digit: "is_digit c \<Longrightarrow> lower_char c = c"
  by (simp add: is_digit_def lower_char_def Let_def)

lemma sentence_letters:
  assumes "money_grammar ds fs" "phone_number s" "c \<in> set (to_lowercase (''Send '' @ money_text ds fs @ '' to '' @ s))"
  shows "is_digit c \<or> c \<in> set ''send to.''"
proof -
  have "set (money_text ds fs) \<subseteq> {c. is_digit c \<or> c = CHR ''.''}"
    using assms(1) by (auto simp: money_text_def money_grammar_def list_all_iff split: option.splits)
  moreover have "list_all is_digit s" using assms(2) by (auto simp: phone_number_def is_digit_def)
  moreover obtain d where "c = lower_char d" "d \<in> set (''Send '' @ money_text ds fs @ '' to '' @ s)"
    using assms(3) by (auto simp: to_lowercase_def)
  ultimately have c: "c = lower_char d" "is_digit d \<or> d \<in> set ''Send to.''" by (auto simp: list_all_iff)
  show ?thesis
    using c(2)
  proof
    assume "d \<in> set ''Send to.''"
    then show ?thesis by (simp add: c(1) lower_char_code) (elim disjE; simp add: lower_char_code)
  qed (simp add: c(1) lower_digit)
qed

lemma sentence_lacks:
  assumes "money_grammar ds fs" "phone_number s" "x \<in> set (to_lowercase (''Send '' @ money_text ds fs @ '' to '' @ s))"
  shows "x \<notin> set ''pcmgwk''"
  using sentence_letters [OF assms] by (auto simp: is_digit_def)

lemma sentence_trim:
  assumes "phone_number s"
  shows "trim (''Send '' @ m @ '' to '' @ s) = ''Send '' @ m @ '' to '' @ s"
proof -
  have s: "list_all is_digit s" "s \<noteq> []" using assms by (auto simp: phone_number_def is_digit_def)
  then have "''Send '' @ m @ '' to '' @ s = CHR ''S'' # (''end '' @ m @ '' to '' @ butlast s) @ [last s]" by simp
  moreover have "\<not> is_space (last s)" using s is_digit_not(1) by (simp add: list_all_iff)
  moreover have "\<not> is_space (CHR ''S'')" by (simp add: is_space_code)
  ultimately show ?thesis by (metis trim_between)
qed

text \<open>C34: Every sentence of the form Send, amount, to, phone number is read as the transfer of exactly that
amount in Taka to exactly that number, without a flag; the sentence is a faithful rendering of the intent.\<close>

theorem transfer_sentence_roundtrip:
  assumes "money_grammar ds fs" "phone_number s"
  shows "parse_intent (''Send '' @ money_text ds fs @ '' to '' @ s) =
    \<lparr>ap_intent = \<lparr>ai_action = ''transfer'', ai_amount_paisa = Some (show_int (sentence_value ds fs)),
       ai_recipient = Some s, ai_expires_in_seconds = None, ai_note = None\<rparr>,
     ap_summary = ''Transfer '' @ show_int (sentence_value ds fs) @ '' paisa to '' @ s,
     ap_confidence = 95, ap_flags = []\<rparr>"
proof -
  let ?t = "''Send '' @ money_text ds fs @ '' to '' @ s"
  have letters: "\<forall>c \<in> set ?t. lower_char c \<notin> set ''pcmgwk''"
    using sentence_lacks [OF assms] unfolding to_lowercase_def set_map by blast
  have "captures PIN_STRIP_REGEX ?t = None"
    by (rule captures_no_letter [where L = "{CHR ''p''}"], rule pin_letters, assumption, rule pin_letters)
      (use letters in simp)
  moreover have "captures LINK_REGEX ?t = None"
    by (rule captures_no_letter [where L = "{CHR ''c'', CHR ''m'', CHR ''g''}"], rule link_letters, assumption, rule link_letters)
      (use letters in simp)
  moreover have "\<not> needs_review ?t"
  proof
    assume "needs_review ?t"
    then have "CHR ''w'' \<in> set (to_lowercase ?t)"
      unfolding needs_review_def using contains_chars [of "to_lowercase ?t"] by fastforce
    from sentence_lacks [OF assms this] show False by simp
  qed
  ultimately show ?thesis
    using first_transfer [OF assms] sentence_trim [OF assms(2), of "money_text ds fs"]
    by (simp add: parse_intent_def Let_def match_intent_def is_match_def link_intent_def party_intent_def natural_amount [OF assms(1)]
        paisa_display_def del: append_Cons append.append_Cons)
qed

theorem transfer_sentence_roundtrip_witness:
  "ai_amount_paisa (ap_intent (parse_intent ''Send 12.5 to 01711223344'')) = Some ''1250''"
proof -
  have "money_grammar ''12'' (Some ''5'')" "phone_number ''01711223344''" "show_int (sentence_value ''12'' (Some ''5'')) = ''1250''"
    unfolding phone_number_def by (simp_all add: money_grammar_def, code_simp+)
  from transfer_sentence_roundtrip [OF this(1,2)] this(3) show ?thesis by (simp add: money_text_def)
qed

section \<open>PINs in sentences\<close>

lemma remove_from_match:
  "steps r (prev, s, []) = (q, t, cs) # ys \<Longrightarrow> length t < length s \<Longrightarrow> remove_from r prev s = remove_from r q t"
  by (subst remove_from.simps) (cases s; simp)

definition pin_digits :: "str \<Rightarrow> bool" where
  "pin_digits p \<longleftrightarrow> list_all is_digit p \<and> 4 \<le> length p \<and> length p \<le> 6"

lemma digit_word: "is_digit c \<Longrightarrow> is_word_char c"
  by (simp add: is_digit_def is_word_char_def Let_def)

text \<open>The pattern without its first letter.\<close>

definition pin_tail :: re where
  "pin_tail = seqs [spaces, Opt (Cls (\<lambda>c. c = CHR '':'' \<or> c = CHR ''#'')), spaces, Rep True 4 (Some 6) is_digit, WordB]"

lemma seqs_two: "seqs [r] = r" "seqs (r # r' # rs) = Seq r (seqs (r' # rs))"
  by simp_all

lemma pin_pattern: "PIN_STRIP_REGEX = Seq WordB (Seq (lit ''pin'') pin_tail)"
  by (simp only: PIN_STRIP_REGEX_def pin_tail_def seqs_two)

lemma pin_tail_stays:
  assumes "lower_char k = CHR ''p''"
  shows "stays k pin_tail" "stays k (lit ''in'')"
proof -
  have "\<not> is_space k" "\<not> is_digit k" "k \<noteq> CHR '':''" "k \<noteq> CHR ''#''"
    using assms by (cases k; auto simp: lower_char_code is_space_code is_digit_code split: if_splits)+
  then show "stays k pin_tail"
    unfolding pin_tail_def seqs_two spaces_def
    by (intro stays_Seq stays_Rep stays_Opt stays_Cls stays_WordB) auto
  show "stays k (lit ''in'')"
    unfolding lit.simps using assms by (auto intro!: stays_Seq stays_Cls)
qed

lemma pin_start:
  "steps PIN_STRIP_REGEX (prev, c # w, []) =
     (if at_boundary prev (c # w) \<and> lower_char c = CHR ''p'' then steps (Seq (lit ''in'') pin_tail) (Some c, w, []) else [])"
  by (simp add: pin_pattern del: lit.simps(2)) (simp add: lit.simps(2) [of "CHR ''p''"])

lemma pin_tail_boundary: "y \<in> set (steps pin_tail x) \<Longrightarrow> at_boundary (fst y) (fst (snd y))"
  unfolding pin_tail_def seqs_two by (auto split: if_splits)

lemma pin_before:
  assumes "lower_char k = CHR ''p''"
  shows "steps PIN_STRIP_REGEX (prev, c # u @ k # z, []) =
     map (\<lambda>(q, s, c). (q, s @ z, c)) (steps PIN_STRIP_REGEX (prev, c # u @ [k], []))"
    "y \<in> set (steps PIN_STRIP_REGEX (prev, c # u @ [k], [])) \<Longrightarrow> \<exists>b. fst (snd y) = b @ [k] \<and> at_boundary (fst y) (b @ [k])"
proof -
  have st: "stays k (Seq (lit ''in'') pin_tail)" using pin_tail_stays [OF assms] by (intro stays_Seq)
  have "at_boundary prev (c # v) = at_boundary prev (c # w)" for v w by (simp add: at_boundary_def)
  then show "steps PIN_STRIP_REGEX (prev, c # u @ k # z, []) =
     map (\<lambda>(q, s, c). (q, s @ z, c)) (steps PIN_STRIP_REGEX (prev, c # u @ [k], []))"
    unfolding pin_start using staysD(1) [OF st, of "Some c" u z "[]"] by auto
  assume "y \<in> set (steps PIN_STRIP_REGEX (prev, c # u @ [k], []))"
  then have y: "y \<in> set (steps (Seq (lit ''in'') pin_tail) (Some c, u @ [k], []))" unfolding pin_start by (auto split: if_splits)
  then obtain x where "y \<in> set (steps pin_tail x)" by auto
  then have "at_boundary (fst y) (fst (snd y))" by (rule pin_tail_boundary)
  with staysD(2) [OF st y] show "\<exists>b. fst (snd y) = b @ [k] \<and> at_boundary (fst y) (b @ [k])" by auto
qed

text \<open>What the removal makes of the text before a token does not depend on the token.\<close>

definition no_word :: "char option \<Rightarrow> bool" where
  "no_word prev \<longleftrightarrow> (case prev of None \<Rightarrow> True | Some c \<Rightarrow> \<not> is_word_char c)"

lemma p_word: "lower_char k = CHR ''p'' \<Longrightarrow> is_word_char k"
  by (cases k) (auto simp: lower_char_code is_word_char_def Let_def split: if_splits)

lemma removed_before:
  assumes "lower_char k = CHR ''p''" "no_word (last_of prev u)"
  shows "\<exists>a q. no_word q \<and> (\<forall>z. remove_from PIN_STRIP_REGEX prev (u @ k # z) = a @ remove_from PIN_STRIP_REGEX q (k # z))"
  using assms(2)
proof (induction u arbitrary: prev rule: length_induct)
  case (1 u)
  let ?R = PIN_STRIP_REGEX
  show ?case
  proof (cases u)
    case Nil
    with "1.prems" show ?thesis by (intro exI [of _ "[]"] exI [of _ prev]) (simp add: last_of_def)
  next
    case (Cons c u')
    have "no_word (last_of (Some c) u')" using "1.prems" by (auto simp: Cons last_of_def split: if_splits)
    with "1.IH" Cons obtain a q where
      skip: "no_word q" "\<forall>z. remove_from ?R (Some c) (u' @ k # z) = a @ remove_from ?R q (k # z)" by fastforce
    have st1: "steps ?R (prev, c # u' @ k # z, []) = map (\<lambda>(q, s, c). (q, s @ z, c)) (steps ?R (prev, c # u' @ [k], []))" for z
      by (rule pin_before(1) [OF assms(1)])
    show ?thesis
    proof (cases "steps ?R (prev, c # u' @ [k], [])")
      case Nil
      have "remove_from ?R prev (u @ k # z) = (c # a) @ remove_from ?R q (k # z)" for z
        using skip(2) by (subst remove_from.simps) (simp add: \<open>u = c # u'\<close> st1 [of z] Nil)
      with skip(1) show ?thesis by blast
    next
      case (Cons y ys)
      then have y: "y \<in> set (steps ?R (prev, c # u' @ [k], []))" by simp
      obtain r t cs where [simp]: "y = (r, t, cs)" by (cases y)
      from pin_before(2) [OF assms(1) y] obtain b where b: "t = b @ [k]" "at_boundary r (b @ [k])" by auto
      have "inside (c # u' @ [k]) (prev, c # u' @ [k], [])" by (simp add: inside_def)
      from steps_inside [OF y this] b(1) obtain d where d: "u = d @ b" by (auto simp: \<open>u = c # u'\<close>)
      have shorter: "length (b @ k # z) < length (u @ k # z) \<longleftrightarrow> length b < length u" for z by simp
      have eq: "remove_from ?R prev (u @ k # z) = (if length b < length u then remove_from ?R r (b @ k # z)
          else c # remove_from ?R (Some c) (u' @ k # z))" for z
        by (subst remove_from.simps) (simp add: \<open>u = c # u'\<close> st1 [of z] Cons b(1))
      show ?thesis
      proof (cases "length b < length u")
        case True
        have "no_word (last_of r b)"
          using b(2) p_word [OF assms(1)] "1.prems" d
          by (cases "b = []") (auto simp: last_of_def no_word_def at_boundary_def split: option.splits)
        with "1.IH" True obtain a' q' where
          "no_word q'" "\<forall>z. remove_from ?R r (b @ k # z) = a' @ remove_from ?R q' (k # z)" by blast
        with eq True show ?thesis by auto
      next
        case False
        with eq skip(2) have "\<forall>z. remove_from ?R prev (u @ k # z) = (c # a) @ remove_from ?R q (k # z)" by simp
        with skip(1) show ?thesis by blast
      qed
    qed
  qed
qed

text \<open>A token as the pattern has it: spaces, perhaps a colon or a hash, spaces, and four to six digits.\<close>

definition pin_separator :: "str \<Rightarrow> bool" where
  "pin_separator sep \<longleftrightarrow> (\<exists>a m b. sep = a @ m @ b \<and> list_all is_space a \<and> m \<in> {[], '':'', ''#''} \<and> list_all is_space b)"

definition pin_keyword :: "str \<Rightarrow> bool" where
  "pin_keyword kw \<longleftrightarrow> map lower_char kw = ''pin''"

definition word_ends :: "str \<Rightarrow> bool" where
  "word_ends s \<longleftrightarrow> (case s of [] \<Rightarrow> True | c # _ \<Rightarrow> \<not> is_word_char c)"

lemma first_separator:
  assumes "pin_separator sep" "is_digit d" "\<And>q. first t (q, d # r, []) y"
  shows "first (Seq spaces (Seq (Opt (Cls (\<lambda>c. c = CHR '':'' \<or> c = CHR ''#''))) (Seq spaces t))) (prev, sep @ d # r, []) y"
proof -
  let ?C = "Opt (Cls (\<lambda>c. c = CHR '':'' \<or> c = CHR ''#''))"
  from assms(1) obtain a m b where sep: "sep = a @ m @ b" "list_all is_space a" "list_all is_space b" "m \<in> {[], '':'', ''#''}"
    by (auto simp: pin_separator_def)
  have d: "\<not> is_space d" "d \<noteq> CHR '':''" "d \<noteq> CHR ''#''" using assms(2) by (auto simp: is_digit_not is_digit_def)
  have run: "first spaces (p, u @ x # w, []) (last_of p u, x # w, [])" if "list_all is_space u" "\<not> is_space x" for p u x w
    using first_Rep [of is_space u None "x # w" 0 p "[]"] that by (simp add: spaces_def stops_def)
  show ?thesis
  proof (cases "m = []")
    case True
    have "first spaces (prev, sep @ d # r, []) (last_of prev (a @ b), d # r, [])"
      using run [of "a @ b" d prev r] sep True d by simp
    moreover have "first ?C (last_of prev (a @ b), d # r, []) (last_of prev (a @ b), d # r, [])"
      by (rule first_skip) (use d in simp)
    moreover have "first spaces (last_of prev (a @ b), d # r, []) (last_of prev (a @ b), d # r, [])"
      using run [of "[]" d "last_of prev (a @ b)" r] d by (simp add: last_of_def)
    ultimately show ?thesis using assms(3) by (blast intro: first_Seq)
  next
    case False
    then obtain x where m: "m = [x]" "x = CHR '':'' \<or> x = CHR ''#''" using sep(4) by auto
    then have x: "\<not> is_space x" by (auto simp: is_space_code)
    have "first spaces (prev, sep @ d # r, []) (last_of prev a, x # b @ d # r, [])"
      using run [of a x prev "b @ d # r"] sep m x by simp
    moreover have "first ?C (last_of prev a, x # b @ d # r, []) (Some x, b @ d # r, [])"
      by (rule first_Opt, rule first_Cls) (use m in simp)
    moreover have "first spaces (Some x, b @ d # r, []) (last_of (Some x) b, d # r, [])"
      by (rule run) (use sep d in simp_all)
    ultimately show ?thesis using assms(3) by (blast intro: first_Seq)
  qed
qed

lemma first_token:
  assumes "pin_keyword kw" "pin_separator sep" "pin_digits p" "word_ends rest" "no_word prev"
  shows "first PIN_STRIP_REGEX (prev, kw @ sep @ p @ rest, []) (Some (last p), rest, [])"
proof -
  have p: "list_all is_digit p" "4 \<le> length p" "length p \<le> 6" "p \<noteq> []" using assms(3) by (auto simp: pin_digits_def)
  then obtain d ds where pd: "p = d # ds" "is_digit d" by (cases p) auto
  have last: "is_word_char (last p)" using p digit_word by (simp add: list_all_iff)
  obtain x xs where kw: "kw = x # xs" "lower_char x = CHR ''p''" using assms(1) by (cases kw) (auto simp: pin_keyword_def)
  have "at_boundary prev (kw @ sep @ p @ rest)"
    using assms(5) p_word [OF kw(2)] kw(1) by (auto simp: at_boundary_def no_word_def split: option.splits)
  then have 1: "first WordB (prev, kw @ sep @ p @ rest, []) (prev, kw @ sep @ p @ rest, [])" by (rule first_WordB)
  have 2: "first (lit ''pin'') (prev, kw @ sep @ p @ rest, []) (Some (last kw), sep @ p @ rest, [])"
    by (rule first_lit) (use assms(1) in \<open>simp_all add: pin_keyword_def\<close>)
  have "stops is_digit (Some 6) p rest"
    using assms(4) p(3) digit_word by (auto simp: stops_def word_ends_def split: list.splits)
  from first_Rep [OF p(1) this p(2)]
  have 4: "first (Rep True 4 (Some 6) is_digit) (q, p @ rest, []) (Some (last p), rest, [])" for q
    using p(4) by (simp add: last_of_def)
  have "at_boundary (Some (last p)) rest"
    using last assms(4) by (auto simp: at_boundary_def word_ends_def split: list.splits)
  then have 5: "first WordB (Some (last p), rest, []) (Some (last p), rest, [])" by (rule first_WordB)
  have 3: "first (Seq spaces (Seq (Opt (Cls (\<lambda>c. c = CHR '':'' \<or> c = CHR ''#'')))
      (Seq spaces (Seq (Rep True 4 (Some 6) is_digit) WordB)))) (Some (last kw), sep @ p @ rest, []) (Some (last p), rest, [])"
    using first_separator [OF assms(2) pd(2) first_Seq [OF 4 5, unfolded pd(1) append_Cons]] unfolding pd(1) append_Cons .
  show ?thesis unfolding PIN_STRIP_REGEX_def seqs_two by (rule first_Seq [OF 1 first_Seq [OF 2 3]])
qed

lemma removed_after:
  assumes "is_word_char d" "word_ends rest" "d' = d \<or> is_word_char d'"
  shows "remove_from PIN_STRIP_REGEX (Some d') rest = remove_from PIN_STRIP_REGEX (Some d) rest"
proof (cases rest)
  case (Cons c cs)
  have "lower_char c \<noteq> CHR ''p''" using assms(2) p_word [of c] by (auto simp: Cons word_ends_def)
  then have "steps PIN_STRIP_REGEX (p, c # cs, []) = []" for p by (simp add: pin_start)
  then show ?thesis by (simp add: Cons remove_from.simps [of _ _ "c # cs"])
qed (simp add: remove_from.simps)

lemma token_removed:
  assumes "no_word (last_of None pre)" "pin_keyword kw" "pin_separator sep" "word_ends rest"
  shows "pin_digits p \<Longrightarrow> is_match PIN_STRIP_REGEX (pre @ kw @ sep @ p @ rest)"
    "\<exists>t. \<forall>p. pin_digits p \<longrightarrow> remove_all PIN_STRIP_REGEX (pre @ kw @ sep @ p @ rest) = t"
proof -
  let ?R = PIN_STRIP_REGEX
  show "is_match ?R (pre @ kw @ sep @ p @ rest)" if "pin_digits p"
    using find_from_later [of ?R None pre "kw @ sep @ p @ rest"]
      find_from_first [OF first_token [OF assms(2,3) that assms(4,1)]]
    by (auto simp: is_match_def captures_def)
  obtain k ks where k: "kw = k # ks" "lower_char k = CHR ''p''" using assms(2) by (cases kw) (auto simp: pin_keyword_def)
  from removed_before [OF k(2) assms(1)] obtain a q where
    a: "no_word q" "\<And>z. remove_from ?R None (pre @ k # z) = a @ remove_from ?R q (k # z)" by blast
  have "remove_all ?R (pre @ kw @ sep @ p @ rest) = a @ remove_from ?R (Some (CHR ''0'')) rest" if "pin_digits p" for p
  proof -
    have "p \<noteq> []" using that by (auto simp: pin_digits_def)
    then have p: "is_word_char (last p)" "p \<noteq> []" using that digit_word by (simp_all add: pin_digits_def list_all_iff)
    from first_token [OF assms(2,3) that assms(4) a(1)] obtain ys where
      "steps ?R (q, kw @ sep @ p @ rest, []) = (Some (last p), rest, []) # ys" by (auto simp: first_def)
    from remove_from_match [OF this] p(2)
    have "remove_from ?R q (kw @ sep @ p @ rest) = remove_from ?R (Some (last p)) rest" by simp
    also have "\<dots> = remove_from ?R (Some (CHR ''0'')) rest"
      by (rule removed_after) (use p assms(4) in \<open>simp_all add: is_word_char_def\<close>)
    finally show ?thesis using a(2) [of "ks @ sep @ p @ rest"] by (simp add: remove_all_def k(1))
  qed
  then show "\<exists>t. \<forall>p. pin_digits p \<longrightarrow> remove_all ?R (pre @ kw @ sep @ p @ rest) = t" by blast
qed

lemma intent_flags: "ap_flags (match_intent fl s) = fl"
proof -
  have "link_intent fl s = Some r \<Longrightarrow> ap_flags r = fl" for r
    by (auto simp: link_intent_def bind_eq_Some_conv Let_def)
  moreover have "party_intent re act vb pp fl s = Some r \<Longrightarrow> ap_flags r = fl" for re act vb pp r
    by (auto simp: party_intent_def bind_eq_Some_conv)
  moreover have "ap_flags (plain_intent act sm cf fl) = fl" for act sm cf by (simp add: plain_intent_def)
  ultimately show ?thesis unfolding match_intent_def by (simp split: option.split)
qed

text \<open>C35: A PIN that is typed into a sentence has no influence on the answer.  Wherever in the text a PIN token stands,
that is, the word PIN in any case, perhaps a colon or a hash, spaces around it, and four to six digits, with no letter or
digit before and after, any other PIN in the place of the digits gives the same answer, and the answer carries the flag
that says the PIN was ignored.  (The tokens are those of the text as it is typed: taking one out can join its neighbours
to a new one, \<open>pin_removed_once\<close>.)\<close>

theorem assistant_ignores_pin:
  assumes "pre = [] \<or> \<not> is_word_char (last pre)" "map lower_char kw = ''pin''"
    "list_all is_space a" "m \<in> {[], '':'', ''#''}" "list_all is_space b"
    "list_all is_digit p" "4 \<le> length p" "length p \<le> 6" "list_all is_digit q" "4 \<le> length q" "length q \<le> 6"
    "rest = [] \<or> \<not> is_word_char (hd rest)"
  shows "parse_intent (pre @ kw @ (a @ m @ b) @ p @ rest) = parse_intent (pre @ kw @ (a @ m @ b) @ q @ rest) \<and>
    ''pin_via_text_ignored'' \<in> set (ap_flags (parse_intent (pre @ kw @ (a @ m @ b) @ p @ rest)))"
proof -
  have tok: "no_word (last_of None pre)" "pin_keyword kw" "pin_separator (a @ m @ b)" "word_ends rest"
    using assms(1-5,12) by (auto simp: no_word_def last_of_def pin_keyword_def pin_separator_def word_ends_def split: list.splits)
  have pq: "pin_digits p" "pin_digits q" using assms(6-11) by (simp_all add: pin_digits_def)
  from token_removed(2) [OF tok] obtain t where
    t: "remove_all PIN_STRIP_REGEX (pre @ kw @ (a @ m @ b) @ p @ rest) = t"
      "remove_all PIN_STRIP_REGEX (pre @ kw @ (a @ m @ b) @ q @ rest) = t" using pq by blast
  show ?thesis
    unfolding parse_intent_def Let_def t intent_flags token_removed(1) [OF tok pq(1), THEN eqTrueI]
      token_removed(1) [OF tok pq(2), THEN eqTrueI] if_True
    by (simp only: append_Cons list.set insertI1 simp_thms)
qed
theorem assistant_ignores_pin_witness:
  "parse_intent ''Please send 50 to 01711223344 my pin:1234'' = parse_intent ''Please send 50 to 01711223344 my pin:987654''"
proof -
  have "\<not> is_word_char (last ''Please send 50 to 01711223344 my '')" "map lower_char ''pin'' = ''pin''"
    "list_all is_digit ''1234''" "list_all is_digit ''987654''" by code_simp+
  from assistant_ignores_pin [OF disjI2 [OF this(1)] this(2), where a = "[]" and m = "'':''" and b = "[]" and rest = "[]",
      OF _ _ _ this(3) _ _ this(4)]
  show ?thesis by simp
qed

text \<open>One pass of the removal can put a new PIN together.\<close>

lemma pin_removed_once: "is_match PIN_STRIP_REGEX (remove_all PIN_STRIP_REGEX ''pin pin 1234 5678'')"
  by code_simp

section \<open>What an answer is made of\<close>

definition cleaned :: "str \<Rightarrow> str" where
  "cleaned text = trim (if is_match PIN_STRIP_REGEX text then remove_all PIN_STRIP_REGEX text else text)"

definition grounded :: "str \<Rightarrow> ai_response \<Rightarrow> bool" where
  "grounded s r \<longleftrightarrow> (case ai_amount_paisa (ap_intent r) of
      None \<Rightarrow> ai_action (ap_intent r) \<in> {''balance'', ''history'', ''help''} \<and> ai_recipient (ap_intent r) = None
    | Some a \<Rightarrow> \<exists>t v. part_of t s \<and> parse_natural_taka_to_paisa t = Some (Paisa v) \<and> a = show_int v \<and>
        (if ai_action (ap_intent r) = ''create_link'' then ai_recipient (ap_intent r) = None
         else ai_action (ap_intent r) \<in> {''transfer'', ''request''} \<and>
           (\<exists>u. ai_recipient (ap_intent r) = Some u \<and> part_of u s)))"

lemma grounded_parts:
  "link_intent fl s = Some r \<Longrightarrow> grounded s r"
  "party_intent re act vb pp fl s = Some r \<Longrightarrow> act = ''transfer'' \<or> act = ''request'' \<Longrightarrow> grounded s r"
  "act \<in> {''balance'', ''history'', ''help''} \<Longrightarrow> grounded s (plain_intent act sm cf fl)"
proof -
  assume "link_intent fl s = Some r"
  then obtain caps t p where c: "captures LINK_REGEX s = Some caps" "map_of caps 1 = Some t"
    "parse_natural_taka_to_paisa t = Some p"
    and r: "ai_amount_paisa (ap_intent r) = Some (paisa_display p)" "ai_action (ap_intent r) = ''create_link''"
      "ai_recipient (ap_intent r) = None"
    by (auto simp: link_intent_def bind_eq_Some_conv Let_def)
  obtain v where "p = Paisa v" by (cases p)
  with c r captured_part [OF c(1,2)] show "grounded s r" by (auto simp: grounded_def paisa_display_def)
next
  assume "party_intent re act vb pp fl s = Some r" and act: "act = ''transfer'' \<or> act = ''request''"
  then obtain caps t u p where c: "captures re s = Some caps" "map_of caps 1 = Some t" "map_of caps 2 = Some u"
    "parse_natural_taka_to_paisa t = Some p"
    and r: "ai_amount_paisa (ap_intent r) = Some (paisa_display p)" "ai_action (ap_intent r) = act"
      "ai_recipient (ap_intent r) = Some u"
    by (auto simp: party_intent_def bind_eq_Some_conv)
  obtain v where "p = Paisa v" by (cases p)
  with c r act captured_part [OF c(1,2)] captured_part [OF c(1,3)] show "grounded s r"
    by (auto simp: grounded_def paisa_display_def)
qed (auto simp: grounded_def plain_intent_def)

text \<open>The assistant makes nothing up: an amount it proposes is the value of a piece of the sentence (with
its PINs removed), a recipient stands in it word for word, a transfer or request has both, a link has the
amount only, and every other answer has neither.\<close>

theorem assistant_grounded: "grounded (cleaned text) (parse_intent text)"
proof -
  have "grounded s (match_intent fl s)" for fl s
    unfolding match_intent_def
    using grounded_parts(1) [of fl s] grounded_parts(2) [of TRANSFER_REGEX "''transfer''" "''Transfer''" "''to''" fl s]
      grounded_parts(2) [of REQUEST_REGEX "''request''" "''Request''" "''from''" fl s]
    by (simp add: grounded_parts(3) split: option.split if_split)
  then show ?thesis unfolding parse_intent_def Let_def cleaned_def .
qed

end
