(* ===== verification/Handlers.thy ===== *)
theory Handlers
  imports System History Assistant
begin

text \<open>
  The handlers of the routes (\<open>features/*/routes.rs\<close>) with the validation their payloads declare
  (\<open>features/*/dto.rs\<close>).  A handler is given what axum's extractors deliver: the authenticated user, the
  cookies, the path and query parameters, the decoded body.  \<open>rid\<close> is the fresh identifier that
  \<open>ApiResponse::new\<close> draws.  A handler that returns \<open>Json(..)\<close> alone is answered with the status 200.
  The handlers of transfers, history, notifications and the assistant stand with their services.
\<close>

section \<open>Code outside the repository\<close>

text \<open>
  \<open>ILIKE\<close> and \<open>similarity\<close> of PostgreSQL, the RFC 3339 rendering of a timestamp, the rendering of
  \<open>ValidationErrors\<close> and of database errors, \<open>PING\<close>, the Prometheus registry and the start of the server.
\<close>

record 'r externals =
  ilike :: "str \<Rightarrow> str \<Rightarrow> bool"
  ilike_contains :: "str \<Rightarrow> str \<Rightarrow> bool"
  similarity :: "str \<Rightarrow> str \<Rightarrow> int"
  rfc3339 :: "int \<Rightarrow> str"
  error_text :: "(str \<times> str) list \<Rightarrow> str"
  db_display :: "db_error \<Rightarrow> str"
  redis_ping :: "'r \<Rightarrow> bool"
  metrics_text :: str
  server_started_at :: int

section \<open>Validation\<close>

definition validate_register :: "register_request \<Rightarrow> (str \<times> str) list" where
  "validate_register req = failed_fields
     [(1 \<le> length (rr_name req) \<and> length (rr_name req) \<le> 100, ''name'',
         ''name must be between 1 and 100 characters''),
      (8 \<le> length (rr_phone req) \<and> length (rr_phone req) \<le> 20, ''phone'',
         ''phone must be a valid number between 8 and 20 characters''),
      (8 \<le> length (rr_password req) \<and> length (rr_password req) \<le> 128, ''password'',
         ''password must be at least 8 characters''),
      pin_check (rr_pin req)]"

definition validate_login :: "login_request \<Rightarrow> (str \<times> str) list" where
  "validate_login req = failed_fields
     [(8 \<le> length (lg_phone req) \<and> length (lg_phone req) \<le> 20, ''phone'', ''phone must be a valid number''),
      (1 \<le> length (lg_password req), ''password'', ''password cannot be empty'')]"

definition new_pin_check :: "str \<Rightarrow> bool \<times> str \<times> str" where
  "new_pin_check p = (PIN_REGEX p, ''new_pin'', ''new PIN must be 4 to 6 digits'')"

definition validate_change_pin :: "pin_change_req \<Rightarrow> (str \<times> str) list" where
  "validate_change_pin req = failed_fields [new_pin_check (pc_new_pin req)]"

definition validate_reset_pin :: "pin_reset_req \<Rightarrow> (str \<times> str) list" where
  "validate_reset_pin req = failed_fields [new_pin_check (pr_new_pin req)]"

definition validate_create_request :: "create_money_request \<Rightarrow> (str \<times> str) list" where
  "validate_create_request req = failed_fields
     [(1 \<le> length (cm_debtor req), ''debtor'', ''debtor identifier cannot be empty''),
      (1 \<le> length (cm_amount_paisa req), ''amount_paisa'', ''amount cannot be empty''),
      (length (var_or (cm_note req) []) \<le> 200, ''note'', ''note cannot exceed 200 characters'')]"

definition validate_accept_request :: "accept_money_request \<Rightarrow> (str \<times> str) list" where
  "validate_accept_request req = failed_fields [pin_check (am_pin req)]"

definition validate_create_link :: "create_payment_link_request \<Rightarrow> (str \<times> str) list" where
  "validate_create_link req = failed_fields
     [(1 \<le> length (cl_amount_paisa req), ''amount_paisa'', ''amount cannot be empty''),
      (length (var_or (cl_note req) []) \<le> 120, ''note'', ''note cannot exceed 120 characters''),
      pin_check (cl_pin req)]"

definition validate_claim_link :: "claim_payment_link_request \<Rightarrow> (str \<times> str) list" where
  "validate_claim_link req = failed_fields [pin_check (cp_pin req)]"

text \<open>The two ways a handler turns failed fields into its error.\<close>

definition checked_fields :: "str \<Rightarrow> (str \<times> str) list \<Rightarrow> ('r, unit) service" where
  "checked_fields message failed = guard (failed = []) (Validation message failed)"

definition checked_text :: "'r externals \<Rightarrow> (str \<times> str) list \<Rightarrow> ('r, unit) service" where
  "checked_text E failed = guard (failed = []) (BadRequest (error_text E failed))"

section \<open>Accounts\<close>

definition register_handler ::
  "'r platform \<Rightarrow> draws \<Rightarrow> str \<Rightarrow> register_request \<Rightarrow> ('r, nat \<times> register_response api_response) service" where
  "register_handler P D rid payload =
     thn (checked_fields ''Validation failed on user registration'' (validate_register payload))
     (bnd (register_user P D payload) (\<lambda>res. ret (201, api_response_new rid res)))"

definition login_handler ::
  "'r platform \<Rightarrow> draws \<Rightarrow> str \<Rightarrow> login_request \<Rightarrow> ('r, login_response api_response \<times> cookie) service" where
  "login_handler P D rid payload =
     thn (checked_fields ''Validation failed on login'' (validate_login payload))
     (bnd (login_user P D payload) (\<lambda>(res, set_cookie). ret (api_response_new rid res, set_cookie)))"

text \<open>\<open>LogoutResponse\<close> is \<open>{ ok: true }\<close>.\<close>

definition logout_handler ::
  "'r platform \<Rightarrow> draws \<Rightarrow> str \<Rightarrow> authenticated_user \<Rightarrow> cookies \<Rightarrow>
     ('r, bool api_response \<times> cookie list) service" where
  "logout_handler P D rid auth_user cookies =
     bnd (logout_user P D (au_user_id auth_user) cookies) (\<lambda>set_cookies.
     ret (api_response_new rid True, set_cookies))"

text \<open>\<open>PinUpdatedRes\<close> is \<open>{ ok: true, pin_updated_at }\<close>; its timestamp stands for it.\<close>

definition change_pin_handler ::
  "'r externals \<Rightarrow> 'r platform \<Rightarrow> draws \<Rightarrow> str \<Rightarrow> authenticated_user \<Rightarrow> pin_change_req \<Rightarrow>
     ('r, int api_response) service" where
  "change_pin_handler E P D rid auth_user payload =
     thn (checked_text E (validate_change_pin payload))
     (bnd (change_pin P D (au_user_id auth_user) payload) (\<lambda>res. ret (api_response_new rid res)))"

definition reset_pin_handler ::
  "'r externals \<Rightarrow> 'r platform \<Rightarrow> draws \<Rightarrow> str \<Rightarrow> authenticated_user \<Rightarrow> cookies \<Rightarrow> pin_reset_req \<Rightarrow>
     ('r, int api_response) service" where
  "reset_pin_handler E P D rid auth_user cookies payload =
     thn (checked_text E (validate_reset_pin payload))
     (bnd (reset_pin P D (au_user_id auth_user) payload cookies) (\<lambda>res. ret (api_response_new rid res)))"

section \<open>Users\<close>

definition get_me_handler :: "str \<Rightarrow> authenticated_user \<Rightarrow> ('r, user_profile api_response) service" where
  "get_me_handler rid auth_user =
     bnd (get_me (au_user_id auth_user)) (\<lambda>res. ret (api_response_new rid res))"

definition lookup_users_handler ::
  "'r externals \<Rightarrow> str \<Rightarrow> str option \<Rightarrow> ('r, user_lookup list api_response) service" where
  "lookup_users_handler E rid q =
     bnd (lookup_users (ilike_contains E) (similarity E) q) (\<lambda>users. ret (api_response_new rid users))"

definition get_public_user_handler :: "str \<Rightarrow> str \<Rightarrow> ('r, public_user api_response) service" where
  "get_public_user_handler rid account_number =
     bnd (get_public_user account_number) (\<lambda>res. ret (api_response_new rid res))"

section \<open>Transfers\<close>

definition get_transfer_handler ::
  "str \<Rightarrow> authenticated_user \<Rightarrow> uuid \<Rightarrow> ('r, transfer_detail api_response) service" where
  "get_transfer_handler rid auth_user i =
     bnd (get_transfer_detail (au_user_id auth_user) i) (\<lambda>detail. ret (api_response_new rid detail))"

definition get_transfer_events_handler ::
  "str \<Rightarrow> authenticated_user \<Rightarrow> uuid \<Rightarrow> ('r, process_event_dto list api_response) service" where
  "get_transfer_events_handler rid auth_user i =
     bnd (get_transfer_events (au_user_id auth_user) i) (\<lambda>events. ret (api_response_new rid events))"

section \<open>Money requests\<close>

definition create_request_handler ::
  "'r platform \<Rightarrow> draws \<Rightarrow> str \<Rightarrow> authenticated_user \<Rightarrow> create_money_request \<Rightarrow>
     ('r, nat \<times> money_request_dto api_response) service" where
  "create_request_handler P D rid auth_user payload =
     thn (checked_fields ''Validation failed on money request'' (validate_create_request payload))
     (bnd (create_request P D (au_user_id auth_user) payload) (\<lambda>req. ret (201, api_response_new rid req)))"

definition get_requests_handler ::
  "str \<Rightarrow> authenticated_user \<Rightarrow> get_requests_query \<Rightarrow>
     ('r, (money_request_dto list \<times> int option) api_response) service" where
  "get_requests_handler rid auth_user params =
     bnd (get_requests (au_user_id auth_user) params) (\<lambda>res. ret (api_response_new rid res))"

definition accept_request_handler ::
  "'r externals \<Rightarrow> 'r platform \<Rightarrow> draws \<Rightarrow> str \<Rightarrow> authenticated_user \<Rightarrow> uuid \<Rightarrow> accept_money_request \<Rightarrow>
     ('r, (money_request_dto \<times> transfer_response) api_response) service" where
  "accept_request_handler E P D rid auth_user i payload =
     thn (checked_text E (validate_accept_request payload))
     (bnd (accept_request P D (au_user_id auth_user) i payload) (\<lambda>res. ret (api_response_new rid res)))"

definition reject_request_handler ::
  "draws \<Rightarrow> str \<Rightarrow> authenticated_user \<Rightarrow> uuid \<Rightarrow> ('r, money_request_dto api_response) service" where
  "reject_request_handler D rid auth_user i =
     bnd (reject_request D (au_user_id auth_user) i) (\<lambda>res. ret (api_response_new rid res))"

definition cancel_request_handler ::
  "draws \<Rightarrow> str \<Rightarrow> authenticated_user \<Rightarrow> uuid \<Rightarrow> ('r, money_request_dto api_response) service" where
  "cancel_request_handler D rid auth_user i =
     bnd (cancel_request D (au_user_id auth_user) i) (\<lambda>res. ret (api_response_new rid res))"

definition get_request_events_handler ::
  "str \<Rightarrow> authenticated_user \<Rightarrow> uuid \<Rightarrow> ('r, process_event_dto list api_response) service" where
  "get_request_events_handler rid auth_user i =
     bnd (get_request_events (au_user_id auth_user) i) (\<lambda>events. ret (api_response_new rid events))"

section \<open>Payment links\<close>

definition create_link_handler ::
  "'r platform \<Rightarrow> draws \<Rightarrow> str \<Rightarrow> authenticated_user \<Rightarrow> create_payment_link_request \<Rightarrow>
     ('r, nat \<times> payment_link_dto api_response) service" where
  "create_link_handler P D rid auth_user payload =
     thn (enforce_rate_limit P D ''links'' (uuid_to_string P (au_user_id auth_user)) 20 60)
     (thn (checked_fields ''Validation failed on payment link creation'' (validate_create_link payload))
     (bnd (create_link P D (au_user_id auth_user) payload) (\<lambda>link. ret (201, api_response_new rid link))))"

definition get_my_links_handler ::
  "str \<Rightarrow> authenticated_user \<Rightarrow> get_my_links_query \<Rightarrow>
     ('r, (payment_link_dto list \<times> int option) api_response) service" where
  "get_my_links_handler rid auth_user params =
     bnd (get_my_links (au_user_id auth_user) params) (\<lambda>res. ret (api_response_new rid res))"

definition get_link_handler :: "draws \<Rightarrow> str \<Rightarrow> str \<Rightarrow> ('r, payment_link_dto api_response) service" where
  "get_link_handler D rid token =
     bnd (get_link_by_token D token) (\<lambda>link. ret (api_response_new rid link))"

definition claim_link_handler ::
  "'r externals \<Rightarrow> 'r platform \<Rightarrow> draws \<Rightarrow> str \<Rightarrow> authenticated_user \<Rightarrow> str \<Rightarrow> claim_payment_link_request \<Rightarrow>
     ('r, nat \<times> (transfer_response \<times> payment_link_dto) api_response) service" where
  "claim_link_handler E P D rid auth_user token payload =
     thn (enforce_rate_limit P D ''claim_link'' (uuid_to_string P (au_user_id auth_user)) 10 60)
     (thn (checked_text E (validate_claim_link payload))
     (bnd (claim_link P D (au_user_id auth_user) token payload) (\<lambda>res. ret (201, api_response_new rid res))))"

definition cancel_link_handler ::
  "draws \<Rightarrow> str \<Rightarrow> authenticated_user \<Rightarrow> str \<Rightarrow> ('r, payment_link_dto api_response) service" where
  "cancel_link_handler D rid auth_user token =
     bnd (cancel_link D (au_user_id auth_user) token) (\<lambda>res. ret (api_response_new rid res))"

definition get_link_events_handler ::
  "str \<Rightarrow> authenticated_user \<Rightarrow> uuid \<Rightarrow> ('r, process_event_dto list api_response) service" where
  "get_link_events_handler rid auth_user i =
     bnd (get_link_events (au_user_id auth_user) i) (\<lambda>events. ret (api_response_new rid events))"

section \<open>Health\<close>

record health_response =
  hr_status :: str
  hr_postgres :: str
  hr_redis :: str
  hr_server_started_at :: int

text \<open>\<open>SELECT 1\<close>: whether the pool answers.\<close>

definition postgres_answers :: "'r world \<Rightarrow> bool \<times> 'r world" where
  "postgres_answers w = (case pool_fetch (\<lambda>d. ()) w of
     (Inl e, w') \<Rightarrow> (False, w') | (Inr x, w') \<Rightarrow> (True, w'))"

definition health_check :: "'r externals \<Rightarrow> 'r world \<Rightarrow> (nat \<times> health_response) \<times> 'r world" where
  "health_check E w = (case postgres_answers w of (pg_ok, w') \<Rightarrow>
     (let redis_ok = redis_ping E (redis w') in
      ((if pg_ok \<and> redis_ok then 200 else 503,
        \<lparr>hr_status = (if pg_ok \<and> redis_ok then ''ok'' else ''degraded''),
         hr_postgres = (if pg_ok then ''ok'' else ''down''), hr_redis = (if redis_ok then ''ok'' else ''down''),
         hr_server_started_at = server_started_at E\<rparr>), w')))"

definition liveness_check :: nat where "liveness_check = 200"

definition readiness_check :: "'r externals \<Rightarrow> 'r world \<Rightarrow> nat \<times> 'r world" where
  "readiness_check E w = (case postgres_answers w of (pg_ok, w') \<Rightarrow>
     (if pg_ok \<and> redis_ping E (redis w') then 200 else 503, w'))"

definition metrics_handler :: "'r externals \<Rightarrow> str" where
  "metrics_handler E = metrics_text E"

end
