(* ===== verification/Routes.thy ===== *)
theory Routes
  imports Handlers
begin

text \<open>
  The HTTP surface of the service (\<open>features/*/routes.rs\<close>, merged in \<open>lib.rs\<close>): one constructor per route,
  with what axum has decoded of it, and the function that serves a request.  A handler with an
  \<open>AuthenticatedUser\<close> among its arguments is a \<open>session_call\<close>: axum runs the extractor first and answers
  its rejection.  That a request is decoded into these calls, or refused with a 4xx of axum's own, is axum's
  and serde's part.
\<close>

section \<open>Calls\<close>

datatype public_call =
    RegisterCall register_request
  | LoginCall login_request
  | PublicUserCall str
  | LinkCall str
  | HealthCall
  | LivenessCall
  | ReadinessCall
  | MetricsCall

datatype session_call =
    LogoutCall
  | ChangePinCall pin_change_req
  | ResetPinCall pin_reset_req
  | MeCall
  | LookupCall "str option"
  | CreateTransferCall create_transfer_request
  | TransferCall uuid
  | TransferEventsCall uuid
  | TransactionsCall transaction_history_query
  | StatementCall statement_query
  | ActivityCall "int option" "int option"
  | CreateRequestCall create_money_request
  | RequestsCall get_requests_query
  | AcceptCall uuid accept_money_request
  | RejectCall uuid
  | CancelCall uuid
  | RequestEventsCall uuid
  | CreateLinkCall create_payment_link_request
  | MyLinksCall get_my_links_query
  | ClaimLinkCall str claim_payment_link_request
  | CancelLinkCall str
  | LinkEventsCall uuid
  | NotificationsCall notif_query
  | MarkReadCall notif_read_req
  | ParseCall str

datatype http_call = Public public_call | Session session_call

datatype body =
    RegisterBody "register_response api_response"
  | LoginBody "login_response api_response"
  | OkBody "bool api_response"
  | PinUpdatedBody "int api_response"
  | ProfileBody "user_profile api_response"
  | LookupBody "user_lookup list api_response"
  | PublicUserBody "public_user api_response"
  | TransferBody "transfer_response api_response"
  | TransferDetailBody "transfer_detail api_response"
  | EventsBody "process_event_dto list api_response"
  | TransactionsBody "paginated_transactions api_response"
  | CsvBody "(str \<times> str) list" str
  | RequestBody "money_request_dto api_response"
  | RequestsBody "(money_request_dto list \<times> int option) api_response"
  | AcceptBody "(money_request_dto \<times> transfer_response) api_response"
  | LinkBody "payment_link_dto api_response"
  | LinksBody "(payment_link_dto list \<times> int option) api_response"
  | ClaimBody "(transfer_response \<times> payment_link_dto) api_response"
  | NotificationsBody "notifications_response api_response"
  | IntentBody "ai_response api_response"
  | HealthBody health_response
  | TextBody str
  | NoBody
  | ErrorBody error_details

record reply =
  status :: nat
  set_cookies :: "cookie list"
  content :: body

definition reply_of :: "nat \<Rightarrow> body \<Rightarrow> reply" where
  "reply_of s b = \<lparr>status = s, set_cookies = [], content = b\<rparr>"

text \<open>\<open>Json(..)\<close> alone, and \<open>(StatusCode, Json(..))\<close>.\<close>

definition json :: "('a \<Rightarrow> body) \<Rightarrow> ('r, 'a) service \<Rightarrow> ('r, reply) service" where
  "json b m = bnd m (\<lambda>x. ret (reply_of 200 (b x)))"

definition json_status :: "('a \<Rightarrow> body) \<Rightarrow> ('r, nat \<times> 'a) service \<Rightarrow> ('r, reply) service" where
  "json_status b m = bnd m (\<lambda>(s, x). ret (reply_of s (b x)))"

section \<open>Serving\<close>

definition request_id :: "'r platform \<Rightarrow> draws \<Rightarrow> str" where
  "request_id P D = uuid_to_string P (new_v4 D 90)"

fun serve_session ::
  "'r externals \<Rightarrow> 'r platform \<Rightarrow> draws \<Rightarrow> authenticated_user \<Rightarrow> cookies \<Rightarrow> session_call \<Rightarrow> ('r, reply) service"
where
  "serve_session E P D au ck LogoutCall =
     bnd (logout_handler P D (request_id P D) au ck) (\<lambda>(x, cs).
     ret \<lparr>status = 200, set_cookies = cs, content = OkBody x\<rparr>)"
| "serve_session E P D au ck (ChangePinCall req) =
     json PinUpdatedBody (change_pin_handler E P D (request_id P D) au req)"
| "serve_session E P D au ck (ResetPinCall req) =
     json PinUpdatedBody (reset_pin_handler E P D (request_id P D) au ck req)"
| "serve_session E P D au ck MeCall = json ProfileBody (get_me_handler (request_id P D) au)"
| "serve_session E P D au ck (LookupCall q) = json LookupBody (lookup_users_handler E (request_id P D) q)"
| "serve_session E P D au ck (CreateTransferCall req) =
     json_status TransferBody (create_transfer_handler P D (request_id P D) (au_user_id au) req)"
| "serve_session E P D au ck (TransferCall i) =
     json TransferDetailBody (get_transfer_handler (request_id P D) au i)"
| "serve_session E P D au ck (TransferEventsCall i) =
     json EventsBody (get_transfer_events_handler (request_id P D) au i)"
| "serve_session E P D au ck (TransactionsCall q) =
     json TransactionsBody (get_transactions_handler (ilike E) (request_id P D) au q)"
| "serve_session E P D au ck (StatementCall q) =
     bnd (get_statement_csv_handler (rfc3339 E) au q) (\<lambda>r. ret (reply_of (cr_status r) (CsvBody (cr_headers r) (cr_body r))))"
| "serve_session E P D au ck (ActivityCall cursor limit) =
     json EventsBody (get_activity_handler (request_id P D) au cursor limit)"
| "serve_session E P D au ck (CreateRequestCall req) =
     json_status RequestBody (create_request_handler P D (request_id P D) au req)"
| "serve_session E P D au ck (RequestsCall q) =
     json RequestsBody (get_requests_handler (request_id P D) au q)"
| "serve_session E P D au ck (AcceptCall i req) =
     json AcceptBody (accept_request_handler E P D (request_id P D) au i req)"
| "serve_session E P D au ck (RejectCall i) = json RequestBody (reject_request_handler D (request_id P D) au i)"
| "serve_session E P D au ck (CancelCall i) = json RequestBody (cancel_request_handler D (request_id P D) au i)"
| "serve_session E P D au ck (RequestEventsCall i) =
     json EventsBody (get_request_events_handler (request_id P D) au i)"
| "serve_session E P D au ck (CreateLinkCall req) =
     json_status LinkBody (create_link_handler P D (request_id P D) au req)"
| "serve_session E P D au ck (MyLinksCall q) = json LinksBody (get_my_links_handler (request_id P D) au q)"
| "serve_session E P D au ck (ClaimLinkCall token req) =
     json_status ClaimBody (claim_link_handler E P D (request_id P D) au token req)"
| "serve_session E P D au ck (CancelLinkCall token) =
     json LinkBody (cancel_link_handler D (request_id P D) au token)"
| "serve_session E P D au ck (LinkEventsCall i) = json EventsBody (get_link_events_handler (request_id P D) au i)"
| "serve_session E P D au ck (NotificationsCall q) =
     json NotificationsBody (get_notifications_handler (request_id P D) au q)"
| "serve_session E P D au ck (MarkReadCall req) = json OkBody (mark_read_handler D (request_id P D) au req)"
| "serve_session E P D au ck (ParseCall text) =
     json IntentBody (parse_ai_intent_handler (error_text E) P D (request_id P D) au text)"

definition answered :: "('r world \<Rightarrow> reply \<times> 'r world) \<Rightarrow> ('r, reply) service" where
  "answered m = (\<lambda>w. case m w of (r, w') \<Rightarrow> (Inr r, w'))"

fun serve_public ::
  "'r externals \<Rightarrow> 'r platform \<Rightarrow> draws \<Rightarrow> public_call \<Rightarrow> ('r, reply) service"
where
  "serve_public E P D (RegisterCall req) =
     json_status RegisterBody (register_handler P D (request_id P D) req)"
| "serve_public E P D (LoginCall req) =
     bnd (login_handler P D (request_id P D) req) (\<lambda>(x, c).
     ret \<lparr>status = 200, set_cookies = [c], content = LoginBody x\<rparr>)"
| "serve_public E P D (PublicUserCall acc) =
     json PublicUserBody (get_public_user_handler (request_id P D) acc)"
| "serve_public E P D (LinkCall token) = json LinkBody (get_link_handler D (request_id P D) token)"
| "serve_public E P D HealthCall =
     answered (\<lambda>w. case health_check E w of ((s, h), w') \<Rightarrow> (reply_of s (HealthBody h), w'))"
| "serve_public E P D LivenessCall = ret (reply_of liveness_check NoBody)"
| "serve_public E P D ReadinessCall =
     answered (\<lambda>w. case readiness_check E w of (s, w') \<Rightarrow> (reply_of s NoBody, w'))"
| "serve_public E P D MetricsCall = ret (reply_of 200 (TextBody (metrics_handler E)))"

text \<open>An \<open>AppError\<close> becomes the answer of its \<open>into_response\<close>.\<close>

definition respond :: "'r externals \<Rightarrow> 'r platform \<Rightarrow> draws \<Rightarrow> ('r, reply) service \<Rightarrow> 'r world \<Rightarrow> reply \<times> 'r world" where
  "respond E P D m w = (case m w of
     (Inl e, w') \<Rightarrow> (case into_response (db_display E) (uuid_to_string P (new_v4 D 91)) e of
        (s, details) \<Rightarrow> (reply_of s (ErrorBody details), w'))
   | (Inr r, w') \<Rightarrow> (r, w'))"

definition serve ::
  "'r externals \<Rightarrow> 'r platform \<Rightarrow> draws \<Rightarrow> str option \<Rightarrow> cookies \<Rightarrow> http_call \<Rightarrow> 'r world \<Rightarrow> reply \<times> 'r world"
where
  "serve E P D header ck call = respond E P D (case call of
     Public c \<Rightarrow> serve_public E P D c
   | Session c \<Rightarrow> bnd (from_request_parts P D header ck) (\<lambda>au. serve_session E P D au ck c))"

section \<open>The route table\<close>

datatype http_method = GET | POST
datatype segment = Fixed str | Param

type_synonym route = "http_method \<times> segment list"

definition health_router :: "route list" where
  "health_router = [(GET, [Fixed ''health'']), (GET, [Fixed ''health'', Fixed ''live'']),
     (GET, [Fixed ''health'', Fixed ''ready'']), (GET, [Fixed ''metrics''])]"

definition auth_router :: "route list" where
  "auth_router = [(POST, [Fixed ''auth'', Fixed ''register'']), (POST, [Fixed ''auth'', Fixed ''login'']),
     (POST, [Fixed ''auth'', Fixed ''logout'']), (POST, [Fixed ''me'', Fixed ''pin'', Fixed ''change'']),
     (POST, [Fixed ''me'', Fixed ''pin'', Fixed ''reset''])]"

definition users_router :: "route list" where
  "users_router = [(GET, [Fixed ''me'']), (GET, [Fixed ''users'', Fixed ''lookup'']),
     (GET, [Fixed ''public'', Fixed ''users'', Param])]"

definition transfers_router :: "route list" where
  "transfers_router = [(POST, [Fixed ''transfers'']), (GET, [Fixed ''transfers'', Param]),
     (GET, [Fixed ''transfers'', Param, Fixed ''events''])]"

definition history_router :: "route list" where
  "history_router = [(GET, [Fixed ''me'', Fixed ''transactions'']), (GET, [Fixed ''me'', Fixed ''statement.csv'']),
     (GET, [Fixed ''me'', Fixed ''activity''])]"

definition requests_router :: "route list" where
  "requests_router = [(POST, [Fixed ''requests'']), (GET, [Fixed ''requests'']),
     (POST, [Fixed ''requests'', Param, Fixed ''accept'']), (POST, [Fixed ''requests'', Param, Fixed ''reject'']),
     (POST, [Fixed ''requests'', Param, Fixed ''cancel'']), (GET, [Fixed ''requests'', Param, Fixed ''events''])]"

definition links_router :: "route list" where
  "links_router = [(POST, [Fixed ''links'']), (GET, [Fixed ''me'', Fixed ''links'']),
     (GET, [Fixed ''links'', Param]), (POST, [Fixed ''links'', Param, Fixed ''claim'']),
     (POST, [Fixed ''links'', Param, Fixed ''cancel'']), (GET, [Fixed ''links'', Param, Fixed ''events''])]"

definition notifications_router :: "route list" where
  "notifications_router = [(GET, [Fixed ''me'', Fixed ''notifications'']),
     (POST, [Fixed ''me'', Fixed ''notifications'', Fixed ''read''])]"

definition ai_router :: "route list" where
  "ai_router = [(POST, [Fixed ''ai'', Fixed ''parse''])]"

definition api_v1 :: "route list" where
  "api_v1 = health_router @ auth_router @ users_router @ transfers_router @ history_router @
     requests_router @ links_router @ notifications_router @ ai_router"

definition app_routes :: "route list" where
  "app_routes = health_router @ map (\<lambda>(m, p). (m, Fixed ''api'' # Fixed ''v1'' # p)) api_v1"

text \<open>The route that leads to a call.\<close>

fun public_route :: "public_call \<Rightarrow> route" where
  "public_route (RegisterCall req) = (POST, [Fixed ''auth'', Fixed ''register''])"
| "public_route (LoginCall req) = (POST, [Fixed ''auth'', Fixed ''login''])"
| "public_route (PublicUserCall acc) = (GET, [Fixed ''public'', Fixed ''users'', Param])"
| "public_route (LinkCall token) = (GET, [Fixed ''links'', Param])"
| "public_route HealthCall = (GET, [Fixed ''health''])"
| "public_route LivenessCall = (GET, [Fixed ''health'', Fixed ''live''])"
| "public_route ReadinessCall = (GET, [Fixed ''health'', Fixed ''ready''])"
| "public_route MetricsCall = (GET, [Fixed ''metrics''])"

fun session_route :: "session_call \<Rightarrow> route" where
  "session_route LogoutCall = (POST, [Fixed ''auth'', Fixed ''logout''])"
| "session_route (ChangePinCall req) = (POST, [Fixed ''me'', Fixed ''pin'', Fixed ''change''])"
| "session_route (ResetPinCall req) = (POST, [Fixed ''me'', Fixed ''pin'', Fixed ''reset''])"
| "session_route MeCall = (GET, [Fixed ''me''])"
| "session_route (LookupCall q) = (GET, [Fixed ''users'', Fixed ''lookup''])"
| "session_route (CreateTransferCall req) = (POST, [Fixed ''transfers''])"
| "session_route (TransferCall i) = (GET, [Fixed ''transfers'', Param])"
| "session_route (TransferEventsCall i) = (GET, [Fixed ''transfers'', Param, Fixed ''events''])"
| "session_route (TransactionsCall q) = (GET, [Fixed ''me'', Fixed ''transactions''])"
| "session_route (StatementCall q) = (GET, [Fixed ''me'', Fixed ''statement.csv''])"
| "session_route (ActivityCall c l) = (GET, [Fixed ''me'', Fixed ''activity''])"
| "session_route (CreateRequestCall req) = (POST, [Fixed ''requests''])"
| "session_route (RequestsCall q) = (GET, [Fixed ''requests''])"
| "session_route (AcceptCall i req) = (POST, [Fixed ''requests'', Param, Fixed ''accept''])"
| "session_route (RejectCall i) = (POST, [Fixed ''requests'', Param, Fixed ''reject''])"
| "session_route (CancelCall i) = (POST, [Fixed ''requests'', Param, Fixed ''cancel''])"
| "session_route (RequestEventsCall i) = (GET, [Fixed ''requests'', Param, Fixed ''events''])"
| "session_route (CreateLinkCall req) = (POST, [Fixed ''links''])"
| "session_route (MyLinksCall q) = (GET, [Fixed ''me'', Fixed ''links''])"
| "session_route (ClaimLinkCall token req) = (POST, [Fixed ''links'', Param, Fixed ''claim''])"
| "session_route (CancelLinkCall token) = (POST, [Fixed ''links'', Param, Fixed ''cancel''])"
| "session_route (LinkEventsCall i) = (GET, [Fixed ''links'', Param, Fixed ''events''])"
| "session_route (NotificationsCall q) = (GET, [Fixed ''me'', Fixed ''notifications''])"
| "session_route (MarkReadCall req) = (POST, [Fixed ''me'', Fixed ''notifications'', Fixed ''read''])"
| "session_route (ParseCall text) = (POST, [Fixed ''ai'', Fixed ''parse''])"

fun route_of :: "http_call \<Rightarrow> route" where
  "route_of (Public c) = public_route c"
| "route_of (Session c) = session_route c"

text \<open>What a route matches: a parameter stands for one segment.\<close>

fun matches_path :: "segment list \<Rightarrow> str list \<Rightarrow> bool" where
  "matches_path [] [] = True"
| "matches_path (Fixed a # p) (s # path) = (a = s \<and> matches_path p path)"
| "matches_path (Param # p) (s # path) = matches_path p path"
| "matches_path _ _ = False"

definition matching :: "http_method \<Rightarrow> str list \<Rightarrow> route list" where
  "matching m path = filter (\<lambda>r. fst r = m \<and> matches_path (snd r) path) app_routes"

fun apart :: "segment list \<Rightarrow> segment list \<Rightarrow> bool" where
  "apart [] [] = False"
| "apart (Fixed a # p) (Fixed b # q) = (a \<noteq> b \<or> apart p q)"
| "apart (_ # p) (_ # q) = apart p q"
| "apart _ _ = True"

lemma apart_matches: "apart p q \<Longrightarrow> matches_path p path \<Longrightarrow> \<not> matches_path q path"
proof (induction path arbitrary: p q)
  case Nil
  then show ?case by (cases p; cases q) auto
next
  case (Cons s path)
  then show ?case by (cases "(p, s # path)" rule: matches_path.cases; cases "(q, s # path)" rule: matches_path.cases) auto
qed

lemma routes_apart: "sorted_wrt (\<lambda>r s. fst r \<noteq> fst s \<or> apart (snd r) (snd s)) app_routes"
  by code_simp

lemma length_filter_apart:
  "sorted_wrt (\<lambda>r s. \<not> (Q r \<and> Q s)) rs \<Longrightarrow> length (filter Q rs) \<le> 1"
proof (induction rs)
  case (Cons r rs)
  then show ?case by (cases "Q r") (auto simp: filter_empty_conv)
qed simp

text \<open>Routing is a function: whatever method and path a request has, at most one of the routes of the
application matches it, and every call of the service has its route there, below the prefix of the version.\<close>

theorem routes_unambiguous:
  "length (matching m path) \<le> 1 \<and>
   (fst (route_of call), Fixed ''api'' # Fixed ''v1'' # snd (route_of call)) \<in> set app_routes"
proof
  have "sorted_wrt (\<lambda>r s. \<not> ((fst r = m \<and> matches_path (snd r) path) \<and> (fst s = m \<and> matches_path (snd s) path))) app_routes"
    using routes_apart by (rule sorted_wrt_mono_rel [rotated]) (auto dest: apart_matches)
  then show "length (matching m path) \<le> 1" unfolding matching_def by (rule length_filter_apart)
  have "route_of call \<in> set api_v1"
  proof (cases call)
    case (Public c)
    then show ?thesis
      by (cases c) (simp_all add: api_v1_def health_router_def auth_router_def users_router_def links_router_def)
  next
    case (Session c)
    then show ?thesis
      by (cases c) (simp_all add: api_v1_def auth_router_def users_router_def transfers_router_def
        history_router_def requests_router_def links_router_def notifications_router_def ai_router_def)
  qed
  then show "(fst (route_of call), Fixed ''api'' # Fixed ''v1'' # snd (route_of call)) \<in> set app_routes"
    by (force simp: app_routes_def)
qed

section \<open>Who a request speaks for\<close>

text \<open>The user of a live session that the request carries, if any.\<close>

definition session_user ::
  "'r platform \<Rightarrow> draws \<Rightarrow> str option \<Rightarrow> cookies \<Rightarrow> 'r world \<Rightarrow> authenticated_user option" where
  "session_user P D header ck w = Option.bind (request_token header ck) (\<lambda>token.
     if trim token = [] then None
     else case rd_get_str (rds P) (clock D 60) (session_key token) (redis w) of
       Some (Some s) \<Rightarrow> map_option (\<lambda>i. \<lparr>au_user_id = i, au_session_token = token\<rparr>) (uuid_from_str P s)
     | _ \<Rightarrow> None)"

lemma from_request_parts_session:
  "case session_user P D header ck w of
     Some au \<Rightarrow> from_request_parts P D header ck w = (Inr au, w)
   | None \<Rightarrow> \<exists>e. from_request_parts P D header ck w = (Inl e, w) \<and> (status_code e = 401 \<or> status_code e = 503)"
proof (cases "request_token header ck")
  case None
  then show ?thesis
    by (simp add: session_user_def from_request_parts_def monad_simps)
next
  case (Some token)
  then show ?thesis
    by (auto simp: session_user_def from_request_parts_def monad_simps redis_run ok_or_def split: option.splits)
qed

text \<open>C37: No route that takes an authenticated user can be used without a live session: whatever is asked, a
request whose cookie or bearer token does not name one is answered 401 (or 503, when the session store is
down) and changes nothing at all, neither tables nor counters nor mails.\<close>

theorem session_required:
  assumes "session_user P D header ck w = None"
  shows "snd (serve E P D header ck (Session c) w) = w \<and>
    (status (fst (serve E P D header ck (Session c) w)) = 401 \<or>
     status (fst (serve E P D header ck (Session c) w)) = 503)"
  using from_request_parts_session [of P D header ck w] assms
  by (auto simp: serve_def respond_def bnd_run into_response_def reply_of_def)

definition sample_externals :: "kv externals" where
  "sample_externals = \<lparr>ilike = (=), ilike_contains = contains_str, similarity = (\<lambda>a b. 0), rfc3339 = show_int,
     error_text = (\<lambda>fs. concat (map snd fs)), db_display = (\<lambda>e. []), redis_ping = (\<lambda>r. True),
     metrics_text = [], server_started_at = 0\<rparr>"

theorem session_required_witness:
  "snd (serve sample_externals sample_platform (sample_draws 1000 2) (Some ''Bearer nobody'') []
     (Session (RejectCall (Uuid 1))) sample_world) = sample_world"
proof -
  have "session_user sample_platform (sample_draws 1000 2) (Some ''Bearer nobody'') [] sample_world = None"
    by code_simp
  from session_required [OF this] show ?thesis by blast
qed

section \<open>What a request asks for\<close>

fun asked_public :: "public_call \<Rightarrow> action option" where
  "asked_public (RegisterCall req) = Some (AuthAction (Register req))"
| "asked_public (LoginCall req) = Some (AuthAction (Login req))"
| "asked_public (LinkCall token) = Some (OnLink (Uuid 0) (ViewLink token))"
| "asked_public _ = None"

fun asked_session :: "uuid \<Rightarrow> cookies \<Rightarrow> session_call \<Rightarrow> action option" where
  "asked_session u ck LogoutCall = Some (AuthAction (Logout u ck))"
| "asked_session u ck (ChangePinCall req) = Some (AuthAction (ChangePin u req))"
| "asked_session u ck (ResetPinCall req) = Some (AuthAction (ResetPin u req ck))"
| "asked_session u ck (CreateTransferCall req) = Some (SendTransfer u req)"
| "asked_session u ck (CreateRequestCall req) = Some (OnRequest u (CreateRequest req))"
| "asked_session u ck (AcceptCall i req) = Some (OnRequest u (AcceptRequest i req))"
| "asked_session u ck (RejectCall i) = Some (OnRequest u (RejectRequest i))"
| "asked_session u ck (CancelCall i) = Some (OnRequest u (CancelRequest i))"
| "asked_session u ck (CreateLinkCall req) = Some (OnLink u (CreateLink req))"
| "asked_session u ck (ClaimLinkCall token req) = Some (OnLink u (ClaimLink token req))"
| "asked_session u ck (CancelLinkCall token) = Some (OnLink u (CancelLink token))"
| "asked_session u ck (MarkReadCall req) = Some (MarkRead u req)"
| "asked_session _ _ _ = None"

definition asked :: "'r platform \<Rightarrow> draws \<Rightarrow> str option \<Rightarrow> cookies \<Rightarrow> http_call \<Rightarrow> 'r world \<Rightarrow> action option" where
  "asked P D header ck call w = (case call of Public c \<Rightarrow> asked_public c
     | Session c \<Rightarrow> Option.bind (session_user P D header ck w) (\<lambda>au. asked_session (au_user_id au) ck c))"

text \<open>A program leaves the database as it was, or does to it what the action does.\<close>

definition effect_on :: "'r platform \<Rightarrow> draws \<Rightarrow> action option \<Rightarrow> 'r world \<Rightarrow> 'r world \<Rightarrow> bool" where
  "effect_on P D a w w' \<longleftrightarrow> db w' = db w \<or>
     (\<exists>act w1. a = Some act \<and> db w1 = db w \<and> db w' = db (system_op P D act w1))"

definition does :: "'r platform \<Rightarrow> draws \<Rightarrow> action option \<Rightarrow> ('r, 'a) service \<Rightarrow> bool" where
  "does P D a m \<longleftrightarrow> (\<forall>w. effect_on P D a w (snd (m w)))"

named_theorems does_rules "rules that show what a handler does"

lemma does_op: "(\<And>w. snd (m w) = system_op P D act w) \<Longrightarrow> does P D (Some act) m"
  by (auto simp: does_def effect_on_def)

lemma does_keeps: "(\<And>d. keeps (\<lambda>w. db w = d) m) \<Longrightarrow> does P D a m"
  by (simp add: does_def effect_on_def keeps_def)

lemma does_bnd [does_rules]:
  assumes "does P D a m" "\<And>x s. snd (k x s) = s"
  shows "does P D a (bnd m k)"
proof -
  have "snd (bnd m k w) = snd (m w)" for w
    using assms(2) by (auto simp: bnd_run split: prod.splits sum.splits)
  with assms(1) show ?thesis by (simp add: does_def)
qed

lemma does_thn [does_rules]:
  assumes "\<And>d. keeps (\<lambda>w. db w = d) g" "does P D a m"
  shows "does P D a (thn g m)"
  unfolding does_def
proof
  fix w
  obtain r w1 where g: "g w = (r, w1)" by fastforce
  then have d: "db w1 = db w" using keepsD [OF assms(1), of w "db w"] by simp
  show "effect_on P D a w (snd (thn g m w))"
  proof (cases r)
    case (Inl e)
    with g d show ?thesis by (simp add: thn_run effect_on_def)
  next
    case (Inr x)
    have "effect_on P D a w1 (snd (m w1))" using assms(2) by (simp add: does_def)
    with Inr g d show ?thesis by (simp add: thn_run effect_on_def)
  qed
qed

lemma keeps_checked [keeps_rules]:
  "keeps I (checked_fields s f)" "keeps I (checked_text E f)"
  unfolding checked_fields_def checked_text_def by (intro keeps_rules)+

lemma does_json [does_rules]:
  "does P D a m \<Longrightarrow> does P D a (json b m)"
  "does P D a n \<Longrightarrow> does P D a (json_status c n)"
  unfolding json_def json_status_def by (intro does_bnd; auto simp: ret_run split: prod.split)+

lemma pure_reply: "snd (ret x s) = s"
  by (simp add: ret_run)

lemma pure_pair: "snd ((case p of (a, b) \<Rightarrow> ret (f a b)) s) = s"
  by (simp add: ret_run split: prod.split)

lemma account_handlers_do [does_rules]:
  "does P D (Some (AuthAction (Register req))) (register_handler P D rid req)"
  "does P D (Some (AuthAction (Login lreq))) (login_handler P D rid lreq)"
  "does P D (Some (AuthAction (Logout (au_user_id au) ck))) (logout_handler P D rid au ck)"
  "does P D (Some (AuthAction (ChangePin (au_user_id au) creq))) (change_pin_handler E P D rid au creq)"
  "does P D (Some (AuthAction (ResetPin (au_user_id au) preq ck))) (reset_pin_handler E P D rid au ck preq)"
  unfolding register_handler_def login_handler_def logout_handler_def change_pin_handler_def reset_pin_handler_def
  by (intro does_thn does_bnd keeps_checked pure_reply pure_pair, rule does_op, simp)+

lemma money_handlers_do [does_rules]:
  "does P D (Some (SendTransfer u treq)) (create_transfer_handler P D rid u treq)"
  "does P D (Some (OnRequest (au_user_id au) (CreateRequest qreq))) (create_request_handler P D rid au qreq)"
  "does P D (Some (OnRequest (au_user_id au) (AcceptRequest i areq))) (accept_request_handler E P D rid au i areq)"
  "does P D (Some (OnRequest (au_user_id au) (RejectRequest i))) (reject_request_handler D rid au i)"
  "does P D (Some (OnRequest (au_user_id au) (CancelRequest i))) (cancel_request_handler D rid au i)"
  unfolding create_transfer_handler_def create_request_handler_def accept_request_handler_def
    reject_request_handler_def cancel_request_handler_def
  by (intro does_thn does_bnd keeps_checked keeps_guard keeps_db_rate_limit pure_reply pure_pair, rule does_op, simp)+

lemma link_handlers_do [does_rules]:
  "does P D (Some (OnLink (au_user_id au) (CreateLink lreq))) (create_link_handler P D rid au lreq)"
  "does P D (Some (OnLink v (ViewLink token))) (get_link_handler D rid token)"
  "does P D (Some (OnLink (au_user_id au) (ClaimLink token creq))) (claim_link_handler E P D rid au token creq)"
  "does P D (Some (OnLink (au_user_id au) (CancelLink token))) (cancel_link_handler D rid au token)"
  "does P D (Some (MarkRead (au_user_id au) nreq)) (mark_read_handler D rid au nreq)"
  unfolding create_link_handler_def get_link_handler_def claim_link_handler_def cancel_link_handler_def
    mark_read_handler_def
  by (intro does_thn does_bnd keeps_checked keeps_db_rate_limit pure_reply pure_pair, rule does_op, simp)+

text \<open>The handlers that only read.\<close>

lemmas read_services = get_me_def lookup_users_def get_public_user_def get_transfer_detail_def
  get_transfer_events_def get_transactions_def generate_statement_csv_def get_user_activity_def get_requests_def
  get_request_events_def get_my_links_def get_link_events_def get_notifications_def

lemmas read_handlers = get_me_handler_def lookup_users_handler_def get_public_user_handler_def
  get_transfer_handler_def get_transfer_events_handler_def get_transactions_handler_def
  get_statement_csv_handler_def get_activity_handler_def get_requests_handler_def
  get_request_events_handler_def get_my_links_handler_def get_link_events_handler_def
  get_notifications_handler_def parse_ai_intent_handler_def

lemma reading_handlers_do:
  "does P D a (get_me_handler rid au)"
  "does P D a (lookup_users_handler E rid q)"
  "does P D a (get_public_user_handler rid acc)"
  "does P D a (get_transfer_handler rid au i)"
  "does P D a (get_transfer_events_handler rid au i)"
  "does P D a (get_transactions_handler il rid au tq)"
  "does P D a (get_statement_csv_handler rf au sq)"
  "does P D a (get_activity_handler rid au cursor limit)"
  "does P D a (get_requests_handler rid au rq)"
  "does P D a (get_request_events_handler rid au i)"
  "does P D a (get_my_links_handler rid au lq)"
  "does P D a (get_link_events_handler rid au i)"
  "does P D a (get_notifications_handler rid au nq)"
  "does P D a (parse_ai_intent_handler et P D rid au text)"
  unfolding read_handlers read_services Let_def
  by (rule does_keeps, intro keeps_rules)+

lemma serve_session_does: "does P D (asked_session (au_user_id au) ck c) (serve_session E P D au ck c)"
  by (cases c) (auto intro!: does_rules reading_handlers_do pure_reply pure_pair)

lemma postgres_answers_db: "db (snd (postgres_answers w)) = db w"
proof -
  obtain r w1 where run: "pool_fetch (\<lambda>d. ()) w = (r, w1)" by fastforce
  have "db (snd (pool_fetch (\<lambda>d. ()) w)) = db w"
    using keepsD [OF keeps_db_pool_fetch [where I = "\<lambda>d. d = db w"]] by blast
  then show ?thesis by (cases r) (simp_all add: postgres_answers_def run)
qed

lemma answered_keeps:
  fixes E :: "'r externals"
  shows "keeps (\<lambda>w. db w = d) (answered (\<lambda>w. case health_check E w of ((s, h), w') \<Rightarrow> (f s h, w')))"
  and "keeps (\<lambda>w. db w = d) (answered (\<lambda>w. case readiness_check E w of (s, w') \<Rightarrow> (g s, w')))"
proof -
  have "db w' = db w" if "postgres_answers w = (b, w')" for w b and w' :: "'r world"
    using postgres_answers_db [of w] that by simp
  then show "keeps (\<lambda>w. db w = d) (answered (\<lambda>w. case health_check E w of ((s, h), w') \<Rightarrow> (f s h, w')))"
    "keeps (\<lambda>w. db w = d) (answered (\<lambda>w. case readiness_check E w of (s, w') \<Rightarrow> (g s, w')))"
    by (auto simp: keeps_def answered_def health_check_def readiness_check_def Let_def split: prod.split)
qed

lemma serve_public_does: "does P D (asked_public c) (serve_public E P D c)"
proof (cases c)
  case HealthCall
  then show ?thesis by (simp add: does_keeps answered_keeps)
next
  case ReadinessCall
  then show ?thesis by (simp add: does_keeps answered_keeps)
next
  case LivenessCall
  then show ?thesis by (simp add: does_keeps keeps_ret)
next
  case MetricsCall
  then show ?thesis by (simp add: does_keeps keeps_ret)
qed (auto intro!: does_rules reading_handlers_do pure_reply pure_pair)

lemma respond_world: "snd (respond E P D m w) = snd (m w)"
  by (simp add: respond_def split: prod.split sum.split)

lemma serve_does: "effect_on P D (asked P D header ck call w) w (snd (serve E P D header ck call w))"
proof (cases call)
  case (Public c)
  with serve_public_does [of P D c E] show ?thesis
    by (simp add: serve_def respond_world asked_def does_def)
next
  case (Session c)
  show ?thesis
  proof (cases "session_user P D header ck w")
    case None
    with from_request_parts_session [of P D header ck w] Session show ?thesis
      by (auto simp: serve_def respond_world effect_on_def bnd_run)
  next
    case (Some au)
    with from_request_parts_session [of P D header ck w] serve_session_does [of P D au ck c E] Session show ?thesis
      by (simp add: serve_def respond_world asked_def does_def bnd_run)
  qed
qed

lemma environment_run: "db w' = db w \<Longrightarrow> system_run P w w'"
  unfolding system_run_def by (intro r_into_rtranclp system_step.environment)

lemma effect_on_run:
  assumes "effect_on P D a w w'"
  shows "system_run P w w'"
proof -
  from assms consider "db w' = db w" | act w1 where "db w1 = db w" "db w' = db (system_op P D act w1)"
    by (auto simp: effect_on_def)
  then show ?thesis
  proof cases
    case 1
    then show ?thesis by (rule environment_run)
  next
    case 2
    from environment_run [OF 2(1)] performs_run environment_run [OF 2(2)] show ?thesis
      unfolding system_run_def by (meson rtranclp_trans)
  qed
qed

text \<open>C38: The HTTP surface refines the state machine of the service: serving a request is a run of it, in which
the database is changed by at most one action, the one the route stands for, with the payload of the
request, and for a route with a session in the name of the user of that session and nobody else; the routes
that only read change nothing in the database.\<close>

theorem serve_refines_system:
  "system_run P w (snd (serve E P D header ck call w)) \<and>
   (db (snd (serve E P D header ck call w)) = db w \<or>
    (\<exists>act w1. asked P D header ck call w = Some act \<and> db w1 = db w \<and>
       db (snd (serve E P D header ck call w)) = db (system_op P D act w1)))"
  using serve_does [of P D header ck call w E] effect_on_run [OF serve_does] by (simp add: effect_on_def)

section \<open>Invalid payloads\<close>

fun invalid_session :: "session_call \<Rightarrow> bool" where
  "invalid_session (ChangePinCall req) = (validate_change_pin req \<noteq> [])"
| "invalid_session (ResetPinCall req) = (validate_reset_pin req \<noteq> [])"
| "invalid_session (CreateTransferCall req) = (validate_create_transfer req \<noteq> [])"
| "invalid_session (CreateRequestCall req) = (validate_create_request req \<noteq> [])"
| "invalid_session (AcceptCall i req) = (validate_accept_request req \<noteq> [])"
| "invalid_session (CreateLinkCall req) = (validate_create_link req \<noteq> [])"
| "invalid_session (ClaimLinkCall token req) = (validate_claim_link req \<noteq> [])"
| "invalid_session (ParseCall text) = (validate_parse_request text \<noteq> [])"
| "invalid_session _ = False"

fun invalid_call :: "http_call \<Rightarrow> bool" where
  "invalid_call (Public (RegisterCall req)) = (validate_register req \<noteq> [])"
| "invalid_call (Public (LoginCall req)) = (validate_login req \<noteq> [])"
| "invalid_call (Public _) = False"
| "invalid_call (Session c) = invalid_session c"

text \<open>Tables, statements, mails and messages are as they were; the rate limiter may have counted.\<close>

definition quiet :: "'r world \<Rightarrow> 'r world \<Rightarrow> bool" where
  "quiet w w' \<longleftrightarrow> db w' = db w \<and> fates w' = fates w \<and> outbox w' = outbox w \<and> bus w' = bus w"

definition refusal :: "app_error \<Rightarrow> bool" where
  "refusal e \<longleftrightarrow> status_code e \<in> {400, 429}"

definition refuses_all :: "('r, 'a) service \<Rightarrow> bool" where
  "refuses_all m \<longleftrightarrow> (\<forall>w. quiet w (snd (m w)) \<and> (\<exists>e. fst (m w) = Inl e \<and> refusal e))"

lemma refuses_checked:
  "f \<noteq> [] \<Longrightarrow> refuses_all (thn (checked_fields s f) m)"
  "f \<noteq> [] \<Longrightarrow> refuses_all (thn (checked_text E f) m)"
  "refuses_all (thn (guard False (Validation s f)) m)"
  "refuses_all (thn (guard False (BadRequest s)) m)"
  by (simp_all add: refuses_all_def checked_fields_def checked_text_def thn_run guard_run quiet_def refusal_def)

lemma refuses_allE:
  assumes "refuses_all m"
  obtains e w1 where "m w = (Inl e, w1)" "quiet w w1" "refusal e"
proof -
  from assms have q: "quiet w (snd (m w))" and e: "\<exists>e. fst (m w) = Inl e \<and> refusal e"
    unfolding refuses_all_def by blast+
  from e obtain e where "fst (m w) = Inl e" "refusal e" by blast
  with q show thesis by (intro that [of e "snd (m w)"]) (simp_all add: prod_eq_iff)
qed

lemma refuses_bnd: "refuses_all m \<Longrightarrow> refuses_all (bnd m k)"
proof -
  assume m: "refuses_all m"
  have "quiet w (snd (bnd m k w)) \<and> (\<exists>e. fst (bnd m k w) = Inl e \<and> refusal e)" for w
  proof -
    obtain e w1 where "m w = (Inl e, w1)" "quiet w w1" "refusal e"
      using m by (rule refuses_allE)
    then show ?thesis by (simp add: bnd_run)
  qed
  then show ?thesis by (simp add: refuses_all_def)
qed

lemma refuses_json: "refuses_all m \<Longrightarrow> refuses_all (json b m)" "refuses_all n \<Longrightarrow> refuses_all (json_status c n)"
  unfolding json_def json_status_def by (rule refuses_bnd, assumption)+

lemma rate_limit_quiet:
  assumes "enforce_rate_limit P D sc i n s w = (r, w1)"
  shows "quiet w w1" and "r = Inl e \<Longrightarrow> refusal e"
  using assms
  by (auto simp: enforce_rate_limit_def check_sliding_window_rate_limit_def Let_def monad_simps redis_run quiet_def
      refusal_def split: option.splits if_splits)

lemma refuses_limited:
  assumes "refuses_all m"
  shows "refuses_all (thn (enforce_rate_limit P D sc i n s) m)"
  unfolding refuses_all_def
proof
  fix w
  obtain r w1 where g: "enforce_rate_limit P D sc i n s w = (r, w1)" by fastforce
  note q = rate_limit_quiet [OF g]
  have m: "quiet w1 (snd (m w1))" "\<exists>e. fst (m w1) = Inl e \<and> refusal e" using assms by (simp_all add: refuses_all_def)
  show "quiet w (snd (thn (enforce_rate_limit P D sc i n s) m w)) \<and>
      (\<exists>e. fst (thn (enforce_rate_limit P D sc i n s) m w) = Inl e \<and> refusal e)"
  proof (cases r)
    case (Inl e)
    with q g show ?thesis by (simp add: thn_run)
  next
    case (Inr x)
    with q(1) m g show ?thesis by (simp add: thn_run) (simp add: quiet_def)
  qed
qed

lemmas checking_handlers = register_handler_def login_handler_def change_pin_handler_def reset_pin_handler_def
  create_transfer_handler_def create_request_handler_def accept_request_handler_def create_link_handler_def
  claim_link_handler_def parse_ai_intent_handler_def

lemma serve_session_refuses: "invalid_session c \<Longrightarrow> refuses_all (serve_session E P D au ck c)"
  by (cases c) (auto simp: checking_handlers intro!: refuses_json refuses_limited refuses_checked)

lemma serve_public_refuses: "invalid_call (Public c) \<Longrightarrow> refuses_all (serve_public E P D c)"
  by (cases c) (auto simp: checking_handlers intro!: refuses_json refuses_bnd refuses_checked)

text \<open>C39: A request whose payload fails the validation declared for its route is refused before any service
runs: it is answered 400 (401 or 503 without a session, 429 over the rate limit), no statement is sent to
the database, and no mail and no message goes out.\<close>

theorem invalid_payload_refused:
  assumes "invalid_call call"
  shows "quiet w (snd (serve E P D header ck call w)) \<and>
    status (fst (serve E P D header ck call w)) \<in> {400, 401, 429, 503}"
proof -
  have r: "quiet w (snd (respond E P D m w)) \<and> status (fst (respond E P D m w)) \<in> {400, 401, 429, 503}"
    if all: "refuses_all m" for m
  proof -
    obtain e w1 where "m w = (Inl e, w1)" "quiet w w1" "refusal e"
      using all by (rule refuses_allE)
    then show ?thesis by (auto simp: respond_def into_response_def reply_of_def refusal_def)
  qed
  show ?thesis
  proof (cases call)
    case (Public c)
    with r [OF serve_public_refuses] assms show ?thesis by (simp add: serve_def)
  next
    case (Session c)
    show ?thesis
    proof (cases "session_user P D header ck w")
      case None
      with from_request_parts_session [of P D header ck w] Session show ?thesis
        by (auto simp: serve_def respond_def bnd_run into_response_def reply_of_def quiet_def)
    next
      case (Some au)
      have "serve E P D header ck call w = respond E P D (serve_session E P D au ck c) w"
        using Some from_request_parts_session [of P D header ck w] Session
        by (simp add: serve_def respond_def bnd_run)
      with r [OF serve_session_refuses] assms Session show ?thesis by simp
    qed
  qed
qed

theorem invalid_payload_refused_witness:
  "quiet sample_world (snd (serve sample_externals sample_platform (sample_draws 1000 2) None []
     (Public (LoginCall \<lparr>lg_phone = ''1'', lg_password = []\<rparr>)) sample_world))"
proof -
  have "invalid_call (Public (LoginCall \<lparr>lg_phone = ''1'', lg_password = []\<rparr>))" by code_simp
  from invalid_payload_refused [OF this] show ?thesis by blast
qed

end
