(* ===== verification/Startup.thy ===== *)
theory Startup
  imports Routes
begin

text \<open>
  Start-up (\<open>main.rs\<close>, \<open>core/state.rs\<close>), the application with its layers (\<open>build_app\<close> of \<open>lib.rs\<close>) and the
  command line of the reconciliation job (\<open>bin/reconcile.rs\<close>).  The clients of PostgreSQL, Redis and NATS, the socket and the
  migrations are a parameter, the record \<open>infrastructure\<close>; the connection functions are given the number of
  the attempt.  A panic is the outcome \<open>None\<close>.
\<close>

section \<open>The connection loops\<close>

definition RETRY_DELAY_MS :: int where "RETRY_DELAY_MS = 800"
definition CONNECT_ATTEMPTS :: nat where "CONNECT_ATTEMPTS = 15"

text \<open>
  \<open>for attempt in 1..=15 { match connect().await { .. } }\<close> and the \<open>unwrap\<close> behind the loop: the milliseconds
  slept, and the connection or the error that is returned; \<open>None\<close> is the \<open>unwrap\<close> of a missing connection.
\<close>

fun connect_loop :: "(nat \<Rightarrow> 'e + 'a) \<Rightarrow> nat list \<Rightarrow> (int \<times> ('e + 'a)) option" where
  "connect_loop connect [] = None"
| "connect_loop connect (attempt # later) = (case connect attempt of
     Inr c \<Rightarrow> Some (0, Inr c)
   | Inl e \<Rightarrow> if attempt = CONNECT_ATTEMPTS then Some (0, Inl e)
       else map_option (\<lambda>(ms, r). (RETRY_DELAY_MS + ms, r)) (connect_loop connect later))"

definition connect_with_retry :: "(nat \<Rightarrow> 'e + 'a) \<Rightarrow> (int \<times> ('e + 'a)) option" where
  "connect_with_retry connect = connect_loop connect [1..<Suc CONNECT_ATTEMPTS]"

section \<open>The application state\<close>

record ('p, 'c, 'n, 'm) app_state =
  as_db :: 'p
  as_redis :: 'c
  as_nats :: "'n option"
  as_mailer :: mailer
  as_metrics_handle :: 'm
  as_config :: app_config
  as_server_started_at :: int

definition app_state_new ::
  "'r platform \<Rightarrow> int \<Rightarrow> 'p \<Rightarrow> 'c \<Rightarrow> 'n option \<Rightarrow> 'm \<Rightarrow> ('p, 'c, 'n, 'm) app_state" where
  "app_state_new P now db_pool conn nats metrics =
     \<lparr>as_db = db_pool, as_redis = conn, as_nats = nats, as_mailer = mailer_new P, as_metrics_handle = metrics,
      as_config = config P, as_server_started_at = now\<rparr>"

section \<open>The delivery of a mail\<close>

text \<open>
  \<open>send_email\<close> (\<open>core/mail.rs\<close>), the task that \<open>dispatch_email\<close> spawns: lettre's parser of mailboxes, its
  message builder and the SMTP transport are a parameter; the outcomes are what is logged.
\<close>

record 'b smtp_ops =
  mailbox_ok :: "str \<Rightarrow> bool"
  builds :: "str \<Rightarrow> str \<Rightarrow> str \<Rightarrow> 'b \<Rightarrow> bool"
  delivers :: "str \<Rightarrow> str \<Rightarrow> str \<Rightarrow> 'b \<Rightarrow> bool"

datatype mail_outcome = NotEnabled | NotBuilt | NotDelivered | Delivered

definition mailbox_or :: "'b smtp_ops \<Rightarrow> str \<Rightarrow> str \<Rightarrow> str" where
  "mailbox_or S address fallback = (if mailbox_ok S address then address else fallback)"

definition send_email :: "'b smtp_ops \<Rightarrow> mailer \<Rightarrow> str \<Rightarrow> str \<Rightarrow> 'b \<Rightarrow> mail_outcome" where
  "send_email S m addr subject body =
     (case (transport m, from_email m) of
        (True, Some from_addr) \<Rightarrow>
          (let from' = mailbox_or S from_addr ''no-reply@pstupay.local'';
               to' = mailbox_or S addr ''user@pstupay.local'' in
           if \<not> builds S from' to' subject body then NotBuilt
           else if delivers S from' to' subject body then Delivered else NotDelivered)
      | _ \<Rightarrow> NotEnabled)"

lemma send_email_enabled: "send_email S m addr subject body = NotEnabled \<longleftrightarrow> \<not> is_enabled m"
  by (auto simp: send_email_def is_enabled_def Let_def split: option.splits bool.splits)

section \<open>Cross-origin requests\<close>

text \<open>
  \<open>HeaderValue::from_str\<close> takes visible ASCII and tabs.  \<open>AllowOrigin::list\<close> panics on the origin \<open>*\<close>.
\<close>

datatype allow_origin = MirrorRequest | OriginList "str list"

definition header_value_ok :: "str \<Rightarrow> bool" where
  "header_value_ok s = list_all (\<lambda>c. c = CHR 9 \<or> 32 \<le> (of_char c :: nat) \<and> (of_char c :: nat) < 127) s"

text \<open>\<open>str::split(',')\<close>: the pieces between the separators, one more than there are separators.\<close>

fun split_at :: "char \<Rightarrow> str \<Rightarrow> str list" where
  "split_at sep [] = [[]]"
| "split_at sep (c # s) = (if c = sep then [] # split_at sep s
     else case split_at sep s of [] \<Rightarrow> [[c]] | p # ps \<Rightarrow> (c # p) # ps)"

definition cors_origins :: "str \<Rightarrow> str list" where
  "cors_origins cfg = filter (\<lambda>s. s \<noteq> [] \<and> header_value_ok s) (map trim (split_at (CHR '','') cfg))"

text \<open>\<open>CorsLayer::new()\<close> with what both branches configure alike; the lists are of methods and header names.\<close>

record cors_layer =
  co_origin :: allow_origin
  co_credentials :: bool
  co_methods :: "str list"
  co_headers :: "str list"
  co_exposed :: "str list"

definition cors_layer_for :: "allow_origin \<Rightarrow> cors_layer" where
  "cors_layer_for origin =
     \<lparr>co_origin = origin, co_credentials = True,
      co_methods = [''GET'', ''POST'', ''PUT'', ''DELETE'', ''PATCH'', ''OPTIONS'', ''HEAD''],
      co_headers = [''authorization'', ''content-type'', ''accept'', ''origin'', ''cookie'', ''x-request-id'',
        ''x-csrf'', ''x-idempotent-replay''],
      co_exposed = [''x-request-id'', ''x-idempotent-replay'', ''content-disposition'']\<rparr>"

definition build_cors :: "app_config \<Rightarrow> cors_layer option" where
  "build_cors cfg =
     (let cors_cfg = trim (cors_allowed_origins cfg) in
      if cors_cfg = ''*'' \<or> cors_cfg = [] then Some (cors_layer_for MirrorRequest)
      else if ''*'' \<in> set (cors_origins cors_cfg) then None
      else Some (cors_layer_for (OriginList (cors_origins cors_cfg))))"

definition origin_allowed :: "allow_origin \<Rightarrow> str \<Rightarrow> bool" where
  "origin_allowed a origin = (case a of MirrorRequest \<Rightarrow> True | OriginList os \<Rightarrow> origin \<in> set os)"

text \<open>Who may send requests with the cookies of a user: everybody, or the listed origins.\<close>

lemma credentials_granted:
  assumes "build_cors cfg = Some cors"
  shows "co_credentials cors \<and> (origin_allowed (co_origin cors) origin \<longleftrightarrow>
    trim (cors_allowed_origins cfg) \<in> {[], ''*''} \<or> origin \<in> set (cors_origins (trim (cors_allowed_origins cfg))))"
  using assms
  by (auto simp: build_cors_def cors_layer_for_def origin_allowed_def Let_def split: if_splits)

section \<open>The application\<close>

text \<open>The routes and the layers around them, the innermost first; what a layer does is axum's and tower's part.\<close>

datatype layer =
    DefaultBodyLimit int
  | CookieManagerLayer
  | Cors cors_layer
  | PropagateRequestIdLayer str
  | SetRequestIdLayer str
  | TraceLayer
  | CatchPanicLayer

record application =
  ap_routes :: "route list"
  ap_layers :: "layer list"

definition build_app :: "app_config \<Rightarrow> application option" where
  "build_app cfg = map_option (\<lambda>cors.
     \<lparr>ap_routes = app_routes,
      ap_layers = [DefaultBodyLimit (max_body_size_bytes cfg), CookieManagerLayer, Cors cors,
        PropagateRequestIdLayer ''x-request-id'', SetRequestIdLayer ''x-request-id'', TraceLayer, CatchPanicLayer]\<rparr>)
     (build_cors cfg)"

section \<open>Start-up\<close>

record ('m, 'p, 'k, 'c, 'n, 'a, 'l) infrastructure =
  install_recorder :: "str + 'm"
  connect_db :: "str \<Rightarrow> nat \<Rightarrow> str + 'p"
  run_migrations :: "'p \<Rightarrow> str + unit"
  open_redis :: "str \<Rightarrow> str + 'k"
  connect_redis :: "'k \<Rightarrow> nat \<Rightarrow> str + 'c"
  connect_nats :: "str \<Rightarrow> str + 'n"
  parse_addr :: "str \<Rightarrow> str + 'a"
  bind_addr :: "'a \<Rightarrow> str + 'l"

text \<open>The steps of \<open>main\<close> up to the listener: \<open>Inl\<close> is a returned error, \<open>None\<close> a panic.\<close>

definition or_fail :: "str + 'a \<Rightarrow> ('a \<Rightarrow> (str + 'b) option) \<Rightarrow> (str + 'b) option" where
  "or_fail r k = (case r of Inl e \<Rightarrow> Some (Inl e) | Inr x \<Rightarrow> k x)"

definition retried :: "(nat \<Rightarrow> str + 'a) \<Rightarrow> ('a \<Rightarrow> (str + 'b) option) \<Rightarrow> (str + 'b) option" where
  "retried connect k = Option.bind (connect_with_retry connect) (\<lambda>(ms, r). or_fail r k)"

definition init_telemetry :: "('m, 'p, 'k, 'c, 'n, 'a, 'l) infrastructure \<Rightarrow> 'm option" where
  "init_telemetry I = (case install_recorder I of Inr handle \<Rightarrow> Some handle | Inl e \<Rightarrow> None)"

definition start_up ::
  "('m, 'p, 'k, 'c, 'n, 'a, 'l) infrastructure \<Rightarrow> (app_config \<Rightarrow> 'r platform) \<Rightarrow> (str \<Rightarrow> str) \<Rightarrow> (str \<Rightarrow> str option) \<Rightarrow>
     int \<Rightarrow> (str + 'l \<times> application \<times> ('p, 'c, 'n, 'm) app_state) option" where
  "start_up I platform_of bad_port env now =
     Option.bind (init_telemetry I) (\<lambda>metrics.
     or_fail (map_err (\<lambda>e. ''Configuration initialization failed: '' @ e) (load_from_env bad_port env)) (\<lambda>cfg.
     retried (connect_db I (database_url cfg)) (\<lambda>db_pool.
     or_fail (run_migrations I db_pool) (\<lambda>_.
     or_fail (open_redis I (redis_url cfg)) (\<lambda>redis_client.
     retried (connect_redis I redis_client) (\<lambda>redis_conn.
     let nats_client = (case connect_nats I (nats_url cfg) of Inr client \<Rightarrow> Some client | Inl err \<Rightarrow> None);
         state = app_state_new (platform_of cfg) now db_pool redis_conn nats_client metrics in
     Option.bind (build_app cfg) (\<lambda>app.
     or_fail (parse_addr I (host cfg @ '':'' @ show_int (port cfg))) (\<lambda>addr.
     or_fail (bind_addr I addr) (\<lambda>listener. Some (Inr (listener, app, state)))))))))))"

text \<open>
  \<open>shutdown_signal\<close>: the server stops at the first of the two signals.  A signal is the error of installing its
  handler or the time of its arrival, if it arrives; the result is \<open>None\<close> for the panic of an \<open>expect\<close>.
\<close>

definition shutdown_signal :: "str + int option \<Rightarrow> str + int option \<Rightarrow> int option option" where
  "shutdown_signal ctrl_c terminate = (case (ctrl_c, terminate) of
     (Inr (Some s), Inr (Some t)) \<Rightarrow> Some (Some (min s t))
   | (Inr s, Inr t) \<Rightarrow> Some (or_else s t)
   | _ \<Rightarrow> None)"

section \<open>The command line of the reconciliation job\<close>

record run_output =
  ro_stdout :: "str list"
  ro_stderr :: "str list"
  ro_exit :: int

definition summary_lines :: "reconcile_report \<Rightarrow> str list" where
  "summary_lines report =
     [[CHR 10] @ ''--- Audit Summary ---'',
      ''  Total Users Registered:      '' @ show_int (rp_users_count report),
      ''  Users Reconciled (Contract 1): '' @ show_int (rp_users_reconciled report),
      ''  Ledger Entries Verified:     '' @ show_int (rp_ledger_entries_verified report),
      ''  Total System Balance:        '' @ show_int (rp_total_system_balance_paisa report) @ '' paisa'',
      ''  Expected System Balance:     '' @ show_int (rp_expected_system_balance_paisa report) @ '' paisa'']"

definition error_lines :: "str list \<Rightarrow> str list" where
  "error_lines errors = map (\<lambda>(idx, err). ''  ['' @ show_int (int idx + 1) @ ''] '' @ err) (enumerate 0 errors)"

definition reconcile_main :: "(app_error \<Rightarrow> str) \<Rightarrow> app_error + reconcile_report \<Rightarrow> run_output" where
  "reconcile_main display result = (case result of
     Inr report \<Rightarrow>
       if rp_errors report = []
       then \<lparr>ro_stdout = summary_lines report @
               [[CHR 10] @ ''>>> RECONCILE OK: All 3 Double-Entry Invariants Satisfied! <<<'' @ [CHR 10]],
             ro_stderr = [], ro_exit = 0\<rparr>
       else \<lparr>ro_stdout = summary_lines report,
             ro_stderr = ([CHR 10] @ ''>>> RECONCILE FAILED: Found '' @ show_int (int (length (rp_errors report))) @
               '' Invariant Violations! <<<'') # error_lines (rp_errors report), ro_exit = 1\<rparr>
   | Inl e \<Rightarrow> \<lparr>ro_stdout = [], ro_stderr = [''Reconciliation error: '' @ display e], ro_exit = 1\<rparr>)"

text \<open>
  The job as a whole: the banner (its dash is three bytes of UTF-8), the connection loop, which prints while it
  waits, and the audit.  A pool is the world it gives access to.  A panic of the main thread writes its message
  to the standard error and exits with 101; \<open>debug\<close> is the \<open>Debug\<close> text of an error.
\<close>

definition panicked :: "str list \<Rightarrow> str \<Rightarrow> run_output" where
  "panicked out message = \<lparr>ro_stdout = out, ro_stderr = [message], ro_exit = 101\<rparr>"

definition banner :: "str \<Rightarrow> str list" where
  "banner url =
     [replicate 60 (CHR ''=''),
      ''  PSTU MONEY MOVEMENT ENGINE '' @ [CHR 226, CHR 128, CHR 148] @ '' RECONCILIATION AUDIT (T30)'',
      replicate 60 (CHR ''=''),
      ''Connecting to database: '' @ url]"

fun job_connect :: "(nat \<Rightarrow> str + 'p) \<Rightarrow> nat list \<Rightarrow> str list \<times> (str + 'p) option" where
  "job_connect connect [] = ([], None)"
| "job_connect connect (attempt # later) = (case connect attempt of
     Inr p \<Rightarrow> ([], Some (Inr p))
   | Inl e \<Rightarrow> if attempt = CONNECT_ATTEMPTS then ([], Some (Inl e))
       else (case job_connect connect later of (lines, r) \<Rightarrow>
         ((''Waiting for PostgreSQL to become ready (attempt '' @ show_int (int attempt) @ ''/15)...'') # lines, r)))"

definition reconcile_job ::
  "'r platform \<Rightarrow> (db_error \<Rightarrow> str) \<Rightarrow> (str \<Rightarrow> str) \<Rightarrow> (str \<Rightarrow> str) \<Rightarrow> (str \<Rightarrow> str option) \<Rightarrow>
     (str \<Rightarrow> nat \<Rightarrow> str + 'r world) \<Rightarrow> run_output" where
  "reconcile_job P show_db debug bad_port env connect = (case load_from_env bad_port env of
     Inl e \<Rightarrow> panicked [] (''failed to load configuration: '' @ debug e)
   | Inr cfg \<Rightarrow> (case job_connect (connect (database_url cfg)) [1..<Suc CONNECT_ATTEMPTS] of
       (lines, None) \<Rightarrow> panicked (banner (database_url cfg) @ lines) ''called `Option::unwrap()` on a `None` value''
     | (lines, Some (Inl e)) \<Rightarrow> panicked (banner (database_url cfg) @ lines)
         (''failed to connect to PostgreSQL database: '' @ e)
     | (lines, Some (Inr pool_world)) \<Rightarrow>
         (let out = reconcile_main (to_string show_db) (fst (run_reconciliation P pool_world)) in
          out\<lparr>ro_stdout := banner (database_url cfg) @ lines @
            [''Running 3-contract verification audit on live ledger...''] @ ro_stdout out\<rparr>)))"

section \<open>Properties\<close>

definition succeeds :: "'e + 'a \<Rightarrow> bool" where
  "succeeds r = (case r of Inl e \<Rightarrow> False | Inr x \<Rightarrow> True)"

lemma connect_loop_result:
  assumes "n \<le> CONNECT_ATTEMPTS"
  shows "connect_loop f [CONNECT_ATTEMPTS - n..<Suc CONNECT_ATTEMPTS] =
    (case find (\<lambda>a. succeeds (f a)) [CONNECT_ATTEMPTS - n..<Suc CONNECT_ATTEMPTS] of
       Some a \<Rightarrow> Some (RETRY_DELAY_MS * int (a - (CONNECT_ATTEMPTS - n)), f a)
     | None \<Rightarrow> Some (RETRY_DELAY_MS * int n, f CONNECT_ATTEMPTS))"
  using assms
proof (induction n)
  case 0
  then show ?case by (simp add: succeeds_def split: sum.split)
next
  case (Suc n)
  let ?a = "CONNECT_ATTEMPTS - Suc n"
  have l: "[?a..<Suc CONNECT_ATTEMPTS] = ?a # [CONNECT_ATTEMPTS - n..<Suc CONNECT_ATTEMPTS]" "?a \<noteq> CONNECT_ATTEMPTS"
    using Suc.prems by (simp_all add: upt_conv_Cons Suc_diff_Suc)
  have IH: "connect_loop f [CONNECT_ATTEMPTS - n..<Suc CONNECT_ATTEMPTS] =
    (case find (\<lambda>a. succeeds (f a)) [CONNECT_ATTEMPTS - n..<Suc CONNECT_ATTEMPTS] of
       Some a \<Rightarrow> Some (RETRY_DELAY_MS * int (a - (CONNECT_ATTEMPTS - n)), f a)
     | None \<Rightarrow> Some (RETRY_DELAY_MS * int n, f CONNECT_ATTEMPTS))"
    using Suc by simp
  show ?case
  proof (cases "f ?a")
    case (Inr c)
    with l show ?thesis by (simp add: succeeds_def)
  next
    case (Inl e)
    have "RETRY_DELAY_MS + RETRY_DELAY_MS * int (a - (CONNECT_ATTEMPTS - n)) = RETRY_DELAY_MS * int (a - ?a)"
      if "find (\<lambda>a. succeeds (f a)) [CONNECT_ATTEMPTS - n..<Suc CONNECT_ATTEMPTS] = Some a" for a
    proof -
      have "CONNECT_ATTEMPTS - n \<le> a" using find_Some_in [OF that] by (simp del: upt_Suc)
      with Suc.prems have "int (a - ?a) = 1 + int (a - (CONNECT_ATTEMPTS - n))" by linarith
      then show ?thesis by (simp only: distrib_left mult_1_right)
    qed
    moreover have "RETRY_DELAY_MS + RETRY_DELAY_MS * int n = RETRY_DELAY_MS * int (Suc n)" by (simp add: algebra_simps)
    moreover have "\<not> succeeds (f ?a)" using Inl by (simp add: succeeds_def)
    ultimately show ?thesis
      unfolding l(1) connect_loop.simps Inl find.simps IH using l(2)
      by (simp only: sum.case if_False option.case_eq_if option.map prod.case split: option.split) simp
  qed
qed

lemma connect_with_retry_result:
  "connect_with_retry f = (case find (\<lambda>a. succeeds (f a)) [1..<16] of
     Some a \<Rightarrow> Some (800 * int (a - 1), f a) | None \<Rightarrow> Some (800 * 14, f 15))"
  using connect_loop_result [of 14 f]
  by (simp add: connect_with_retry_def CONNECT_ATTEMPTS_def RETRY_DELAY_MS_def split: option.splits)

lemma or_fail_returns: "(\<And>x. r = Inr x \<Longrightarrow> \<exists>y. k x = Some y) \<Longrightarrow> \<exists>y. or_fail r k = Some y"
  by (cases r) (simp_all add: or_fail_def)

lemma retried_returns: "(\<And>x. \<exists>y. k x = Some y) \<Longrightarrow> \<exists>y. retried f k = Some y"
proof -
  assume k: "\<And>x. \<exists>y. k x = Some y"
  obtain x where x: "connect_with_retry f = Some x"
    by (cases "connect_with_retry f") (simp_all add: connect_with_retry_result split: option.splits)
  then obtain ms r where "connect_with_retry f = Some (ms, r)" by (cases x) simp
  with or_fail_returns [OF k] show ?thesis by (simp add: retried_def)
qed

lemma build_cors_panics: "build_cors cfg = None \<Longrightarrow> ''*'' \<in> set (cors_origins (trim (cors_allowed_origins cfg)))"
  by (simp add: build_cors_def Let_def split: if_splits)

lemma start_up_returns:
  assumes "\<And>cfg. load_from_env bad_port env = Inr cfg \<Longrightarrow> \<exists>cors. build_cors cfg = Some cors"
    "init_telemetry I = Some metrics"
  shows "\<exists>r. start_up I platform_of bad_port env now = Some r"
  unfolding start_up_def Let_def assms(2) Option.bind.simps
proof (intro or_fail_returns retried_returns)
  fix cfg db_pool m cl conn
  assume "map_err (\<lambda>e. ''Configuration initialization failed: '' @ e) (load_from_env bad_port env) = Inr cfg"
  then obtain cors where "build_cors cfg = Some cors" using assms by auto
  then show "\<exists>r. Option.bind (build_app cfg) (\<lambda>app.
      or_fail (parse_addr I (host cfg @ '':'' @ show_int (port cfg))) (\<lambda>addr.
      or_fail (bind_addr I addr) (\<lambda>listener. Some (Inr (listener, app, app_state_new (platform_of cfg) now db_pool
        conn (case connect_nats I (nats_url cfg) of Inl err \<Rightarrow> None | Inr client \<Rightarrow> Some client) metrics))))) = Some r"
    by (auto simp: build_app_def intro!: or_fail_returns)
qed

text \<open>C40: Start-up always ends: a connection loop makes at most fifteen attempts, ends with the first that
succeeds or with the error of the fifteenth, after eight hundred milliseconds for each failure before the
last, and its unwrap never panics; the whole start-up returns, with the server ready to listen or an error,
unless the metrics recorder cannot be installed or the list of CORS origins contains a bare asterisk, on both
of which it panics.\<close>

theorem start_up_terminates:
  "connect_with_retry f = (case find (\<lambda>a. succeeds (f a)) [1..<16] of
     Some a \<Rightarrow> Some (800 * int (a - 1), f a) | None \<Rightarrow> Some (800 * 14, f 15)) \<and>
   ((\<exists>r. start_up I platform_of bad_port env now = Some r) \<or> init_telemetry I = None \<or>
    (\<exists>cfg. load_from_env bad_port env = Inr cfg \<and> ''*'' \<in> set (cors_origins (trim (cors_allowed_origins cfg)))))"
  using connect_with_retry_result start_up_returns build_cors_panics by (metis not_None_eq)

text \<open>The exit status of the reconciliation job tells a clean ledger, and nothing else, with zero.\<close>

lemma reconcile_exit:
  "ro_exit (reconcile_main display result) = 0 \<longleftrightarrow> (\<exists>report. result = Inr report \<and> rp_errors report = [])"
  "ro_stderr (reconcile_main display result) = [] \<longleftrightarrow> ro_exit (reconcile_main display result) = 0"
  by (auto simp: reconcile_main_def split: sum.split)

text \<open>The job connects as the server does, and its loop ends with a connection or an error.\<close>

lemma job_connect_loop: "snd (job_connect f ns) = map_option snd (connect_loop f ns)"
  by (induction ns) (auto simp: option.map_comp comp_def case_prod_unfold split: sum.split prod.split)

lemma job_connects:
  "\<exists>a. 1 \<le> a \<and> a \<le> 15 \<and> snd (job_connect f [1..<Suc CONNECT_ATTEMPTS]) = Some (f a)"
proof -
  note l = connect_with_retry_result [of f, unfolded connect_with_retry_def]
  show ?thesis
  proof (cases "find (\<lambda>a. succeeds (f a)) [1..<16]")
    case None
    with l show ?thesis by (intro exI [of _ 15]) (simp only: job_connect_loop, simp)
  next
    case (Some a)
    with l show ?thesis by (intro exI [of _ a]) (simp only: job_connect_loop, auto dest!: find_Some_in)
  qed
qed

text \<open>
  An exit status of zero certifies the ledger: the job has found the database within fifteen attempts, and the
  three contracts hold of it.
\<close>

lemma job_certifies:
  assumes "ro_exit (reconcile_job P show_db debug bad_port env connect) = 0"
  obtains cfg a w where "load_from_env bad_port env = Inr cfg" "1 \<le> a" "a \<le> 15" "connect (database_url cfg) a = Inr w"
    "\<forall>l \<in> set (ledger (db w)). row_ok l \<Longrightarrow> in_i64 (SEED_BALANCE_PAISA * int (length (users (db w)))) \<Longrightarrow>
       total_balance (db w) = SEED_BALANCE_PAISA * int (length (users (db w))) \<and>
       (\<forall>u \<in> set (users (db w)). contracts_hold (db w) u)"
proof -
  obtain cfg where cfg: "load_from_env bad_port env = Inr cfg"
    using assms by (cases "load_from_env bad_port env") (auto simp: reconcile_job_def panicked_def)
  obtain a lines where a: "1 \<le> a" "a \<le> 15"
    and c: "job_connect (connect (database_url cfg)) [1..<Suc CONNECT_ATTEMPTS] = (lines, Some (connect (database_url cfg) a))"
    using job_connects [of "connect (database_url cfg)"] by (metis prod.collapse)
  with assms cfg obtain w where w: "connect (database_url cfg) a = Inr w"
    by (cases "connect (database_url cfg) a") (auto simp: reconcile_job_def panicked_def)
  have "ro_exit (reconcile_main (to_string show_db) (fst (run_reconciliation P w))) = 0"
    using assms cfg c w by (simp add: reconcile_job_def Let_def)
  then obtain report w' where "run_reconciliation P w = (Inr report, w')" "rp_errors report = []"
    unfolding reconcile_exit by (metis prod.collapse)
  from that [OF cfg a w clean_report_sound [OF this]] show thesis by blast
qed

end
