(* ===== verification/Spec2Isabelle.thy ===== *)
theory Spec2Isabelle
  imports Progress Races Startup
begin

text \<open>
  \<^bold>\<open>PSTU Pay back end: a verification library.\<close>

  The program (\<open>src/src\<close>, Rust, axum, sqlx, redis) is a money-movement service.  Users register with a
  seed balance and a transaction PIN; they send transfers, ask each other for money, and put amounts behind
  payment links; every movement is booked in a double-entry ledger, a transaction history and an audit
  log; a reconciliation job recomputes the contracts of the ledger.  State lives in PostgreSQL (money,
  life cycles, log) and in Redis (sessions, failure counters, daily outflow, rate-limit windows).

  \<^bold>\<open>How the code is modelled.\<close>  A service function is a program of the result-and-state monad of
  \<open>Prelude\<close>: \<open>Inl\<close> is \<open>Err\<close>, \<open>bnd\<close> is \<open>?\<close>.  Its state, the \<open>world\<close> of \<open>Database\<close>, holds the tables of
  \<open>migrations/0001_init.sql\<close> (one record per row), the Redis store, the outbox of mails, the messages of
  the event bus, and the \<^emph>\<open>fates\<close> of the statements to come: each statement, \<open>BEGIN\<close> and \<open>COMMIT\<close>
  proceeds, is refused, or takes effect although its acknowledgement is lost.  A theorem over all worlds
  therefore holds for every pattern of connection failures.  A transaction works on its own copy of the
  database, which replaces the shared one at \<open>COMMIT\<close> and is dropped on an early return.

  There are two models of the whole.  In \<open>System\<close> the requests are served one after the other.  In \<open>Threads\<close>
  every service that changes the state is cut at its awaits (one step per statement of the pool, per
  transaction, per Redis command, per message), and in \<open>Concurrency\<close> the server interleaves any number of
  such handlers in flight; a handler whose client has gone is one that is never resumed.  A transaction is one
  step: the row locks of the code (\<open>FOR UPDATE\<close> in ascending order) serialise the transactions that touch the
  same rows, and this serialisation is assumed, not proved.  What a request draws from its
  environment (clock readings, UUIDs, random bytes, salts) is the record \<open>draws\<close>; Redis, Argon2, UUID
  syntax, the calendar, SMTP and NATS are fields of the record \<open>platform\<close>, arguments of the definitions.
  \<open>i64\<close> is \<open>int\<close> with the wrap-around and the checked operations written out; strings are lists of the
  characters U+0000..U+00FF, except for the parser of amounts, which is modelled over all texts of Unicode;
  timestamps are microseconds.

  \<^bold>\<open>The theories\<close>, bottom up:
  \<^item> \<open>Prelude\<close>: monad, 64-bit integers, strings, identifiers; \<open>Errors\<close>: \<open>core/error.rs\<close>,
    \<open>core/envelope.rs\<close>; \<open>Unicode\<close>: texts of any characters; \<open>Money\<close>: \<open>core/money.rs\<close>, its parser proved equal
    to a direct reading of its grammar, on every text; \<open>Database\<close>: schema, statements, connections, transactions;
  \<^item> \<open>Platform\<close>: \<open>core/config.rs\<close>, \<open>core/mail.rs\<close>, \<open>core/reference.rs\<close> and the parameters; \<open>RedisModel\<close>:
    the interfaces \<open>redis_counters\<close>, \<open>redis_sessions\<close>, \<open>redis_windows\<close>, and an executable store that
    interprets them;
  \<^item> \<open>Events\<close>: \<open>features/events\<close>; \<open>RateLimit\<close>: \<open>core/ratelimit.rs\<close>; \<open>Pin\<close>: \<open>core/pin.rs\<close>; \<open>Users\<close>:
    \<open>features/users\<close>;
  \<^item> \<open>Books\<close>: the rows of a movement and the invariant \<open>books\<close>; \<open>Movement\<close>: the interface
    \<open>money_movement\<close>, under which \<open>books\<close> is proved once for every mover of money (interpreted by
    transfers, requests and links); \<open>Sample\<close>: a concrete instance for the witnesses; \<open>Paging\<close>: keyset
    pagination and its interface \<open>keyset\<close>;
  \<^item> \<open>Transfers\<close>: \<open>features/transfers\<close>; \<open>LifeCycle\<close>: the interface \<open>life_cycle\<close> of tables whose rows move
    through a state machine; \<open>Requests\<close>: \<open>features/requests\<close>; \<open>Links\<close>: \<open>features/links\<close>; \<open>Auth\<close>:
    \<open>features/auth\<close>; \<open>Reconcile\<close>: \<open>features/reconcile\<close>;
  \<^item> over \<open>Auth\<close>: \<open>Lockout\<close>, the two brute-force locks over \<open>redis_counters\<close>; \<open>Sessions\<close>, the life of a session
    over \<open>redis_sessions\<close>; \<open>Limits\<close>, the rate limiter over \<open>redis_windows\<close> and the daily outflow;
  \<^item> \<open>History\<close>: \<open>features/history\<close>, its pages by the interface \<open>keyset\<close>; \<open>Notifications\<close>:
    \<open>features/notifications\<close>; \<open>Regex\<close>: the matching order of the \<open>regex\<close> crate; \<open>Assistant\<close>: \<open>features/ai\<close>;
  \<^item> \<open>System\<close>: the whole service as a step relation with arbitrary changes of the environment between the
    requests; \<open>Scenario\<close>: a concrete run of it; \<open>Backing\<close>: what the columns of a link mean in every reachable
    state; \<open>Progress\<close>: transfers, acceptances and claims complete when nothing fails;
  \<^item> \<open>Threads\<close>: the services cut at their awaits, each proved to be the sequential one when it is not
    interrupted, answer included; \<open>Settlement\<close>: the invariant that the payments in the ledger are the accepted requests and
    the claimed links; \<open>Concurrency\<close>: the server with handlers in flight, the guarantee that each of
    their steps keeps, and \<open>schedule\<close>, which gives the handlers their turns by a list and lets nothing else happen; \<open>Races\<close>: two places where the interleaving breaks what the sequence keeps;
  \<^item> \<open>Handlers\<close>: the functions of \<open>features/*/routes.rs\<close> with the validation of \<open>features/*/dto.rs\<close>, and
    \<open>features/health\<close>; \<open>Routes\<close>: the route table, the session extractor in front of the handlers and the
    answer; \<open>Startup\<close>: \<open>main.rs\<close>, \<open>core/state.rs\<close>, \<open>build_app\<close> of \<open>lib.rs\<close> with the CORS layer and the stack of
    layers, the delivery of a mail, and the reconciliation job of \<open>bin/reconcile.rs\<close> with its output.

  \<^bold>\<open>What the lemmas show.\<close>  The invariant \<open>books\<close> (balances in range, each the end of an unbroken chain of
  running balances from zero; ledger double-entry; balances adding up to the seed money; transfers and
  history agreeing with the ledger row by row) holds in every reachable state.  Each way of moving money
  moves the authorised amount only, between the right parties, and at most once per transfer key, request
  or link, over any sequence of attempts and failures.  What is booked, and every verdict, is final.  The
  reconciliation job is exact in both directions.
  A transfer, an acceptance or a claim that is authorised, funded, within the limits and fresh does complete
  when nothing fails (\<open>Progress\<close>), and, while the requests are served one after the other, every claimed link
  names the transfer that paid it and no other link names one (\<open>Backing\<close>).

  With handlers in flight (\<open>Concurrency\<close>): each step of each handler, whatever database it meets, keeps the
  books, the uniqueness of the keys and the correspondence of debts and payments, so these hold under every
  interleaving; verdicts stay final, and a handler that has the turns by itself makes exactly the world and gives
  exactly the answer of the sequential model.
  \<open>Races\<close> proves what does not survive: the lazy expiry of a link can overwrite a claim that was paid, and
  the lock of the PIN, which counts after it compares, does not bound the guesses that are sent at once, by an
  order of the handlers' turns alone.

  Around the money, for requests one after the other: the failure counters bound the guesses of a PIN or
  password, the daily counter bounds
  what leaves an account in a day, the sliding window bounds the requests of a key in every window.  A login
  opens a session that the extractor accepts, a logout or PIN reset closes what it should.  Following the
  cursors of the history yields every matching row once, and a statement shows the user's ledger line by line and
  reproduces the balance.  The parser of amounts accepts exactly the grammar, an error has exactly its answer, and
  marking notifications changes exactly the selected ones.  The assistant takes its amount and party from the text,
  and no PIN in it has an influence on the answer.

  At the surface: serving an HTTP request is a run of the state machine of \<open>System\<close> in which the database
  changes by at most the action the route stands for, in the name of the session's user; without a session
  nothing changes, with an invalid payload no table does; one route at most matches a method and path.  Start-up
  ends, and the reconciliation job exits with zero only when the three contracts hold.

  \<^bold>\<open>Bounds.\<close>  No fuel is used by a definition of the code: the connection loops run over their list of fifteen
  attempts, and the removal of matches ends because each removal shortens the text.  \<open>walk\<close>, a client that
  follows cursors for a given number of pages, is the one bounded recursion, and the number of rows plus one
  is enough.  The daily limit, the counters and the sessions assume the Redis interfaces, that is, a Redis that
  answers: the code reads a failed command as zero failures or a total of zero, and lets the request pass.  The
  theorems about money do not assume it.

  \<^bold>\<open>Not modelled.\<close>  Log lines and the filter of the tracing subscriber (\<open>core/telemetry.rs\<close>): I/O without
  effect on the state; the installation of the metrics recorder, which can fail, is a parameter.  The decoding
  of requests by axum and serde, the loop of \<open>axum::serve\<close>, and what a layer of axum and tower does with a
  request: libraries; a call of \<open>Routes\<close> is a request already decoded, and \<open>build_app\<close> is modelled as the
  configuration it hands over.  The Bangla alternatives of the assistant's patterns, and characters
  beyond U+00FF outside the parser of amounts (the pattern of a PIN, too, admits the digits of other scripts).  Gaps in the \<open>BIGSERIAL\<close> sequences; the triggers that forbid changes of the ledger
  and of the log (no service makes any); the floating-point rendering of an amount in a mail (the part
  \<open>TakaAmount\<close>).  Interleavings of the statements inside two transactions: a refused or flagged transfer reads
  the sender's balance without a lock, so the balance in its row of the history may be that of an instant
  before.  The services that only read are not cut at their awaits.
\<close>

section \<open>The system\<close>

text \<open>C1: In every state that any sequence of requests and any pattern of failures can reach, the books
are in order: every balance lies between 0 and the 64-bit maximum and ends an unbroken chain of running
balances from zero, the ledger is double-entry, the balances add up to the seed money of all users, and the
completed transfers and the completed history agree with the ledger row by row.\<close>

theorem system_books:
  assumes "reachable P w"
  shows "books (db w) \<and> (\<forall>b \<in> set (balances (db w)). 0 \<le> b_amount_paisa b \<and> b_amount_paisa b \<le> i64_max)"
  using reachable_ok [OF assms]
  by (auto simp: system_ok_def books_def accounts_ok_def account_ok_def)

theorem system_books_witness:
  "books (db first_user_world)"
  using system_books [OF first_user_reachable] by simp

text \<open>C9: The reconciliation job never reports an error in a reachable state, as long as its own
connection does not fail and the seed money of all users fits in 64 bits.\<close>

theorem system_reconciles:
  assumes "reachable P w" "fates w = []"
    "SEED_BALANCE_PAISA * int (length (users (db w))) \<le> i64_max"
  shows "\<exists>report. run_reconciliation P' w = (Inr report, w) \<and> rp_errors report = []"
proof -
  have "books (db w)" using reachable_ok [OF assms(1)] by (simp add: system_ok_def)
  from run_reconciliation_books [OF this assms(2,3)] show ?thesis by blast
qed

theorem system_reconciles_witness:
  "\<exists>report. run_reconciliation sample_platform first_user_world = (Inr report, first_user_world) \<and>
     rp_errors report = []"
proof (rule system_reconciles [OF first_user_reachable first_user_fates])
  have "length (users (db first_user_world)) = 1"
    using arg_cong [OF first_user_phone, of length] by simp
  then show "SEED_BALANCE_PAISA * int (length (users (db first_user_world))) \<le> i64_max"
    by (simp add: SEED_BALANCE_PAISA_def i64_max_def)
qed

text \<open>C12: What has been booked stays booked: whatever happens after a reachable state, its ledger, its
transfers and its history are prefixes of the later ones, and no account disappears.\<close>

theorem booked_is_final:
  assumes "reachable P w" "system_run P w w'"
  shows "extends (ledger (db w)) (ledger (db w')) \<and> extends (transfers (db w)) (transfers (db w')) \<and>
    extends (history (db w)) (history (db w')) \<and> extends (map u_id (users (db w))) (map u_id (users (db w')))"
  using system_run_evolves [OF assms(2) reachable_ok [OF assms(1)]] by (simp add: evolves_def)

theorem booked_is_final_witness:
  "extends (ledger (db initial_world)) (ledger (db first_user_world))"
  using booked_is_final [OF initial_reachable initial_run] by simp

text \<open>An idempotency key backs at most one recorded transfer in the whole system, whichever endpoint
recorded it, and the transfer it backs never changes.\<close>

theorem idempotency_key_unique:
  assumes "reachable P w" "system_run P w w'" "t \<in> set (transfers (db w))" "t' \<in> set (transfers (db w'))"
    "t_idempotency_key t' = t_idempotency_key t"
  shows "t' = t"
proof -
  have "extends (transfers (db w)) (transfers (db w'))"
    using system_run_evolves [OF assms(2) reachable_ok [OF assms(1)]] by (simp add: evolves_def)
  then have t: "t \<in> set (transfers (db w'))" using assms(3) by (rule extends_set)
  have "reachable P w'" by (rule system_run_reachable [OF assms(2,1)])
  then have k: "distinct (map t_idempotency_key (transfers (db w')))"
    by (rule reachable_keys [unfolded keys_ok_def])
  show ?thesis by (rule distinct_keys_eq [OF k assms(4) t assms(5)])
qed

theorem idempotency_key_unique_witness:
  "transfers (db refused_world) = transfers (db paid_world)"
proof -
  have run: "system_run sample_platform paid_world refused_world"
    unfolding refused_world_def asked_world_def system_run_def
    by (rule rtranclp.rtrancl_into_rtrancl [OF r_into_rtranclp]) (rule system_step.performs)+
  obtain t where t: "transfers (db paid_world) = [t]" "t_idempotency_key t = Uuid 7"
    using paid_keys by auto
  obtain t' where t': "transfers (db refused_world) = [t']" "t_idempotency_key t' = Uuid 7"
    using refused_keys by auto
  from idempotency_key_unique [OF paid_reachable run, of t t'] t t' show ?thesis by simp
qed

text \<open>A verdict on a money request is final: once it is accepted, rejected or cancelled, no later
sequence of requests to the service, by anybody, changes its row in any column.\<close>

theorem request_verdict_final:
  assumes "reachable P w" "system_run P w w'" "find_request i (db w) = Some r" "r_status r \<noteq> ''pending''"
  shows "find_request i (db w') = Some r"
proof -
  have "table_evolves request_step pending (requests (db w)) (requests (db w'))"
    using system_run_evolves [OF assms(2) reachable_ok [OF assms(1)]] by (simp add: evolves_def)
  from rq.find_evolves [OF this assms(3) [unfolded find_request_def]] obtain r'
    where r': "find (\<lambda>r. r_id r = i) (requests (db w')) = Some r'" "row_evolves request_step r r'" by blast
  from request_evolves_terminal [OF r'(2) assms(4)] r'(1) show ?thesis by (simp add: find_request_def)
qed

theorem request_verdict_final_witness:
  "map_option r_status (find_request (Uuid 530) (db too_late_world)) = Some ''rejected''"
proof -
  obtain r where r: "find_request (Uuid 530) (db refused_world) = Some r" "r_status r = ''rejected''"
    using refused_status by auto
  have "system_run sample_platform refused_world too_late_world"
    unfolding too_late_world_def by (rule performs_run)
  from request_verdict_final [OF refused_reachable this r(1)] r(2) show ?thesis by simp
qed

text \<open>The verdict on a payment link is final for its money: a claimed link never changes again, and a
link that has been cancelled or has expired is never claimed afterwards.\<close>

theorem link_verdict_final:
  assumes "reachable P w" "system_run P w w'" "find_link_by_token token (db w) = Some k"
    "k_status k = ''claimed'' \<or> k_status k = ''expired'' \<or> k_status k = ''cancelled''"
  shows "\<exists>k'. find_link_by_token token (db w') = Some k' \<and>
     (if k_status k = ''claimed'' then k' = k else k_status k' = ''expired'' \<or> k_status k' = ''cancelled'')"
proof -
  have "table_evolves link_step is_active (links (db w)) (links (db w'))"
    using system_run_evolves [OF assms(2) reachable_ok [OF assms(1)]] by (simp add: evolves_def)
  from lt.find_evolves [OF this assms(3) [unfolded find_link_by_token_def]] obtain k'
    where k': "find (\<lambda>k. k_token k = token) (links (db w')) = Some k'" "row_evolves link_step k k'" by blast
  show ?thesis
    using link_claimed_terminal [OF k'(2)] link_dead [OF k'(2)] assms(4) k'(1)
    by (auto simp: find_link_by_token_def)
qed

theorem link_verdict_final_witness:
  "\<exists>k. find_link_by_token carols_token (db claimed_late_world) = Some k \<and> k_status k \<noteq> ''claimed''"
proof -
  obtain k where k: "find_link_by_token carols_token (db withdrawn_world) = Some k" "k_status k = ''cancelled''"
    using withdrawn_status by auto
  have "system_run sample_platform withdrawn_world claimed_late_world"
    unfolding claimed_late_world_def by (rule performs_run)
  from link_verdict_final [OF withdrawn_reachable this k(1)] k(2) show ?thesis by auto
qed

end
